(* ===== verification/Prelude.thy ===== *)
theory Prelude
  imports Main "HOL-Library.AList" "HOL-Library.Word" "HOL-Library.Sublist"
begin

text \<open>
  What every theory of the development shares: the Python values the program
  handles (bytes, exceptions), the outcome of a call that threads a state
  (\<open>Ret\<close> a value, \<open>Raise\<close> an exception, or \<open>Diverge\<close> when it never returns),
  sequencing and \<open>try/except\<close> over such outcomes, and Python dictionaries, which
  iterate in insertion order, as association lists.
\<close>

named_theorems outcome_simps \<open>unfolding rules for sequencing and exception handling\<close>
named_theorems dict_simps \<open>lookup after store and delete on dictionaries\<close>

section \<open>Values\<close>

type_synonym byte = "8 word"
type_synonym bytes = "byte list"
type_synonym fd = int        \<comment> \<open>file descriptor; -1 once the socket is closed\<close>
type_synonym tid = nat       \<comment> \<open>thread identity\<close>
type_synonym fid = nat       \<comment> \<open>identity of a \<open>concurrent.futures.Future\<close> object\<close>
type_synonym lid = nat       \<comment> \<open>identity of a done-callback\<close>
type_synonym cid = nat       \<comment> \<open>identity of a channel object\<close>

datatype exn =
    RuntimeError string
  | InvalidStateError
  | CancelledError           \<comment> \<open>of \<^verbatim>\<open>concurrent.futures\<close>\<close>
  | AssertionError
  | KeyError
  | IndexError
  | ValueError
  | TypeError
  | AttributeError
  | OSError int              \<comment> \<open>with its \<open>errno\<close>\<close>
  | StructError              \<comment> \<open>\<open>struct.error\<close>\<close>
  | EOFError
  | UserError nat            \<comment> \<open>raised by application code\<close>

section \<open>Outcomes of calls\<close>

datatype 'a outcome = Ret 'a | Raise exn | Diverge

text \<open>\<open>andThen r k\<close> runs \<open>k\<close> on the value of \<open>r\<close>; an exception or a call that never
  returns skips \<open>k\<close>.\<close>

definition andThen :: "'a outcome \<times> 's \<Rightarrow> ('a \<Rightarrow> 's \<Rightarrow> 'b outcome \<times> 's) \<Rightarrow> 'b outcome \<times> 's" where
  "andThen r k = (case r of
      (Ret a, s) \<Rightarrow> k a s
    | (Raise e, s) \<Rightarrow> (Raise e, s)
    | (Diverge, s) \<Rightarrow> (Diverge, s))"

text \<open>\<open>handling r h\<close> is \<open>try: r except Exception as e: h e\<close>.\<close>

definition handling :: "'a outcome \<times> 's \<Rightarrow> (exn \<Rightarrow> 's \<Rightarrow> 'a outcome \<times> 's) \<Rightarrow> 'a outcome \<times> 's" where
  "handling r h = (case r of
      (Ret a, s) \<Rightarrow> (Ret a, s)
    | (Raise e, s) \<Rightarrow> h e s
    | (Diverge, s) \<Rightarrow> (Diverge, s))"

lemma andThen_simps [simp, outcome_simps]:
  "andThen (Ret a, s) k = k a s"
  "andThen (Raise e, s) k = (Raise e, s)"
  "andThen (Diverge, s) k = (Diverge, s)"
  by (simp_all add: andThen_def)

lemma handling_simps [simp, outcome_simps]:
  "handling (Ret a, s) h = (Ret a, s)"
  "handling (Raise e, s) h = h e s"
  "handling (Diverge, s) h = (Diverge, s)"
  by (simp_all add: handling_def)

lemma andThen_cong [fundef_cong]:
  "r = r' \<Longrightarrow> (\<And>a s. r' = (Ret a, s) \<Longrightarrow> k a s = k' a s) \<Longrightarrow> andThen r k = andThen r' k'"
  by (auto simp: andThen_def split: prod.splits outcome.splits)

lemma handling_cong [fundef_cong]:
  "r = r' \<Longrightarrow> (\<And>e s. r' = (Raise e, s) \<Longrightarrow> h e s = h' e s) \<Longrightarrow> handling r h = handling r' h'"
  by (auto simp: handling_def split: prod.splits outcome.splits)

lemma andThen_assoc:
  "andThen (andThen r k) k' = andThen r (\<lambda>a s. andThen (k a s) k')"
  by (auto simp: andThen_def split: prod.splits outcome.splits)

text \<open>A relation between the state before and after that is kept by both parts of a
  sequence is kept by the sequence: the rule by which frame conditions and invariants
  are proved once per primitive operation.\<close>

lemma snd_andThenI:
  assumes "R (snd r)" and "\<And>a s. r = (Ret a, s) \<Longrightarrow> R s \<Longrightarrow> R (snd (k a s))"
  shows "R (snd (andThen r k))"
  using assms by (cases r; cases "fst r") auto

lemma snd_handlingI:
  assumes "R (snd r)" and "\<And>e s. r = (Raise e, s) \<Longrightarrow> R s \<Longrightarrow> R (snd (h e s))"
  shows "R (snd (handling r h))"
  using assms by (cases r; cases "fst r") auto

text \<open>A sequence that returns went through both parts; a handled call that returns did so by
  itself or in the handler.\<close>

lemma andThen_RetE:
  assumes "andThen r k = (Ret b, s')"
  obtains a s where "r = (Ret a, s)" "k a s = (Ret b, s')"
  using assms by (cases r; cases "fst r") auto

text \<open>A call that raises nothing.\<close>

definition calm :: "'a outcome \<times> 's \<Rightarrow> bool" where
  "calm r \<longleftrightarrow> (\<forall>e. fst r \<noteq> Raise e)"

named_theorems calm_intro \<open>calls that raise nothing\<close>

lemma calm_pair [simp]: "calm (Ret a, s)" "calm (Diverge, s)" "\<not> calm (Raise e, s)"
  by (simp_all add: calm_def)

lemma calm_andThen [calm_intro]:
  "calm r \<Longrightarrow> (\<And>a s. r = (Ret a, s) \<Longrightarrow> calm (k a s)) \<Longrightarrow> calm (andThen r k)"
  by (cases r; cases "fst r") auto

lemma calm_handling [calm_intro]: "(\<And>e s. r = (Raise e, s) \<Longrightarrow> calm (h e s)) \<Longrightarrow> calm (handling r h)"
  by (cases r; cases "fst r") auto

lemma calm_if [calm_intro]: "(b \<Longrightarrow> calm x) \<Longrightarrow> (\<not> b \<Longrightarrow> calm y) \<Longrightarrow> calm (if b then x else y)"
  by simp

text \<open>A call that neither raises nor diverges.\<close>

definition returns :: "'a outcome \<times> 's \<Rightarrow> bool" where
  "returns r \<longleftrightarrow> (\<exists>a. fst r = Ret a)"

lemma returns_simps [simp]:
  "returns (Ret a, s)" "\<not> returns (Raise e, s)" "\<not> returns (Diverge, s)"
  by (simp_all add: returns_def)

lemma returnsE:
  assumes "returns r"
  obtains a s where "r = (Ret a, s)"
  using assms by (cases r) (auto simp: returns_def)

named_theorems returns_intro \<open>calls that return\<close>

lemma returns_andThen [returns_intro]:
  "returns r \<Longrightarrow> (\<And>a s. r = (Ret a, s) \<Longrightarrow> returns (k a s)) \<Longrightarrow> returns (andThen r k)"
  by (cases r; cases "fst r") auto

lemma returns_handling [returns_intro]:
  "fst r \<noteq> Diverge \<Longrightarrow> (\<And>e s. r = (Raise e, s) \<Longrightarrow> returns (h e s)) \<Longrightarrow> returns (handling r h)"
  by (cases r; cases "fst r") auto

lemma returns_if [returns_intro]:
  "(b \<Longrightarrow> returns x) \<Longrightarrow> (\<not> b \<Longrightarrow> returns y) \<Longrightarrow> returns (if b then x else y)"
  by simp

lemma returns_not_Diverge: "returns r \<Longrightarrow> fst r \<noteq> Diverge"
  by (auto simp: returns_def)

lemma calm_returns: "calm r \<Longrightarrow> fst r \<noteq> Diverge \<Longrightarrow> returns r"
  by (cases r; cases "fst r") auto

section \<open>Dictionaries\<close>

text \<open>A Python dictionary iterates in insertion order: assigning to a present key keeps
  its place, a new key goes to the end. \<open>AList.update\<close> and \<open>AList.delete\<close> do the same.\<close>

type_synonym ('k, 'v) dict = "('k \<times> 'v) list"

definition dict_get :: "('k, 'v) dict \<Rightarrow> 'k \<Rightarrow> 'v option" where
  "dict_get d k = map_of d k"

definition dict_set :: "'k \<Rightarrow> 'v \<Rightarrow> ('k, 'v) dict \<Rightarrow> ('k, 'v) dict" where
  "dict_set k v d = AList.update k v d"

definition dict_pop :: "'k \<Rightarrow> ('k, 'v) dict \<Rightarrow> ('k, 'v) dict" where
  "dict_pop k d = AList.delete k d"

definition dict_keys :: "('k, 'v) dict \<Rightarrow> 'k set" where
  "dict_keys d = fst ` set d"

definition dict_ok :: "('k, 'v) dict \<Rightarrow> bool" where
  "dict_ok d \<longleftrightarrow> distinct (map fst d)"

text \<open>The contract of a dictionary: what a lookup returns after each operation, and that
  keys stay unique.\<close>

locale dictionary =
  fixes get :: "'d \<Rightarrow> 'k \<Rightarrow> 'v option"
    and put :: "'k \<Rightarrow> 'v \<Rightarrow> 'd \<Rightarrow> 'd"
    and pop :: "'k \<Rightarrow> 'd \<Rightarrow> 'd"
    and keys :: "'d \<Rightarrow> 'k set"
    and ok :: "'d \<Rightarrow> bool"
  assumes get_put: "get (put k v d) k' = (if k' = k then Some v else get d k')"
    and get_pop: "get (pop k d) k' = (if k' = k then None else get d k')"
    and keys_get: "k \<in> keys d \<longleftrightarrow> (\<exists>v. get d k = Some v)"
    and ok_put: "ok d \<Longrightarrow> ok (put k v d)"
    and ok_pop: "ok d \<Longrightarrow> ok (pop k d)"
begin

lemma keys_put: "keys (put k v d) = insert k (keys d)"
  by (auto simp: keys_get get_put split: if_splits)

lemma keys_pop: "keys (pop k d) = keys d - {k}"
  by (auto simp: keys_get get_pop split: if_splits)

lemma get_none: "get d k = None \<longleftrightarrow> k \<notin> keys d"
  by (auto simp: keys_get)

lemma pop_absent_key: "k \<notin> keys (pop k d)"
  by (simp add: keys_pop)

lemma pop_put_get: "get (pop k (put k v d)) k' = get (pop k d) k'"
  by (simp add: get_put get_pop)

end

interpretation dict: dictionary dict_get dict_set dict_pop dict_keys dict_ok
proof unfold_locales
  show "dict_get (dict_set k v d) k' = (if k' = k then Some v else dict_get d k')"
    for k k' :: 'a and v :: 'b and d
    by (simp add: dict_get_def dict_set_def update_conv')
  show "dict_get (dict_pop k d) k' = (if k' = k then None else dict_get d k')"
    for k k' :: 'a and d :: "('a, 'b) dict"
    by (simp add: dict_get_def dict_pop_def delete_conv')
  show "k \<in> dict_keys d \<longleftrightarrow> (\<exists>v. dict_get d k = Some v)" for k :: 'a and d :: "('a, 'b) dict"
    by (simp add: dict_keys_def dict_get_def flip: dom_map_of_conv_image_fst) blast
  show "dict_ok d \<Longrightarrow> dict_ok (dict_set k v d)" for k :: 'a and v :: 'b and d
    by (simp add: dict_ok_def dict_set_def distinct_update)
  show "dict_ok d \<Longrightarrow> dict_ok (dict_pop k d)" for k :: 'a and d :: "('a, 'b) dict"
    by (simp add: dict_ok_def dict_pop_def distinct_delete)
qed

lemmas dict_laws [simp, dict_simps] =
  dict.get_put dict.get_pop dict.keys_put dict.keys_pop dict.ok_put dict.ok_pop

lemma dict_nil [simp, dict_simps]:
  "dict_get [] k = None" "dict_keys [] = {}" "dict_ok []"
  by (simp_all add: dict_get_def dict_keys_def dict_ok_def)

lemma dict_get_in: "dict_get d k = Some v \<Longrightarrow> (k, v) \<in> set d"
  by (simp add: dict_get_def map_of_SomeD)

lemma dict_in_get: "dict_ok d \<Longrightarrow> (k, v) \<in> set d \<Longrightarrow> dict_get d k = Some v"
  by (simp add: dict_get_def dict_ok_def)

section \<open>Sequences\<close>

lemma prefix_take_drop: "prefix (take n xs) xs"
  by (simp add: take_is_prefix)

lemma sum_list_len_concat: "length (concat xs) = sum_list (map length xs)"
  by (simp add: length_concat)

end
