(* ===== verification/SocketIO.thy ===== *)
theory SocketIO
  imports Prelude
begin

text \<open>
  The parts of \<^verbatim>\<open>py_netty/channel.py\<close> that talk to the socket and know nothing of the event
  loop: the tuning constants, \<open>adaptive_bufsize\<close>, and the loops of \<open>try_send\<close>,
  \<open>recvall\<close>, \<open>is_readable\<close> and \<open>acceptall\<close>.  The kernel is a parameter: a function from the
  number of the call to its result, so that one function stands for one behaviour of
  the peer and the network.  A loop that the kernel could keep running for ever is a
  \<open>partial_function (option)\<close>; the lemmas say when it returns.
\<close>

section \<open>Tuning constants\<close>

record config =
  cfg_low :: int             \<comment> \<open>\<open>_DEFAULT_LOW_WATER_MARK\<close>\<close>
  cfg_high :: int            \<comment> \<open>\<open>_DEFAULT_HIGH_WATER_MARK\<close>\<close>
  cfg_rounds :: int          \<comment> \<open>\<open>_ROUNDS\<close>\<close>
  cfg_initial :: int         \<comment> \<open>\<open>_INITIAL_BUFFER_SIZE\<close>\<close>
  cfg_min :: int             \<comment> \<open>\<open>_MIN_BUFFER_SIZE\<close>\<close>
  cfg_max :: int             \<comment> \<open>\<open>_MAX_BUFFER_SIZE\<close>\<close>

definition getenv :: "(string \<Rightarrow> int option) \<Rightarrow> string \<Rightarrow> int \<Rightarrow> int" where
  "getenv env name dflt = (case env name of None \<Rightarrow> dflt | Some v \<Rightarrow> v)"

definition config_of_env :: "(string \<Rightarrow> int option) \<Rightarrow> config" where
  "config_of_env env =
     (let initial = getenv env ''PY_NETTY_TUNING_INIT_BUFFER_SIZE'' 1024 in
      \<lparr> cfg_low = getenv env ''PY_NETTY_LOW_WATER_MARK'' (32 * 1024),
        cfg_high = getenv env ''PY_NETTY_HIGH_WATER_MARK'' (64 * 1024),
        cfg_rounds = getenv env ''PY_NETTY_TUNING_ROUNDS'' 16,
        cfg_initial = initial,
        cfg_min = getenv env ''PY_NETTY_TUNING_MIN_BUFFER_SIZE'' (drop_bit 1 initial),
        cfg_max = getenv env ''PY_NETTY_TUNING_MAX_BUFFER_SIZE'' (push_bit 4 initial) \<rparr>)"

definition config_ok :: "config \<Rightarrow> bool" where
  "config_ok cfg \<longleftrightarrow> 0 < cfg_min cfg \<and> cfg_min cfg \<le> cfg_initial cfg
     \<and> cfg_initial cfg \<le> cfg_max cfg \<and> 0 < cfg_rounds cfg
     \<and> 0 \<le> cfg_low cfg \<and> cfg_low cfg < cfg_high cfg"

lemma shift_simps [simp]:
  "drop_bit (Suc 0) (x::int) = x div 2" "push_bit (Suc 0) (x::int) = 2 * x"
  by (simp_all add: drop_bit_eq_div push_bit_eq_mult)

lemma default_config_ok: "config_ok (config_of_env (\<lambda>_. None))"
  by (simp add: config_ok_def config_of_env_def getenv_def Let_def push_bit_eq_mult)

section \<open>Adaptive read buffers\<close>

definition adaptive_bufsize :: "config \<Rightarrow> int \<Rightarrow> int \<Rightarrow> int" where
  "adaptive_bufsize cfg previous_bufsize data_size =
     (if data_size < drop_bit 1 previous_bufsize \<and> previous_bufsize > cfg_min cfg
      then max (drop_bit 1 previous_bufsize) (cfg_min cfg)
      else if data_size = previous_bufsize \<and> previous_bufsize < cfg_max cfg
      then min (push_bit 1 previous_bufsize) (cfg_max cfg)
      else previous_bufsize)"

lemma adaptive_in_range:
  assumes "0 < cfg_min cfg" "cfg_min cfg \<le> p" "p \<le> cfg_max cfg"
  shows "cfg_min cfg \<le> adaptive_bufsize cfg p n \<and> adaptive_bufsize cfg p n \<le> cfg_max cfg"
  using assms by (auto simp: adaptive_bufsize_def)

section \<open>Sending\<close>

datatype send_res = Sent nat | SendError

partial_function (option) try_send_loop ::
    "(nat \<Rightarrow> bytes \<Rightarrow> send_res) \<Rightarrow> bytes \<Rightarrow> nat \<Rightarrow> nat \<Rightarrow> int \<Rightarrow> (nat \<times> nat) option" where
  "try_send_loop send buf k total_sent spin =
     (if total_sent < length buf then
        (case send k (drop total_sent buf) of
           Sent n \<Rightarrow> try_send_loop send buf (Suc k) (total_sent + n) spin
         | SendError \<Rightarrow>
             (if spin > 0 then try_send_loop send buf (Suc k) total_sent (spin - 1)
              else Some (total_sent, Suc k)))
      else Some (total_sent, k))"

declare try_send_loop.simps [code]

text \<open>The result is the unsent tail and the number of kernel calls made so far.\<close>

definition try_send_bytes ::
    "(nat \<Rightarrow> bytes \<Rightarrow> send_res) \<Rightarrow> bytes \<Rightarrow> int \<Rightarrow> nat \<Rightarrow> (bytes \<times> nat) option" where
  "try_send_bytes send bytebuf spin k =
     (if bytebuf = [] then Some ([], k)
      else (case try_send_loop send bytebuf k 0 spin of
              None \<Rightarrow> None
            | Some (total_sent, k') \<Rightarrow> Some (drop total_sent bytebuf, k')))"

text \<open>What a non-blocking stream socket does: a successful \<open>send\<close> of some bytes takes at
  least one of them and no more than it was given.\<close>

definition send_ok :: "(nat \<Rightarrow> bytes \<Rightarrow> send_res) \<Rightarrow> bool" where
  "send_ok send \<longleftrightarrow> (\<forall>k d n. d \<noteq> [] \<longrightarrow> send k d = Sent n \<longrightarrow> 0 < n \<and> n \<le> length d)"

lemma send_okD: "send_ok send \<Longrightarrow> send k d = Sent n \<Longrightarrow> d \<noteq> [] \<Longrightarrow> 0 < n \<and> n \<le> length d"
  by (simp add: send_ok_def)

lemma try_send_loop_returns:
  assumes "send_ok send" "0 \<le> spin" "tot \<le> length buf"
  shows "\<exists>t k'. try_send_loop send buf k tot spin = Some (t, k') \<and> tot \<le> t \<and> t \<le> length buf
     \<and> k \<le> k' \<and> k' \<le> k + (length buf - tot) + nat spin + 1"
  using assms
proof (induction "length buf - tot + nat spin" arbitrary: k tot spin rule: less_induct)
  case less
  show ?case
  proof (cases "tot < length buf")
    case False
    with less.prems show ?thesis by (simp add: try_send_loop.simps)
  next
    case more: True
    show ?thesis
    proof (cases "send k (drop tot buf)")
      case (Sent n)
      with send_okD[OF less.prems(1) Sent] more have n: "0 < n" "tot + n \<le> length buf" by auto
      with more have "length buf - (tot + n) + nat spin < length buf - tot + nat spin" by simp
      from less.hyps[OF this less.prems(1,2) n(2), of "Suc k"] obtain t k' where
        "try_send_loop send buf (Suc k) (tot + n) spin = Some (t, k')" "tot + n \<le> t"
        "t \<le> length buf" "Suc k \<le> k'" "k' \<le> Suc k + (length buf - (tot + n)) + nat spin + 1"
        by blast
      with more Sent n show ?thesis by (subst try_send_loop.simps) simp
    next
      case SendError
      show ?thesis
      proof (cases "spin > 0")
        case True
        then have "length buf - tot + nat (spin - 1) < length buf - tot + nat spin" "0 \<le> spin - 1"
          by auto
        from less.hyps[OF this(1) less.prems(1) this(2) less.prems(3), of "Suc k"] obtain t k' where
          "try_send_loop send buf (Suc k) tot (spin - 1) = Some (t, k')" "tot \<le> t"
          "t \<le> length buf" "Suc k \<le> k'" "k' \<le> Suc k + (length buf - tot) + nat (spin - 1) + 1"
          by blast
        with more SendError True show ?thesis by (subst try_send_loop.simps) simp
      next
        case False
        with more SendError less.prems show ?thesis by (simp add: try_send_loop.simps)
      qed
    qed
  qed
qed

text \<open>The reference semantics of the send loop: what the first \<open>m\<close> calls to the kernel
  have achieved, bytes taken and errors met, with no retry budget.\<close>

fun send_run :: "(nat \<Rightarrow> bytes \<Rightarrow> send_res) \<Rightarrow> bytes \<Rightarrow> nat \<Rightarrow> nat \<Rightarrow> nat \<times> nat" where
  "send_run send buf k 0 = (0, 0)"
| "send_run send buf k (Suc m) =
     (let (t, e) = send_run send buf k m in
      case send (k + m) (drop t buf) of Sent n \<Rightarrow> (t + n, e) | SendError \<Rightarrow> (t, Suc e))"

definition send_over :: "(nat \<Rightarrow> bytes \<Rightarrow> send_res) \<Rightarrow> bytes \<Rightarrow> nat \<Rightarrow> int \<Rightarrow> nat \<Rightarrow> bool" where
  "send_over send buf k spin m \<longleftrightarrow>
     length buf \<le> fst (send_run send buf k m) \<or> spin < int (snd (send_run send buf k m))"

lemma try_send_loop_run:
  assumes "send_over send buf k spin m" "\<forall>j<m. \<not> send_over send buf k spin j"
    and "i \<le> m" "send_run send buf k i = (t, e)" "int e \<le> spin"
  shows "try_send_loop send buf (k + i) t (spin - int e) = Some (fst (send_run send buf k m), k + m)"
  using assms(3-5)
proof (induction "m - i" arbitrary: i t e)
  case 0
  with assms(1) show ?case by (auto simp: send_over_def try_send_loop.simps)
next
  case (Suc d)
  then have "i < m" by simp
  with assms(2) Suc.prems have more: "t < length buf" by (fastforce simp: send_over_def)
  show ?case
  proof (cases "send (k + i) (drop t buf)")
    case (Sent n)
    with Suc.prems have "send_run send buf k (Suc i) = (t + n, e)" by simp
    with Suc.hyps Suc.prems(3) \<open>i < m\<close>
    have "try_send_loop send buf (k + Suc i) (t + n) (spin - int e)
        = Some (fst (send_run send buf k m), k + m)"
      by (intro Suc.hyps(1)) auto
    with more Sent show ?thesis by (subst try_send_loop.simps) simp
  next
    case SendError
    with Suc.prems have run: "send_run send buf k (Suc i) = (t, Suc e)" by simp
    show ?thesis
    proof (cases "int e < spin")
      case True
      with Suc.hyps \<open>i < m\<close> run
      have "try_send_loop send buf (k + Suc i) t (spin - int (Suc e))
          = Some (fst (send_run send buf k m), k + m)"
        by (intro Suc.hyps(1)) auto
      with more SendError True show ?thesis
        by (subst try_send_loop.simps) (simp add: algebra_simps)
    next
      case False
      with run Suc.prems(3) have "send_over send buf k spin (Suc i)" by (simp add: send_over_def)
      with assms(2) \<open>i < m\<close> have "m = Suc i" by (metis Suc_lessI)
      with more SendError False run show ?thesis by (subst try_send_loop.simps) simp
    qed
  qed
qed

section \<open>Receiving\<close>

datatype recv_res = Received bytes | RecvError "int option"   \<comment> \<open>with its \<open>errno\<close>\<close>

definition ECONNABORTED :: int where "ECONNABORTED = 103"
definition ECONNRESET :: int where "ECONNRESET = 104"

text \<open>\<open>is_readable\<close>, on the result of the peek: an empty answer is end of file, and any
  exception counts as not readable.\<close>

definition is_readable :: "recv_res \<Rightarrow> bool" where
  "is_readable peek = (case peek of Received d \<Rightarrow> \<not> d = [] | RecvError _ \<Rightarrow> False)"

text \<open>The kernel of one socket: \<open>recv\<close>, the peeking \<open>recv\<close>, and the clock behind
  \<open>time.perf_counter\<close> (in nanoseconds, so that the thresholds 0.1 s and 0.01 s are
  integers).\<close>

record rkernel =
  rk_recv :: "nat \<Rightarrow> int \<Rightarrow> recv_res"
  rk_peek :: "nat \<Rightarrow> recv_res"
  rk_perf :: "nat \<Rightarrow> int"

partial_function (option) recvall_loop ::
    "config \<Rightarrow> rkernel \<Rightarrow> nat \<Rightarrow> bytes list \<Rightarrow> int \<Rightarrow> int \<Rightarrow> int \<Rightarrow> (bytes \<times> bool \<times> nat) option" where
  "recvall_loop cfg K k buffers bufsize rounds total_costs =
     (case rk_recv K (Suc k) bufsize of
        Received received \<Rightarrow>
          (if received = [] then Some (concat buffers, True, k + 3)
           else if rounds + 1 = cfg_rounds cfg
                 \<or> total_costs + (rk_perf K (k + 2) - rk_perf K k) > 100000000
                 \<or> rk_perf K (k + 2) - rk_perf K k > 10000000
           then Some (concat (buffers @ [received]), False, k + 3)
           else recvall_loop cfg K (k + 3) (buffers @ [received])
                  (adaptive_bufsize cfg bufsize (int (length received)))
                  (rounds + 1) (total_costs + (rk_perf K (k + 2) - rk_perf K k)))
      | RecvError errno \<Rightarrow>
          (if is_readable (rk_peek K (k + 2))
           then recvall_loop cfg K (k + 3) buffers bufsize (rounds + 1) total_costs
           else Some (concat buffers, errno \<in> {Some ECONNABORTED, Some ECONNRESET}, k + 3)))"

declare recvall_loop.simps [code]

definition recvall :: "config \<Rightarrow> rkernel \<Rightarrow> nat \<Rightarrow> (bytes \<times> bool \<times> nat) option" where
  "recvall cfg K k = recvall_loop cfg K k [] (cfg_initial cfg) 0 0"

text \<open>The reference semantics of the read loop: the buffer size and the result of the
  \<open>i\<close>-th read, when every read before it was answered.\<close>

fun read_size :: "config \<Rightarrow> rkernel \<Rightarrow> nat \<Rightarrow> nat \<Rightarrow> int" where
  "read_size cfg K k 0 = cfg_initial cfg"
| "read_size cfg K k (Suc i) =
     (case rk_recv K (Suc (k + 3 * i)) (read_size cfg K k i) of
        Received d \<Rightarrow> adaptive_bufsize cfg (read_size cfg K k i) (int (length d))
      | RecvError _ \<Rightarrow> read_size cfg K k i)"

definition read_at :: "config \<Rightarrow> rkernel \<Rightarrow> nat \<Rightarrow> nat \<Rightarrow> recv_res" where
  "read_at cfg K k i = rk_recv K (Suc (k + 3 * i)) (read_size cfg K k i)"

definition data_of :: "recv_res \<Rightarrow> bytes" where
  "data_of r = (case r of Received d \<Rightarrow> d | RecvError _ \<Rightarrow> [])"

definition read_cost :: "rkernel \<Rightarrow> nat \<Rightarrow> nat \<Rightarrow> int" where
  "read_cost K k i = rk_perf K (k + 3 * i + 2) - rk_perf K (k + 3 * i)"

definition quick_reads :: "rkernel \<Rightarrow> nat \<Rightarrow> nat \<Rightarrow> bool" where
  "quick_reads K k n \<longleftrightarrow> (\<forall>i<n. read_cost K k i \<le> 10000000
     \<and> (\<Sum>j<Suc i. read_cost K k j) \<le> 100000000)"

text \<open>How a read ends the loop, if it does: with the end-of-stream flag.\<close>

definition read_end :: "recv_res \<Rightarrow> recv_res \<Rightarrow> bool option" where
  "read_end r peek = (case r of
      Received d \<Rightarrow> if d = [] then Some True else None
    | RecvError errno \<Rightarrow> if is_readable peek then None
        else Some (errno \<in> {Some ECONNABORTED, Some ECONNRESET}))"

lemma recvall_loop_reads:
  assumes "\<forall>i<n. data_of (read_at cfg K k i) \<noteq> []" "quick_reads K k n" "int n < cfg_rounds cfg"
  shows "recvall cfg K k = recvall_loop cfg K (k + 3 * n)
     (map (\<lambda>i. data_of (read_at cfg K k i)) [0..<n]) (read_size cfg K k n) (int n)
     (\<Sum>j<n. read_cost K k j)"
  using assms
proof (induction n)
  case 0
  then show ?case by (simp add: recvall_def)
next
  case (Suc n)
  from Suc.prems have q: "quick_reads K k n" by (simp add: quick_reads_def)
  from Suc.prems(1) have "data_of (read_at cfg K k n) \<noteq> []" by blast
  then obtain d where d: "read_at cfg K k n = Received d" "d \<noteq> []"
    by (auto simp: data_of_def split: recv_res.splits)
  have c: "read_cost K k n \<le> 10000000" "(\<Sum>j<n. read_cost K k j) + read_cost K k n \<le> 100000000"
    using Suc.prems(2) by (auto simp: quick_reads_def)
  have "recvall cfg K k = recvall_loop cfg K (k + 3 * n)
     (map (\<lambda>i. data_of (read_at cfg K k i)) [0..<n]) (read_size cfg K k n) (int n)
     (\<Sum>j<n. read_cost K k j)"
    using Suc.prems q by (intro Suc.IH) auto
  also have "\<dots> = recvall_loop cfg K (k + 3 * Suc n)
     (map (\<lambda>i. data_of (read_at cfg K k i)) [0..<Suc n]) (read_size cfg K k (Suc n)) (int (Suc n))
     (\<Sum>j<Suc n. read_cost K k j)"
    using d c Suc.prems(3)
    by (subst recvall_loop.simps) (simp add: read_at_def read_cost_def data_of_def algebra_simps)
  finally show ?case .
qed

lemma recvall_loop_bounded:
  assumes no_retry: "\<And>j sz e. rk_recv K (Suc j) sz = RecvError e \<Longrightarrow> \<not> is_readable (rk_peek K (j + 2))"
    and recv_ok: "\<And>j sz d. rk_recv K j sz = Received d \<Longrightarrow> int (length d) \<le> sz"
    and cfg: "0 < cfg_min cfg" "cfg_min cfg \<le> bufsize" "bufsize \<le> cfg_max cfg"
    and "0 \<le> rounds" "rounds < cfg_rounds cfg"
  shows "\<exists>b eof k'. recvall_loop cfg K k buffers bufsize rounds costs = Some (b, eof, k')
    \<and> int (length b) \<le> int (length (concat buffers)) + (cfg_rounds cfg - rounds) * cfg_max cfg
    \<and> int k' \<le> int k + 3 * (cfg_rounds cfg - rounds)"
  using cfg assms(6,7)
proof (induction "nat (cfg_rounds cfg - rounds)" arbitrary: k buffers bufsize rounds costs rule: less_induct)
  case less
  let ?n = "cfg_rounds cfg - rounds" and ?max = "cfg_max cfg"
  have pos: "1 * ?max \<le> ?n * ?max" using less.prems by (intro mult_right_mono) auto
  show ?case
  proof (cases "rk_recv K (Suc k) bufsize")
    case (RecvError e)
    with no_retry less.prems pos show ?thesis by (subst recvall_loop.simps) auto
  next
    case (Received d)
    with recv_ok have len: "int (length d) \<le> ?max" using less.prems by fastforce
    consider (eof) "d = []" | (stop) "d \<noteq> []" "rounds + 1 = cfg_rounds cfg
          \<or> costs + (rk_perf K (k + 2) - rk_perf K k) > 100000000
          \<or> rk_perf K (k + 2) - rk_perf K k > 10000000"
      | (more) "d \<noteq> []" "rounds + 1 < cfg_rounds cfg"
          "\<not> costs + (rk_perf K (k + 2) - rk_perf K k) > 100000000"
          "\<not> rk_perf K (k + 2) - rk_perf K k > 10000000"
      using less.prems by linarith
    then show ?thesis
    proof cases
      case eof
      with Received less.prems pos show ?thesis by (subst recvall_loop.simps) auto
    next
      case stop
      from len pos have "int (length d) \<le> ?n * ?max" by linarith
      with stop Received less.prems show ?thesis by (subst recvall_loop.simps) auto
    next
      case more
      let ?sz = "adaptive_bufsize cfg bufsize (int (length d))"
        and ?c = "costs + (rk_perf K (k + 2) - rk_perf K k)"
      obtain b eof k' where IH:
        "recvall_loop cfg K (k + 3) (buffers @ [d]) ?sz (rounds + 1) ?c = Some (b, eof, k')"
        "int (length b) \<le> int (length (concat (buffers @ [d]))) + (cfg_rounds cfg - (rounds + 1)) * ?max"
        "int k' \<le> int (k + 3) + 3 * (cfg_rounds cfg - (rounds + 1))"
        using less.hyps[of "rounds + 1" ?sz "k + 3" "buffers @ [d]" ?c] less.prems more
          adaptive_in_range[of cfg bufsize] by auto
      have "(cfg_rounds cfg - (rounds + 1)) * ?max = ?n * ?max - ?max" by (simp add: algebra_simps)
      with IH len have "int (length b) \<le> int (length (concat buffers)) + ?n * ?max" by simp
      with IH Received more show ?thesis by (subst recvall_loop.simps) auto
    qed
  qed
qed

section \<open>Accepting\<close>

datatype accept_res = Accepted nat | AcceptError

partial_function (option) acceptall_loop ::
    "(nat \<Rightarrow> accept_res) \<Rightarrow> nat \<Rightarrow> nat list \<Rightarrow> (nat list \<times> nat) option" where
  "acceptall_loop accept k result =
     (case accept k of
        Accepted s \<Rightarrow> acceptall_loop accept (Suc k) (result @ [s])
      | AcceptError \<Rightarrow> Some (result, Suc k))"

declare acceptall_loop.simps [code]

definition acceptall :: "(nat \<Rightarrow> accept_res) \<Rightarrow> nat \<Rightarrow> (nat list \<times> nat) option" where
  "acceptall accept k = acceptall_loop accept k []"

lemma acceptall_loop_result:
  assumes "\<forall>i<n. accept (k + i) = Accepted (s i)" "accept (k + n) = AcceptError"
  shows "acceptall_loop accept k acc = Some (acc @ map s [0..<n], Suc (k + n))"
  using assms
proof (induction n arbitrary: k acc s)
  case 0
  then show ?case by (simp add: acceptall_loop.simps)
next
  case (Suc n)
  have "acceptall_loop accept (Suc k) (acc @ [s 0])
      = Some ((acc @ [s 0]) @ map (\<lambda>i. s (Suc i)) [0..<n], Suc (Suc k + n))"
    using Suc.prems by (intro Suc.IH) auto
  moreover have "accept k = Accepted (s 0)" using Suc.prems(1) by (metis add.right_neutral zero_less_Suc)
  ultimately show ?case
    by (subst acceptall_loop.simps) (simp add: map_upt_Suc del: upt_Suc)
qed

section \<open>Call numbers only grow\<close>

lemma try_send_loop_calls: "try_send_loop send buf k tot spin = Some (t, k') \<Longrightarrow> k \<le> k'"
proof -
  assume ret: "try_send_loop send buf k tot spin = Some (t, k')"
  have "(case (t, k') of (t, k') \<Rightarrow> k \<le> k')"
  proof (rule try_send_loop.raw_induct[where P = "\<lambda>send buf k tot spin r. case r of (t, k') \<Rightarrow> k \<le> k'", OF _ ret])
    fix f send buf k tot spin r
    assume "\<And>send buf k tot spin y. f send buf k tot spin = Some y \<Longrightarrow> case y of (t, k') \<Rightarrow> k \<le> k'"
      and "(if tot < length buf then case send k (drop tot buf) of
            Sent n \<Rightarrow> f send buf (Suc k) (tot + n) spin
          | SendError \<Rightarrow> if spin > 0 then f send buf (Suc k) tot (spin - 1) else Some (tot, Suc k)
        else Some (tot, k)) = Some r"
    then show "case r of (t, k') \<Rightarrow> k \<le> k'"
      by (fastforce split: if_splits send_res.splits)
  qed
  then show ?thesis by simp
qed

lemma try_send_bytes_calls: "try_send_bytes send buf spin k = Some (rem, k') \<Longrightarrow> k \<le> k'"
  by (auto simp: try_send_bytes_def dest: try_send_loop_calls split: if_splits option.splits)

lemma recvall_calls: "recvall cfg K k = Some (b, eof, k') \<Longrightarrow> k \<le> k'"
proof -
  have "case y of (b, eof, k') \<Rightarrow> k \<le> k'"
    if "recvall_loop cfg K k bufs sz rounds costs = Some y" for k bufs sz rounds costs y
  proof (rule recvall_loop.raw_induct[where P = "\<lambda>cfg K k bufs sz rounds costs y. case y of (b, eof, k') \<Rightarrow> k \<le> k'", OF _ that],
      goal_cases)
    case (1 f cfg K k bufs sz rounds costs y)
    from 1(2) show ?case
      by (fastforce dest: 1(1) split: if_splits recv_res.splits)
  qed
  then show "recvall cfg K k = Some (b, eof, k') \<Longrightarrow> k \<le> k'" unfolding recvall_def by fastforce
qed

lemma acceptall_calls: "acceptall accept k = Some (ss, k') \<Longrightarrow> k \<le> k'"
proof -
  have "case y of (ss, k') \<Rightarrow> k \<le> k'" if "acceptall_loop accept k acc = Some y" for k acc y
  proof (rule acceptall_loop.raw_induct[where P = "\<lambda>accept k acc y. case y of (ss, k') \<Rightarrow> k \<le> k'", OF _ that],
      goal_cases)
    case (1 f accept k acc y)
    from 1(2) show ?case by (fastforce dest: 1(1) split: accept_res.splits)
  qed
  then show "acceptall accept k = Some (ss, k') \<Longrightarrow> k \<le> k'" unfolding acceptall_def by fastforce
qed

end
