(* ===== verification/Eventfd.thy ===== *)
theory Eventfd
  imports Prelude
begin

text \<open>
  \<^verbatim>\<open>py_netty/eventfd.py\<close>: the file descriptor by which other threads wake the event loop.
  The state of \<open>BaseEventFD\<close> and its two implementations is one record, with the bytes
  on their way from the write end to the read end; one definition per method.  A read
  of an empty pipe whose write end is open blocks, which is \<open>Diverge\<close>.
\<close>

section \<open>State and operations\<close>

datatype eventfd_kind = PipeEventFD | SocketEventFD

record eventfd =
  ef_kind :: eventfd_kind
  ef_flag :: bool                  \<comment> \<open>\<open>_flag\<close>\<close>
  ef_read_fd :: "fd option"        \<comment> \<open>\<open>_read_fd\<close>\<close>
  ef_write_fd :: "fd option"       \<comment> \<open>\<open>_write_fd\<close>\<close>
  ef_unsafe_counts :: int          \<comment> \<open>\<open>_unsafe_counts\<close>\<close>
  ef_closed :: bool                \<comment> \<open>\<open>_closed\<close>\<close>
  ef_pipe :: bytes                 \<comment> \<open>bytes written and not yet read\<close>

definition eventfd_DATA :: bytes where
  "eventfd_DATA = [65]"

definition base_eventfd :: "eventfd_kind \<Rightarrow> eventfd" where
  "base_eventfd kind = \<lparr>ef_kind = kind, ef_flag = False, ef_read_fd = None, ef_write_fd = None,
     ef_unsafe_counts = 0, ef_closed = False, ef_pipe = []\<rparr>"

definition pipe_eventfd :: "fd \<Rightarrow> fd \<Rightarrow> eventfd" where
  "pipe_eventfd r w = (base_eventfd PipeEventFD)\<lparr>ef_read_fd := Some r, ef_write_fd := Some w\<rparr>"

definition socket_eventfd :: "fd \<Rightarrow> fd \<Rightarrow> eventfd" where
  "socket_eventfd r w = (base_eventfd SocketEventFD)\<lparr>ef_read_fd := Some r, ef_write_fd := Some w\<rparr>"

text \<open>The factory \<open>eventfd()\<close>, with \<open>os.name != "nt"\<close> and the two descriptors the system
  hands out.\<close>

definition eventfd_new :: "bool \<Rightarrow> fd \<Rightarrow> fd \<Rightarrow> eventfd" where
  "eventfd_new posix r w = (if posix then pipe_eventfd r w else socket_eventfd r w)"

definition eventfd_no_fd :: "eventfd \<Rightarrow> exn" where
  "eventfd_no_fd ef = (case ef_kind ef of PipeEventFD \<Rightarrow> TypeError | SocketEventFD \<Rightarrow> AttributeError)"

definition eventfd_read :: "nat \<Rightarrow> eventfd \<Rightarrow> bytes outcome \<times> eventfd" where
  "eventfd_read n ef =
     (case ef_read_fd ef of
        None \<Rightarrow> (Raise (eventfd_no_fd ef), ef)
      | Some _ \<Rightarrow>
          (if ef_pipe ef = [] \<and> ef_write_fd ef \<noteq> None then (Diverge, ef)
           else (Ret (take n (ef_pipe ef)), ef\<lparr>ef_pipe := drop n (ef_pipe ef)\<rparr>)))"

definition eventfd_write :: "bytes \<Rightarrow> eventfd \<Rightarrow> unit outcome \<times> eventfd" where
  "eventfd_write data ef =
     (case ef_write_fd ef of
        None \<Rightarrow> (Raise (eventfd_no_fd ef), ef)
      | Some _ \<Rightarrow> (Ret (), ef\<lparr>ef_pipe := ef_pipe ef @ data\<rparr>))"

definition eventfd_is_set :: "eventfd \<Rightarrow> bool" where
  "eventfd_is_set ef = ef_flag ef"

definition eventfd_clear :: "eventfd \<Rightarrow> unit outcome \<times> eventfd" where
  "eventfd_clear ef =
     (if ef_flag ef then
        andThen (eventfd_read (length eventfd_DATA) (ef\<lparr>ef_flag := False\<rparr>)) (\<lambda>d ef.
          if d = eventfd_DATA then (Ret (), ef) else (Raise AssertionError, ef))
      else (Ret (), ef))"

definition eventfd_unsafe_write :: "eventfd \<Rightarrow> unit outcome \<times> eventfd" where
  "eventfd_unsafe_write ef =
     (if ef_closed ef then (Ret (), ef)
      else if ef_unsafe_counts ef > 0 then (Ret (), ef)
      else andThen (eventfd_write eventfd_DATA ef) (\<lambda>_ ef.
        (Ret (), ef\<lparr>ef_unsafe_counts := ef_unsafe_counts ef + 1\<rparr>)))"

definition eventfd_unsafe_read :: "eventfd \<Rightarrow> unit outcome \<times> eventfd" where
  "eventfd_unsafe_read ef =
     (if ef_closed ef then (Ret (), ef)
      else andThen (eventfd_read (length eventfd_DATA) ef) (\<lambda>_ ef.
        (Ret (), ef\<lparr>ef_unsafe_counts := ef_unsafe_counts ef - 1\<rparr>)))"

definition eventfd_set :: "eventfd \<Rightarrow> unit outcome \<times> eventfd" where
  "eventfd_set ef =
     (if ef_flag ef then (Ret (), ef) else eventfd_write eventfd_DATA (ef\<lparr>ef_flag := True\<rparr>))"

definition eventfd_fileno :: "eventfd \<Rightarrow> fd" where
  "eventfd_fileno ef = (case ef_read_fd ef of None \<Rightarrow> -1 | Some fd \<Rightarrow> fd)"

text \<open>\<open>wait\<close>: with the flag down it selects on the descriptor (\<open>select\<close> refuses a negative
  one), which returns when a byte is there or the timeout is over, and blocks otherwise.\<close>

definition eventfd_wait :: "eventfd \<Rightarrow> int option \<Rightarrow> bool outcome \<times> eventfd" where
  "eventfd_wait ef timeout =
     (if ef_flag ef then (Ret (ef_flag ef), ef)
      else if eventfd_fileno ef < 0 then (Raise ValueError, ef)
      else if ef_pipe ef = [] \<and> timeout = None then (Diverge, ef)
      else (Ret (ef_flag ef), ef))"

definition eventfd_close_fds :: "eventfd \<Rightarrow> eventfd" where
  "eventfd_close_fds ef = ef\<lparr>ef_read_fd := None, ef_write_fd := None, ef_pipe := []\<rparr>"

text \<open>The same written out as the code has it: one descriptor after the other, where the system (or, for a socket,
  its \<open>close\<close>) may answer with an exception.  An \<open>OSError\<close> is dropped, any other ends the loop.\<close>

datatype fd_name = ReadFd | WriteFd

definition fd_attr :: "fd_name \<Rightarrow> eventfd \<Rightarrow> fd option" where
  "fd_attr name ef = (case name of ReadFd \<Rightarrow> ef_read_fd ef | WriteFd \<Rightarrow> ef_write_fd ef)"

definition fd_clear :: "fd_name \<Rightarrow> eventfd \<Rightarrow> eventfd" where
  "fd_clear name ef = (case name of ReadFd \<Rightarrow> ef\<lparr>ef_read_fd := None\<rparr> | WriteFd \<Rightarrow> ef\<lparr>ef_write_fd := None\<rparr>)"

fun close_fds_loop :: "(fd \<Rightarrow> exn option) \<Rightarrow> fd_name list \<Rightarrow> eventfd \<Rightarrow> unit outcome \<times> eventfd" where
  "close_fds_loop close_fd [] ef = (Ret (), ef)"
| "close_fds_loop close_fd (name # names) ef =
     (case fd_attr name ef of
        None \<Rightarrow> close_fds_loop close_fd names ef
      | Some fd \<Rightarrow>
          (case close_fd fd of
             None \<Rightarrow> close_fds_loop close_fd names (fd_clear name ef)
           | Some (OSError _) \<Rightarrow> close_fds_loop close_fd names (fd_clear name ef)
           | Some e \<Rightarrow> (Raise e, ef)))"

lemma close_fds_loop_closes:
  assumes "\<And>fd e. close_fd fd = Some e \<Longrightarrow> \<exists>n. e = OSError n"
  shows "\<exists>ef'. close_fds_loop close_fd [ReadFd, WriteFd] ef = (Ret (), ef') \<and> eventfd_close_fds ef = ef'\<lparr>ef_pipe := []\<rparr>"
proof -
  have step: "close_fds_loop close_fd (name # names) ef =
      close_fds_loop close_fd names (fd_clear name ef)" for name names ef
  proof (cases "fd_attr name ef")
    case None
    then have "fd_clear name ef = ef" by (cases name) (simp_all add: fd_attr_def fd_clear_def)
    with None show ?thesis by simp
  next
    case (Some fd)
    then show ?thesis using assms[of fd] by (cases "close_fd fd") (auto split: exn.split)
  qed
  show ?thesis by (simp add: step fd_clear_def eventfd_close_fds_def del: close_fds_loop.simps(2))
qed

definition eventfd_close :: "eventfd \<Rightarrow> eventfd" where
  "eventfd_close ef =
     (if ef_closed ef then ef else eventfd_close_fds (ef\<lparr>ef_closed := True\<rparr>))"

section \<open>Well-formedness\<close>

text \<open>An open event descriptor holds one byte for the flag and one for the pending
  wake-up, and nothing else; a closed one has no descriptors.\<close>

definition eventfd_ok :: "eventfd \<Rightarrow> bool" where
  "eventfd_ok ef \<longleftrightarrow>
     (if ef_closed ef then ef_read_fd ef = None \<and> ef_write_fd ef = None
      else ef_read_fd ef \<noteq> None \<and> ef_write_fd ef \<noteq> None
        \<and> ef_unsafe_counts ef \<in> {0, 1}
        \<and> ef_pipe ef = replicate (nat (ef_unsafe_counts ef) + of_bool (ef_flag ef)) 65)"

lemmas eventfd_defs = eventfd_DATA_def eventfd_read_def eventfd_write_def eventfd_clear_def
  eventfd_unsafe_write_def eventfd_unsafe_read_def eventfd_set_def eventfd_close_def
  eventfd_close_fds_def eventfd_fileno_def

lemma eventfd_ok_new: "eventfd_ok (eventfd_new posix r w)"
  by (simp add: eventfd_ok_def eventfd_new_def pipe_eventfd_def socket_eventfd_def base_eventfd_def)

lemma eventfd_ok_unsafe_write: "eventfd_ok ef \<Longrightarrow> eventfd_ok (snd (eventfd_unsafe_write ef))"
  by (auto simp: eventfd_ok_def eventfd_defs split: option.splits if_splits)

lemma eventfd_unsafe_write_returns: "eventfd_ok ef \<Longrightarrow> returns (eventfd_unsafe_write ef)"
  by (auto simp: eventfd_ok_def eventfd_defs split: option.splits if_splits)

lemma eventfd_unsafe_write_counts:
  "eventfd_ok ef \<Longrightarrow> \<not> ef_closed ef \<Longrightarrow> ef_unsafe_counts (snd (eventfd_unsafe_write ef)) = 1"
  by (auto simp: eventfd_ok_def eventfd_defs split: option.splits if_splits)

lemma eventfd_ok_unsafe_read:
  "eventfd_ok ef \<Longrightarrow> ef_unsafe_counts ef > 0 \<Longrightarrow> eventfd_ok (snd (eventfd_unsafe_read ef))"
  by (auto simp: eventfd_ok_def eventfd_defs split: option.splits if_splits)

lemma eventfd_unsafe_read_returns:
  "eventfd_ok ef \<Longrightarrow> ef_closed ef \<or> ef_pipe ef \<noteq> [] \<Longrightarrow> returns (eventfd_unsafe_read ef)"
  by (auto simp: eventfd_ok_def eventfd_defs split: option.splits if_splits)

lemma eventfd_unsafe_read_counts:
  "eventfd_ok ef \<Longrightarrow> \<not> ef_closed ef \<Longrightarrow> ef_unsafe_counts ef > 0 \<Longrightarrow>
     ef_unsafe_counts (snd (eventfd_unsafe_read ef)) = 0"
  by (auto simp: eventfd_ok_def eventfd_defs split: option.splits if_splits)

lemma eventfd_ok_set: "eventfd_ok ef \<Longrightarrow> \<not> ef_closed ef \<Longrightarrow> eventfd_ok (snd (eventfd_set ef))"
  by (auto simp: eventfd_ok_def eventfd_defs replicate_append_same split: option.splits if_splits)

lemma eventfd_ok_clear: "eventfd_ok ef \<Longrightarrow> \<not> ef_closed ef \<Longrightarrow> eventfd_ok (snd (eventfd_clear ef))"
  by (auto simp: eventfd_ok_def eventfd_defs split: option.splits if_splits)

lemma eventfd_ok_close: "eventfd_ok ef \<Longrightarrow> eventfd_ok (eventfd_close ef)"
  by (auto simp: eventfd_ok_def eventfd_defs)

lemma eventfd_unsafe_frame [simp]:
  "ef_flag (snd (eventfd_unsafe_write ef)) = ef_flag ef"
  "ef_closed (snd (eventfd_unsafe_write ef)) = ef_closed ef"
  "ef_read_fd (snd (eventfd_unsafe_write ef)) = ef_read_fd ef"
  "ef_flag (snd (eventfd_unsafe_read ef)) = ef_flag ef"
  "ef_closed (snd (eventfd_unsafe_read ef)) = ef_closed ef"
  "ef_read_fd (snd (eventfd_unsafe_read ef)) = ef_read_fd ef"
  by (simp_all add: eventfd_defs split: option.splits)

section \<open>The wake-up contract\<close>

text \<open>What the event loop relies on, as an interface: \<open>notify\<close> by any thread, \<open>drain\<close> by
  the loop once the descriptor is readable.  Notifications coalesce: any number of them
  between two drains is one readable byte.\<close>

locale wakeup =
  fixes notify :: "'e \<Rightarrow> 'e"
    and drain :: "'e \<Rightarrow> 'e"
    and drains :: "'e \<Rightarrow> bool"     \<comment> \<open>draining returns\<close>
    and readable :: "'e \<Rightarrow> bool"
    and live :: "'e \<Rightarrow> bool"       \<comment> \<open>well-formed, open, used for wake-ups only\<close>
  assumes live_notify: "live e \<Longrightarrow> live (notify e)"
    and live_drain: "live e \<Longrightarrow> readable e \<Longrightarrow> live (drain e)"
    and readable_notify: "live e \<Longrightarrow> readable (notify e)"
    and notify_readable: "live e \<Longrightarrow> readable e \<Longrightarrow> notify e = e"
    and drains_readable: "live e \<Longrightarrow> readable e \<Longrightarrow> drains e"
    and drain_unreadable: "live e \<Longrightarrow> readable e \<Longrightarrow> \<not> readable (drain e)"
begin

lemma live_notifies: "live e \<Longrightarrow> live ((notify ^^ n) e)"
  by (induction n) (auto intro: live_notify)

lemma notifies_coalesce: "live e \<Longrightarrow> (notify ^^ Suc n) e = notify e"
proof (induction n)
  case 0
  then show ?case by simp
next
  case (Suc n)
  then have "(notify ^^ Suc (Suc n)) e = notify (notify e)" by simp
  with Suc.prems show ?case by (simp add: notify_readable live_notify readable_notify)
qed

lemma one_drain_suffices:
  assumes "live e"
  shows "drains ((notify ^^ Suc n) e)" "live (drain ((notify ^^ Suc n) e))"
    "\<not> readable (drain ((notify ^^ Suc n) e))"
  using assms live_notify[OF assms] readable_notify[OF assms]
  by (simp_all add: notifies_coalesce drains_readable live_drain drain_unreadable del: funpow.simps)

end

definition eventfd_live :: "eventfd \<Rightarrow> bool" where
  "eventfd_live ef \<longleftrightarrow> eventfd_ok ef \<and> \<not> ef_closed ef \<and> \<not> ef_flag ef"

definition eventfd_readable :: "eventfd \<Rightarrow> bool" where
  "eventfd_readable ef \<longleftrightarrow> ef_pipe ef \<noteq> []"

lemma eventfd_live_readable: "eventfd_live ef \<Longrightarrow> eventfd_readable ef \<longleftrightarrow> ef_unsafe_counts ef = 1"
  by (auto simp: eventfd_live_def eventfd_readable_def eventfd_ok_def)

interpretation efd: wakeup "\<lambda>ef. snd (eventfd_unsafe_write ef)" "\<lambda>ef. snd (eventfd_unsafe_read ef)"
  "\<lambda>ef. returns (eventfd_unsafe_read ef)" eventfd_readable eventfd_live
proof unfold_locales
  fix ef assume live: "eventfd_live ef"
  then have ok: "eventfd_ok ef" "\<not> ef_closed ef" by (simp_all add: eventfd_live_def)
  show live': "eventfd_live (snd (eventfd_unsafe_write ef))"
    using live by (simp add: eventfd_live_def eventfd_ok_unsafe_write)
  show "eventfd_readable (snd (eventfd_unsafe_write ef))"
    using ok by (simp add: eventfd_live_readable[OF live'] eventfd_unsafe_write_counts)
  assume readable: "eventfd_readable ef"
  with live have one: "ef_unsafe_counts ef = 1" by (simp add: eventfd_live_readable)
  show live'': "eventfd_live (snd (eventfd_unsafe_read ef))"
    using live one by (simp add: eventfd_live_def eventfd_ok_unsafe_read)
  show "snd (eventfd_unsafe_write ef) = ef"
    using one by (simp add: eventfd_unsafe_write_def)
  show "returns (eventfd_unsafe_read ef)"
    using ok readable by (simp add: eventfd_unsafe_read_returns eventfd_readable_def)
  show "\<not> eventfd_readable (snd (eventfd_unsafe_read ef))"
    using ok one by (simp add: eventfd_live_readable[OF live''] eventfd_unsafe_read_counts)
qed

end
