(* ===== verification/World.thy ===== *)
theory World
  imports SocketIO Eventfd
begin

unbundle bit_operations_syntax

text \<open>
  The state the program works on: one event loop (\<open>EventLoop\<close>), the channel objects
  bound to it (\<open>AbstractChannel\<close>, \<open>NioSocketChannel\<close>, \<open>NioServerSocketChannel\<close>), the
  chunks queued on them (\<open>Chunk\<close>), the futures they complete, and the selector.  The
  application code that the library calls back (handlers, done-callbacks, submitted
  tasks) and the operating system are the fields of an environment \<open>env\<close>.
\<close>

section \<open>Data\<close>

text \<open>\<open>Chunk\<close> of \<^verbatim>\<open>py_netty/bytebuf.py\<close>.\<close>

record chunk =
  ck_buffer :: bytes
  ck_future :: fid
  ck_close :: bool

text \<open>\<open>concurrent.futures.Future\<close>: a future is completed at most once.\<close>

datatype fval = VTrue | VChannel cid
datatype fstate = FPending | FCancelled | FResult fval | FException exn

text \<open>Futures are ordered by progress: a pending one may become anything, a completed one
  stays as it is.\<close>

instantiation fstate :: order
begin

definition less_eq_fstate :: "fstate \<Rightarrow> fstate \<Rightarrow> bool" where
  "less_eq_fstate x y \<longleftrightarrow> x = FPending \<or> x = y"

definition less_fstate :: "fstate \<Rightarrow> fstate \<Rightarrow> bool" where
  "less_fstate x y \<longleftrightarrow> x = FPending \<and> y \<noteq> FPending"

instance
  by standard (auto simp: less_eq_fstate_def less_fstate_def)

end

text \<open>The selector's event bits.\<close>

definition EVENT_READ :: int where "EVENT_READ = 1"
definition EVENT_WRITE :: int where "EVENT_WRITE = 2"

text \<open>The callbacks of \<open>AbstractChannelHandler\<close>, with their message.\<close>

datatype callback =
    ChannelRegistered
  | ChannelUnregistered
  | ChannelReadBytes bytes
  | ChannelReadSocket nat
  | ChannelActive
  | ChannelInactive
  | ChannelHandshakeComplete
  | ChannelWritabilityChanged
  | ExceptionCaught exn

text \<open>The closures that the library hands to \<open>EventLoop.submit_task\<close>, and a task of the
  application.\<close>

datatype task =
    TAddFlag cid int
  | TRemoveFlag cid int
  | TModifyFlag cid
  | TCloseForcibly cid
  | TCloseGracefully cid
  | TWrite cid bytes fid
  | TRegister cid bool
  | TUnregister cid fid
  | TUser nat

text \<open>A channel.  \<open>c_pendings\<close> is the list object the attribute \<open>_pendings\<close> refers to
  now; \<open>c_pgen\<close> is the identity of that object, and \<open>c_frozen\<close> keeps the contents of the
  objects it referred to before, which a caller may still hold.  \<open>c_wire\<close> is what the
  kernel has taken from this socket so far.\<close>

record chan =
  c_fileno0 :: fd                \<comment> \<open>\<open>_fileno\<close>\<close>
  c_sockfd :: fd                 \<comment> \<open>\<open>_socket.fileno()\<close>\<close>
  c_server :: bool               \<comment> \<open>\<open>_server_channel\<close>\<close>
  c_flag :: int                  \<comment> \<open>\<open>_flag\<close>\<close>
  c_active :: bool               \<comment> \<open>\<open>_active\<close>\<close>
  c_ever_active :: bool          \<comment> \<open>\<open>_ever_active\<close>\<close>
  c_close_future :: fid          \<comment> \<open>\<open>_close_future\<close>\<close>
  c_channel_future :: fid        \<comment> \<open>\<open>_channel_future\<close>\<close>
  c_pendings :: "chunk list"     \<comment> \<open>\<open>_pendings\<close>\<close>
  c_pgen :: nat
  c_frozen :: "nat \<Rightarrow> chunk list"
  c_pending_bytes :: int         \<comment> \<open>\<open>_pending_bytes\<close>\<close>
  c_writable :: bool             \<comment> \<open>\<open>_writable\<close>\<close>
  c_auto_read :: bool            \<comment> \<open>\<open>_auto_read\<close>\<close>
  c_ssl_required :: bool         \<comment> \<open>\<open>_ssl_handshake_required\<close>\<close>
  c_ssl_complete :: bool         \<comment> \<open>\<open>_ssl_handshake_complete\<close>\<close>
  c_connect_timeout :: int       \<comment> \<open>\<open>_connect_timeout_millis\<close>\<close>
  c_wire :: bytes

text \<open>The event loop with the objects it works on.  \<open>w_selector\<close> is the selector's map from
  descriptors to events; \<open>w_kcalls\<close> counts the calls made to the operating system, and
  \<open>w_events\<close> is the sequence of callbacks fired.\<close>

record world =
  w_channels :: "(fd, cid) dict"   \<comment> \<open>\<open>_channels\<close>\<close>
  w_due :: "(fd, int) dict"        \<comment> \<open>\<open>_connect_timeout_due_millis\<close>\<close>
  w_thread :: "tid option"         \<comment> \<open>\<open>_thread\<close>\<close>
  w_stop_polling :: bool           \<comment> \<open>\<open>_stop_polling\<close>\<close>
  w_closed :: bool                 \<comment> \<open>\<open>_closed\<close>\<close>
  w_started :: bool                \<comment> \<open>\<open>_start_barrier.is_set()\<close>\<close>
  w_eventfd :: eventfd             \<comment> \<open>\<open>_eventfd\<close>\<close>
  w_selector :: "(fd, int) dict"   \<comment> \<open>\<open>_selector\<close>\<close>
  w_selector_open :: bool
  w_taskq :: "task list"           \<comment> \<open>\<open>_taskq\<close>\<close>
  w_eventfd_reads :: int           \<comment> \<open>\<open>_eventfd_read_count\<close>\<close>
  w_accepted :: int                \<comment> \<open>\<open>_total_accepted\<close>\<close>
  w_sent :: int                    \<comment> \<open>\<open>_total_sent\<close>\<close>
  w_received :: int                \<comment> \<open>\<open>_total_received\<close>\<close>
  w_registered :: int              \<comment> \<open>\<open>_total_registered\<close>\<close>
  w_tasks_submitted :: int         \<comment> \<open>\<open>_total_tasks_submitted\<close>\<close>
  w_tasks_processed :: int         \<comment> \<open>\<open>_total_tasks_processed\<close>\<close>
  w_chans :: "cid \<Rightarrow> chan"
  w_next_cid :: cid
  w_futs :: "fid \<Rightarrow> fstate"
  w_listeners :: "fid \<Rightarrow> lid list"
  w_next_fid :: fid
  w_kcalls :: nat
  w_events :: "(cid \<times> callback) list"

section \<open>Environment\<close>

datatype handshake_res = HsOk | HsWantRead | HsWantWrite | HsError exn
datatype pool_res = PoolThread tid | PoolShutdown | PoolBusy

text \<open>The operating system and the standard library: each field answers the call with the
  given number.\<close>

record kernel =
  k_send :: "cid \<Rightarrow> nat \<Rightarrow> bytes \<Rightarrow> send_res"
  k_recv :: "cid \<Rightarrow> rkernel"
  k_accept :: "cid \<Rightarrow> nat \<Rightarrow> accept_res"
  k_so_error :: "cid \<Rightarrow> nat \<Rightarrow> int + int"     \<comment> \<open>\<open>getsockopt(SO_ERROR)\<close>: an \<open>OSError\<close> or the value\<close>
  k_handshake :: "cid \<Rightarrow> nat \<Rightarrow> handshake_res"            \<comment> \<open>\<open>do_handshake\<close>\<close>
  k_now :: "nat \<Rightarrow> int"                                   \<comment> \<open>\<open>int(time.time() * 1000)\<close>\<close>
  k_select :: "nat \<Rightarrow> int option \<Rightarrow> (fd \<times> int) list"     \<comment> \<open>\<open>selector.select(timeout)\<close>\<close>
  k_sel_register :: "nat \<Rightarrow> fd \<Rightarrow> bool"                 \<comment> \<open>the system accepts the registration\<close>
  k_sel_modify :: "nat \<Rightarrow> fd \<Rightarrow> bool"
  k_pool :: "nat \<Rightarrow> pool_res"                            \<comment> \<open>\<open>pool.submit\<close> and the start barrier\<close>
  k_getsource :: "nat \<Rightarrow> bool"                           \<comment> \<open>\<open>inspect.getsource\<close> finds the source\<close>

record env =
  e_cfg :: config
  e_kernel :: kernel
  e_handler :: "cid \<Rightarrow> callback \<Rightarrow> tid \<Rightarrow> world \<Rightarrow> unit outcome \<times> world"
  e_listener :: "lid \<Rightarrow> fid \<Rightarrow> tid \<Rightarrow> world \<Rightarrow> unit outcome \<times> world"
  e_usertask :: "nat \<Rightarrow> tid \<Rightarrow> world \<Rightarrow> unit outcome \<times> world"
  e_str :: "exn \<Rightarrow> string"         \<comment> \<open>\<open>str(e)\<close>\<close>
  e_debug :: bool                  \<comment> \<open>\<open>logger.isEnabledFor(DEBUG)\<close>\<close>
  e_debug_interval :: int          \<comment> \<open>\<open>DEBUG_INTERVAL_MILLIS\<close>\<close>

section \<open>Small updates\<close>

definition upd_chan :: "cid \<Rightarrow> (chan \<Rightarrow> chan) \<Rightarrow> world \<Rightarrow> world" where
  "upd_chan c f w = w\<lparr>w_chans := (w_chans w)(c := f (w_chans w c))\<rparr>"

definition tick :: "world \<Rightarrow> world" where
  "tick w = w\<lparr>w_kcalls := Suc (w_kcalls w)\<rparr>"

lemma upd_chan_simps [simp]:
  "w_chans (upd_chan c f w) = (w_chans w)(c := f (w_chans w c))"
  "w_channels (upd_chan c f w) = w_channels w"
  "w_due (upd_chan c f w) = w_due w"
  "w_thread (upd_chan c f w) = w_thread w"
  "w_stop_polling (upd_chan c f w) = w_stop_polling w"
  "w_closed (upd_chan c f w) = w_closed w"
  "w_started (upd_chan c f w) = w_started w"
  "w_eventfd (upd_chan c f w) = w_eventfd w"
  "w_selector (upd_chan c f w) = w_selector w"
  "w_selector_open (upd_chan c f w) = w_selector_open w"
  "w_taskq (upd_chan c f w) = w_taskq w"
  "w_sent (upd_chan c f w) = w_sent w"
  "w_next_cid (upd_chan c f w) = w_next_cid w"
  "w_futs (upd_chan c f w) = w_futs w"
  "w_listeners (upd_chan c f w) = w_listeners w"
  "w_next_fid (upd_chan c f w) = w_next_fid w"
  "w_kcalls (upd_chan c f w) = w_kcalls w"
  "w_events (upd_chan c f w) = w_events w"
  "w_eventfd_reads (upd_chan c f w) = w_eventfd_reads w"
  "w_accepted (upd_chan c f w) = w_accepted w"
  "w_received (upd_chan c f w) = w_received w"
  "w_registered (upd_chan c f w) = w_registered w"
  "w_tasks_submitted (upd_chan c f w) = w_tasks_submitted w"
  "w_tasks_processed (upd_chan c f w) = w_tasks_processed w"
  by (simp_all add: upd_chan_def)

lemma upd_chan_id [simp]: "upd_chan c (\<lambda>ch. ch) w = w"
  by (simp add: upd_chan_def)

text \<open>Changes of a channel are moved outside changes of the loop's own fields.\<close>

lemma upd_chan_push [simp]:
  "(upd_chan c f w)\<lparr>w_channels := v0\<rparr> = upd_chan c f (w\<lparr>w_channels := v0\<rparr>)"
  "(upd_chan c f w)\<lparr>w_due := v1\<rparr> = upd_chan c f (w\<lparr>w_due := v1\<rparr>)"
  "(upd_chan c f w)\<lparr>w_thread := v2\<rparr> = upd_chan c f (w\<lparr>w_thread := v2\<rparr>)"
  "(upd_chan c f w)\<lparr>w_stop_polling := v3\<rparr> = upd_chan c f (w\<lparr>w_stop_polling := v3\<rparr>)"
  "(upd_chan c f w)\<lparr>w_closed := v4\<rparr> = upd_chan c f (w\<lparr>w_closed := v4\<rparr>)"
  "(upd_chan c f w)\<lparr>w_started := v5\<rparr> = upd_chan c f (w\<lparr>w_started := v5\<rparr>)"
  "(upd_chan c f w)\<lparr>w_eventfd := v6\<rparr> = upd_chan c f (w\<lparr>w_eventfd := v6\<rparr>)"
  "(upd_chan c f w)\<lparr>w_selector := v7\<rparr> = upd_chan c f (w\<lparr>w_selector := v7\<rparr>)"
  "(upd_chan c f w)\<lparr>w_selector_open := v8\<rparr> = upd_chan c f (w\<lparr>w_selector_open := v8\<rparr>)"
  "(upd_chan c f w)\<lparr>w_taskq := v9\<rparr> = upd_chan c f (w\<lparr>w_taskq := v9\<rparr>)"
  "(upd_chan c f w)\<lparr>w_sent := v10\<rparr> = upd_chan c f (w\<lparr>w_sent := v10\<rparr>)"
  "(upd_chan c f w)\<lparr>w_received := v11\<rparr> = upd_chan c f (w\<lparr>w_received := v11\<rparr>)"
  "(upd_chan c f w)\<lparr>w_registered := v12\<rparr> = upd_chan c f (w\<lparr>w_registered := v12\<rparr>)"
  "(upd_chan c f w)\<lparr>w_accepted := v13\<rparr> = upd_chan c f (w\<lparr>w_accepted := v13\<rparr>)"
  "(upd_chan c f w)\<lparr>w_tasks_submitted := v14\<rparr> = upd_chan c f (w\<lparr>w_tasks_submitted := v14\<rparr>)"
  "(upd_chan c f w)\<lparr>w_next_cid := v15\<rparr> = upd_chan c f (w\<lparr>w_next_cid := v15\<rparr>)"
  "(upd_chan c f w)\<lparr>w_futs := v16\<rparr> = upd_chan c f (w\<lparr>w_futs := v16\<rparr>)"
  "(upd_chan c f w)\<lparr>w_listeners := v17\<rparr> = upd_chan c f (w\<lparr>w_listeners := v17\<rparr>)"
  "(upd_chan c f w)\<lparr>w_next_fid := v18\<rparr> = upd_chan c f (w\<lparr>w_next_fid := v18\<rparr>)"
  "(upd_chan c f w)\<lparr>w_kcalls := v19\<rparr> = upd_chan c f (w\<lparr>w_kcalls := v19\<rparr>)"
  "(upd_chan c f w)\<lparr>w_events := v20\<rparr> = upd_chan c f (w\<lparr>w_events := v20\<rparr>)"
  by (cases w, simp add: upd_chan_def)+

lemma tick_simps [simp]:
  "w_chans (tick w) = w_chans w"
  "w_channels (tick w) = w_channels w"
  "w_due (tick w) = w_due w"
  "w_thread (tick w) = w_thread w"
  "w_stop_polling (tick w) = w_stop_polling w"
  "w_closed (tick w) = w_closed w"
  "w_started (tick w) = w_started w"
  "w_eventfd (tick w) = w_eventfd w"
  "w_selector (tick w) = w_selector w"
  "w_selector_open (tick w) = w_selector_open w"
  "w_taskq (tick w) = w_taskq w"
  "w_sent (tick w) = w_sent w"
  "w_next_cid (tick w) = w_next_cid w"
  "w_futs (tick w) = w_futs w"
  "w_listeners (tick w) = w_listeners w"
  "w_next_fid (tick w) = w_next_fid w"
  "w_kcalls (tick w) = Suc (w_kcalls w)"
  "w_events (tick w) = w_events w"
  "w_eventfd_reads (tick w) = w_eventfd_reads w"
  "w_accepted (tick w) = w_accepted w"
  "w_received (tick w) = w_received w"
  "w_registered (tick w) = w_registered w"
  "w_tasks_submitted (tick w) = w_tasks_submitted w"
  "w_tasks_processed (tick w) = w_tasks_processed w"
  by (simp_all add: tick_def)

text \<open>The chunk list held by a caller that read \<open>_pendings\<close> when its identity was \<open>g\<close>.\<close>

definition read_list :: "chan \<Rightarrow> nat \<Rightarrow> chunk list" where
  "read_list ch g = (if g = c_pgen ch then c_pendings ch else c_frozen ch g)"

text \<open>The attribute is made to refer to a list object of its own with the given contents.\<close>

definition replace_pendings :: "chunk list \<Rightarrow> chan \<Rightarrow> chan" where
  "replace_pendings cks ch = ch\<lparr>c_pendings := cks, c_pgen := Suc (c_pgen ch),
     c_frozen := (c_frozen ch)(c_pgen ch := c_pendings ch)\<rparr>"

section \<open>Futures\<close>

definition fut_done :: "world \<Rightarrow> fid \<Rightarrow> bool" where
  "fut_done w f \<longleftrightarrow> w_futs w f \<noteq> FPending"

definition new_future :: "world \<Rightarrow> fid \<times> world" where
  "new_future w = (w_next_fid w, w\<lparr>w_next_fid := Suc (w_next_fid w),
     w_futs := (w_futs w)(w_next_fid w := FPending),
     w_listeners := (w_listeners w)(w_next_fid w := [])\<rparr>)"

text \<open>Completing a future runs its done-callbacks in the completing thread, in the order
  they were added; an exception in one of them is logged and dropped.\<close>

fun run_callbacks :: "env \<Rightarrow> lid list \<Rightarrow> fid \<Rightarrow> tid \<Rightarrow> world \<Rightarrow> unit outcome \<times> world" where
  "run_callbacks E [] f th w = (Ret (), w)"
| "run_callbacks E (l # ls) f th w =
     andThen (handling (e_listener E l f th w) (\<lambda>_ w. (Ret (), w))) (\<lambda>_ w.
       run_callbacks E ls f th w)"

definition fut_complete :: "env \<Rightarrow> fid \<Rightarrow> fstate \<Rightarrow> tid \<Rightarrow> world \<Rightarrow> unit outcome \<times> world" where
  "fut_complete E f st th w =
     (if fut_done w f then (Raise InvalidStateError, w)
      else run_callbacks E (w_listeners w f) f th (w\<lparr>w_futs := (w_futs w)(f := st)\<rparr>))"

definition fut_set_result :: "env \<Rightarrow> fid \<Rightarrow> fval \<Rightarrow> tid \<Rightarrow> world \<Rightarrow> unit outcome \<times> world" where
  "fut_set_result E f v th w = fut_complete E f (FResult v) th w"

definition fut_set_exception :: "env \<Rightarrow> fid \<Rightarrow> exn \<Rightarrow> tid \<Rightarrow> world \<Rightarrow> unit outcome \<times> world" where
  "fut_set_exception E f e th w = fut_complete E f (FException e) th w"

text \<open>\<open>Future.cancel\<close>: what the application may do to a future it holds.\<close>

definition fut_cancel :: "env \<Rightarrow> fid \<Rightarrow> tid \<Rightarrow> world \<Rightarrow> unit outcome \<times> world" where
  "fut_cancel E f th w =
     (if fut_done w f then (Ret (), w) else fut_complete E f FCancelled th w)"

text \<open>\<open>ChannelFuture.set\<close>, \<open>set_exception\<close> and \<open>add_listener\<close>: the future object alone
  identifies a \<open>ChannelFuture\<close> here, its channel being the receiver of the call.\<close>

definition cf_set :: "env \<Rightarrow> fid \<Rightarrow> cid \<Rightarrow> tid \<Rightarrow> world \<Rightarrow> unit outcome \<times> world" where
  "cf_set E f c th w = (if fut_done w f then (Ret (), w) else fut_set_result E f (VChannel c) th w)"

definition cf_set_exception :: "env \<Rightarrow> fid \<Rightarrow> exn \<Rightarrow> tid \<Rightarrow> world \<Rightarrow> unit outcome \<times> world" where
  "cf_set_exception E f e th w = (if fut_done w f then (Ret (), w) else fut_set_exception E f e th w)"

definition cf_add_listener :: "env \<Rightarrow> fid \<Rightarrow> lid \<Rightarrow> tid \<Rightarrow> world \<Rightarrow> unit outcome \<times> world" where
  "cf_add_listener E f l th w =
     (if fut_done w f then run_callbacks E [l] f th w
      else (Ret (), w\<lparr>w_listeners := (w_listeners w)(f := w_listeners w f @ [l])\<rparr>))"

definition new_chunk :: "bytes \<Rightarrow> fid option \<Rightarrow> bool \<Rightarrow> world \<Rightarrow> chunk \<times> world" where
  "new_chunk buf future close w =
     (case future of
        Some f \<Rightarrow> (\<lparr>ck_buffer = buf, ck_future = f, ck_close = close\<rparr>, w)
      | None \<Rightarrow> (let (f, w) = new_future w in
                 (\<lparr>ck_buffer = buf, ck_future = f, ck_close = close\<rparr>, w)))"

section \<open>The selector\<close>

text \<open>\<open>selectors.BaseSelector\<close> on the map of registered descriptors, with the exceptions of
  its operations.  A registration or change the system refuses leaves the descriptor
  unregistered.\<close>

definition sel_register :: "env \<Rightarrow> fd \<Rightarrow> int \<Rightarrow> world \<Rightarrow> unit outcome \<times> world" where
  "sel_register E fd ev w =
     (if ev = 0 \<or> ev AND NOT (EVENT_READ OR EVENT_WRITE) \<noteq> 0 then (Raise ValueError, w)
      else if fd < 0 then (Raise ValueError, w)
      else if fd \<in> dict_keys (w_selector w) then (Raise KeyError, w)
      else if \<not> w_selector_open w then (Raise ValueError, w)
      else if k_sel_register (e_kernel E) (w_kcalls w) fd
      then (Ret (), (tick w)\<lparr>w_selector := dict_set fd ev (w_selector w)\<rparr>)
      else (Raise (OSError 9), tick w))"

definition sel_unregister :: "fd \<Rightarrow> world \<Rightarrow> unit outcome \<times> world" where
  "sel_unregister fd w =
     (if fd \<in> dict_keys (w_selector w) then (Ret (), w\<lparr>w_selector := dict_pop fd (w_selector w)\<rparr>)
      else (Raise KeyError, w))"

definition sel_modify :: "env \<Rightarrow> fd \<Rightarrow> int \<Rightarrow> world \<Rightarrow> unit outcome \<times> world" where
  "sel_modify E fd ev w =
     (case dict_get (w_selector w) fd of
        None \<Rightarrow> (Raise KeyError, w)
      | Some ev0 \<Rightarrow>
          if ev = ev0 then (Ret (), w)
          else if k_sel_modify (e_kernel E) (w_kcalls w) fd
          then (Ret (), (tick w)\<lparr>w_selector := dict_set fd ev (w_selector w)\<rparr>)
          else (Raise (OSError 9), (tick w)\<lparr>w_selector := dict_pop fd (w_selector w)\<rparr>))"

definition sel_get_key :: "fd \<Rightarrow> world \<Rightarrow> int outcome \<times> world" where
  "sel_get_key fd w =
     (if \<not> w_selector_open w then (Raise (RuntimeError ''Selector is closed''), w)
      else case dict_get (w_selector w) fd of
        None \<Rightarrow> (Raise KeyError, w)
      | Some ev \<Rightarrow> (Ret ev, w))"

definition sel_close :: "world \<Rightarrow> world" where
  "sel_close w = w\<lparr>w_selector := [], w_selector_open := False\<rparr>"

end
