(* ===== verification/LoopCore.thy ===== *)
theory LoopCore
  imports World
begin

text \<open>
  The methods of \<open>EventLoop\<close> that channels call and that do not call channels back:
  \<open>in_eventloop\<close>, \<open>start\<close>, \<open>interrupt\<close>, \<open>submit_task\<close> and \<open>modify_flag\<close>.  Every method that
  may be called from any thread takes the calling thread.
\<close>

definition in_eventloop :: "tid \<Rightarrow> world \<Rightarrow> bool" where
  "in_eventloop th w \<longleftrightarrow> w_thread w = Some th"

text \<open>\<open>start\<close> refuses a loop that is stopping; otherwise it makes sure that the loop runs in
  a thread of the pool, waiting until that thread has set \<open>_thread\<close> and the barrier.  A
  pool with no free worker makes it wait for ever.\<close>

definition start :: "env \<Rightarrow> world \<Rightarrow> unit outcome \<times> world" where
  "start E w =
     (if w_stop_polling w \<or> w_closed w then (Raise (RuntimeError ''event loop is stopping''), w)
      else if w_started w then (Ret (), w)
      else case k_pool (e_kernel E) (w_kcalls w) of
          PoolThread t \<Rightarrow> (Ret (), (tick w)\<lparr>w_thread := Some t, w_started := True\<rparr>)
        | PoolShutdown \<Rightarrow>
            (Raise (RuntimeError ''cannot schedule new futures after shutdown''), tick w)
        | PoolBusy \<Rightarrow> (Diverge, tick w))"

definition interrupt :: "world \<Rightarrow> unit outcome \<times> world" where
  "interrupt w =
     (let (r, ef) = eventfd_unsafe_write (w_eventfd w) in
      handling (r, w\<lparr>w_eventfd := ef\<rparr>) (\<lambda>_ w. (Ret (), w)))"

definition submit_task :: "env \<Rightarrow> task \<Rightarrow> world \<Rightarrow> unit outcome \<times> world" where
  "submit_task E t w =
     (if w_stop_polling w \<or> w_closed w then (Raise (RuntimeError ''event loop is stopping''), w)
      else andThen (start E w) (\<lambda>_ w.
        interrupt (w\<lparr>w_taskq := w_taskq w @ [t], w_tasks_submitted := w_tasks_submitted w + 1\<rparr>)))"

definition modify_flag :: "env \<Rightarrow> tid \<Rightarrow> cid \<Rightarrow> world \<Rightarrow> unit outcome \<times> world" where
  "modify_flag E th c w =
     (if \<not> in_eventloop th w then submit_task E (TModifyFlag c) w
      else
        let fileno = c_fileno0 (w_chans w c); flag = c_flag (w_chans w c) in
        if flag = 0 then sel_unregister fileno w
        else case fst (sel_get_key fileno w) of
            Raise KeyError \<Rightarrow>
              (if c_sockfd (w_chans w c) = -1 then (Ret (), w)
               else sel_register E (c_sockfd (w_chans w c)) flag w)
          | Raise e \<Rightarrow> (Raise e, w)
          | Diverge \<Rightarrow> (Diverge, w)
          | Ret events \<Rightarrow>
              (if events = flag then (Ret (), w) else sel_modify E fileno flag w))"

section \<open>What these operations do\<close>

lemma interrupt_eq:
  "interrupt w = (Ret (), w\<lparr>w_eventfd := snd (eventfd_unsafe_write (w_eventfd w))\<rparr>)"
  by (auto simp: interrupt_def eventfd_unsafe_write_def eventfd_write_def
      split: prod.splits option.splits if_splits)

lemma start_running [simp]:
  "w_started w \<Longrightarrow> \<not> w_stop_polling w \<Longrightarrow> \<not> w_closed w \<Longrightarrow> start E w = (Ret (), w)"
  by (simp add: start_def)

lemma submit_task_running:
  assumes "w_started w" "\<not> w_stop_polling w" "\<not> w_closed w"
  shows "submit_task E t w = (Ret (), w\<lparr>w_taskq := w_taskq w @ [t],
     w_tasks_submitted := w_tasks_submitted w + 1,
     w_eventfd := snd (eventfd_unsafe_write (w_eventfd w))\<rparr>)"
  using assms by (simp add: submit_task_def interrupt_eq)

lemma submit_task_stopping:
  "w_stop_polling w \<or> w_closed w \<Longrightarrow>
     submit_task E t w = (Raise (RuntimeError ''event loop is stopping''), w)"
  by (auto simp: submit_task_def)

end
