(* ===== verification/Channel.thy ===== *)
theory Channel
  imports LoopCore
begin

text \<open>
  \<^verbatim>\<open>py_netty/channel.py\<close>: the channel's own methods (interest flags, activity, the pending
  queue, writability, \<open>write\<close>, \<open>try_send\<close>) and the \<open>fire_*\<close> methods of its
  \<open>ChannelHandlerContext\<close>.  The closing methods call the event loop back and are in
  \<^verbatim>\<open>EventLoop.thy\<close>.
\<close>

section \<open>Construction\<close>

definition base_channel :: "fd \<Rightarrow> fid \<Rightarrow> fid \<Rightarrow> chan" where
  "base_channel fileno close_future channel_future =
     \<lparr>c_fileno0 = fileno, c_sockfd = fileno, c_server = False, c_flag = 0, c_active = False,
      c_ever_active = False, c_close_future = close_future, c_channel_future = channel_future,
      c_pendings = [], c_pgen = 0, c_frozen = (\<lambda>_. []), c_pending_bytes = 0, c_writable = True,
      c_auto_read = True, c_ssl_required = False, c_ssl_complete = True,
      c_connect_timeout = 3000, c_wire = []\<rparr>"

definition new_abstract_channel :: "fd \<Rightarrow> world \<Rightarrow> cid outcome \<times> world" where
  "new_abstract_channel fileno w =
     (if \<not> fileno > 0 then (Raise AssertionError, w)
      else
        let (close_future, w) = new_future w; (channel_future, w) = new_future w; c = w_next_cid w in
        (Ret c, w\<lparr>w_chans := (w_chans w)(c := base_channel fileno close_future channel_future),
                 w_next_cid := Suc c\<rparr>))"

definition new_socket_channel :: "fd \<Rightarrow> bool \<Rightarrow> int \<Rightarrow> bool \<Rightarrow> world \<Rightarrow> cid outcome \<times> world" where
  "new_socket_channel fileno is_ssl_socket connect_timeout_millis ssl_handshake w =
     andThen (new_abstract_channel fileno w) (\<lambda>c w.
       let required = ssl_handshake \<and> is_ssl_socket in
       (Ret c, upd_chan c (\<lambda>ch. ch\<lparr>c_ssl_required := required, c_ssl_complete := \<not> required,
          c_connect_timeout := connect_timeout_millis\<rparr>) w))"

definition new_server_channel :: "fd \<Rightarrow> world \<Rightarrow> cid outcome \<times> world" where
  "new_server_channel fileno w =
     andThen (new_abstract_channel fileno w) (\<lambda>c w.
       (Ret c, upd_chan c (\<lambda>ch. ch\<lparr>c_server := True\<rparr>) w))"

section \<open>Callbacks\<close>

definition fired :: "cid \<Rightarrow> callback \<Rightarrow> world \<Rightarrow> world" where
  "fired c cb w = w\<lparr>w_events := w_events w @ [(c, cb)]\<rparr>"

definition fire_exception_caught :: "env \<Rightarrow> tid \<Rightarrow> cid \<Rightarrow> exn \<Rightarrow> world \<Rightarrow> unit outcome \<times> world" where
  "fire_exception_caught E th c exception w =
     handling (e_handler E c (ExceptionCaught exception) th (fired c (ExceptionCaught exception) w))
       (\<lambda>_ w. (Ret (), w))"

text \<open>Every other \<open>fire_*\<close> method: the handler's method under \<open>_catch_exception\<close>.\<close>

definition fire :: "env \<Rightarrow> tid \<Rightarrow> cid \<Rightarrow> callback \<Rightarrow> world \<Rightarrow> unit outcome \<times> world" where
  "fire E th c cb w =
     handling (e_handler E c cb th (fired c cb w)) (\<lambda>e w. fire_exception_caught E th c e w)"

section \<open>State queries\<close>

definition is_active :: "cid \<Rightarrow> world \<Rightarrow> bool" where
  "is_active c w = (if fut_done w (c_close_future (w_chans w c)) then False else c_active (w_chans w c))"

definition has_pendings :: "cid \<Rightarrow> world \<Rightarrow> bool" where
  "has_pendings c w \<longleftrightarrow> length (c_pendings (w_chans w c)) > 0"

definition needs_ssl_handshake :: "cid \<Rightarrow> world \<Rightarrow> bool" where
  "needs_ssl_handshake c w \<longleftrightarrow> c_ssl_required (w_chans w c) \<and> \<not> c_ssl_complete (w_chans w c)"

section \<open>Interest flags\<close>

definition add_flag :: "env \<Rightarrow> tid \<Rightarrow> cid \<Rightarrow> int \<Rightarrow> world \<Rightarrow> unit outcome \<times> world" where
  "add_flag E th c flag w =
     (if \<not> in_eventloop th w then submit_task E (TAddFlag c flag) w
      else if c_flag (w_chans w c) AND flag \<noteq> 0 then (Ret (), w)
      else handling (modify_flag E th c (upd_chan c (\<lambda>ch. ch\<lparr>c_flag := c_flag ch OR flag\<rparr>) w))
             (\<lambda>_ w. (Ret (), w)))"

definition remove_flag :: "env \<Rightarrow> tid \<Rightarrow> cid \<Rightarrow> int \<Rightarrow> world \<Rightarrow> unit outcome \<times> world" where
  "remove_flag E th c flag w =
     (if \<not> in_eventloop th w then submit_task E (TRemoveFlag c flag) w
      else if c_flag (w_chans w c) AND flag = 0 then (Ret (), w)
      else handling (modify_flag E th c (upd_chan c (\<lambda>ch. ch\<lparr>c_flag := c_flag ch AND NOT flag\<rparr>) w))
             (\<lambda>_ w. (Ret (), w)))"

section \<open>Activity\<close>

text \<open>\<open>set_active\<close> runs under the \<open>@log\<close> decorator, which drops exceptions.\<close>

definition set_active :: "env \<Rightarrow> tid \<Rightarrow> cid \<Rightarrow> bool \<Rightarrow> world \<Rightarrow> unit outcome \<times> world" where
  "set_active E th c active w =
     handling
       (let origin = c_active (w_chans w c);
            w = upd_chan c (\<lambda>ch. ch\<lparr>c_active := active\<rparr>) w in
        andThen (if origin \<and> \<not> active then fire E th c ChannelInactive w else (Ret (), w)) (\<lambda>_ w.
          if \<not> origin \<and> active
          then fire E th c ChannelActive (upd_chan c (\<lambda>ch. ch\<lparr>c_ever_active := True\<rparr>) w)
          else (Ret (), w)))
       (\<lambda>_ w. (Ret (), w))"

section \<open>Writability\<close>

definition check_writability :: "env \<Rightarrow> tid \<Rightarrow> cid \<Rightarrow> world \<Rightarrow> unit outcome \<times> world" where
  "check_writability E th c w =
     (let ch = w_chans w c;
          writable = (if c_pending_bytes ch \<ge> cfg_high (e_cfg E) then False
                      else if c_pending_bytes ch \<le> cfg_low (e_cfg E) then True
                      else c_writable ch) in
      if c_writable ch \<noteq> writable
      then fire E th c ChannelWritabilityChanged (upd_chan c (\<lambda>ch. ch\<lparr>c_writable := writable\<rparr>) w)
      else (Ret (), w))"

section \<open>The pending queue\<close>

text \<open>A local variable that holds a list of chunks: the object \<open>_pendings\<close> referred to when
  its identity was \<open>g\<close>, or a list of the caller's own.\<close>

datatype chunks_var = Shared nat | Own "chunk list"

definition chunks_val :: "cid \<Rightarrow> chunks_var \<Rightarrow> world \<Rightarrow> chunk list" where
  "chunks_val c v w = (case v of Shared g \<Rightarrow> read_list (w_chans w c) g | Own cks \<Rightarrow> cks)"

definition set_pendings :: "cid \<Rightarrow> chunks_var \<Rightarrow> world \<Rightarrow> world" where
  "set_pendings c v w = upd_chan c (\<lambda>ch. case v of
       Shared g \<Rightarrow> if g = c_pgen ch then ch else replace_pendings (c_frozen ch g) ch
     | Own cks \<Rightarrow> replace_pendings cks ch) w"

text \<open>The loop of \<open>fail_pendings\<close> runs over the list object itself, which a done-callback
  may extend meanwhile.\<close>

partial_function (option) fail_loop ::
    "env \<Rightarrow> tid \<Rightarrow> cid \<Rightarrow> exn \<Rightarrow> nat \<Rightarrow> nat \<Rightarrow> world \<Rightarrow> (unit outcome \<times> world) option" where
  "fail_loop E th c exception g i w =
     (if i < length (read_list (w_chans w c) g) then
        (if ck_close (read_list (w_chans w c) g ! i)
            \<and> ck_future (read_list (w_chans w c) g ! i) = c_close_future (w_chans w c)
         then fail_loop E th c exception g (Suc i) w
         else if \<not> fut_done w (ck_future (read_list (w_chans w c) g ! i))
         then (case fut_set_exception E (ck_future (read_list (w_chans w c) g ! i)) exception th w of
                 (r, w') \<Rightarrow> (case r of
                     Ret _ \<Rightarrow> fail_loop E th c exception g (Suc i) w'
                   | Raise e \<Rightarrow> Some (Raise e, w')
                   | Diverge \<Rightarrow> Some (Diverge, w')))
         else fail_loop E th c exception g (Suc i) w)
      else Some (Ret (), w))"

declare fail_loop.simps [code]

definition fail_pendings :: "env \<Rightarrow> tid \<Rightarrow> cid \<Rightarrow> exn \<Rightarrow> world \<Rightarrow> unit outcome \<times> world" where
  "fail_pendings E th c exception w =
     (case fail_loop E th c exception (c_pgen (w_chans w c)) 0 w of
        None \<Rightarrow> (Diverge, w)
      | Some r \<Rightarrow> andThen r (\<lambda>_ w.
          check_writability E th c
            (upd_chan c (\<lambda>ch. (replace_pendings [] ch)\<lparr>c_pending_bytes := 0\<rparr>) w)))"

definition add_pending :: "env \<Rightarrow> tid \<Rightarrow> cid \<Rightarrow> chunk option \<Rightarrow> world \<Rightarrow> unit outcome \<times> world" where
  "add_pending E th c chunk w =
     (case chunk of
        None \<Rightarrow> (Ret (), w)
      | Some ck \<Rightarrow>
          if \<not> ck_close ck \<and> ck_buffer ck = [] then (Ret (), w)
          else add_flag E th c EVENT_WRITE
                 (upd_chan c (\<lambda>ch. ch\<lparr>c_pendings := c_pendings ch @ [ck],
                    c_pending_bytes := c_pending_bytes ch + int (length (ck_buffer ck))\<rparr>) w))"

definition set_auto_read :: "env \<Rightarrow> tid \<Rightarrow> cid \<Rightarrow> bool \<Rightarrow> world \<Rightarrow> unit outcome \<times> world" where
  "set_auto_read E th c auto_read w =
     (if c_auto_read (w_chans w c) = auto_read then (Ret (), w)
      else
        let w = upd_chan c (\<lambda>ch. ch\<lparr>c_auto_read := auto_read\<rparr>) w in
        if auto_read then add_flag E th c EVENT_READ w else remove_flag E th c EVENT_READ w)"

section \<open>Writing\<close>

definition sock_send :: "env \<Rightarrow> cid \<Rightarrow> world \<Rightarrow> nat \<Rightarrow> bytes \<Rightarrow> send_res" where
  "sock_send E c w = (if c_sockfd (w_chans w c) < 0 then (\<lambda>_ _. SendError) else k_send (e_kernel E) c)"

definition try_send :: "env \<Rightarrow> cid \<Rightarrow> bytes \<Rightarrow> world \<Rightarrow> bytes outcome \<times> world" where
  "try_send E c bytebuf w =
     (case try_send_bytes (sock_send E c w) bytebuf 1 (w_kcalls w) of
        None \<Rightarrow> (Diverge, w)
      | Some (remaining, k) \<Rightarrow>
          (Ret remaining, upd_chan c (\<lambda>ch. ch\<lparr>c_wire :=
             c_wire ch @ take (length bytebuf - length remaining) bytebuf\<rparr>) (w\<lparr>w_kcalls := k\<rparr>)))"

definition channel_write :: "env \<Rightarrow> tid \<Rightarrow> cid \<Rightarrow> bytes \<Rightarrow> fid option \<Rightarrow> world \<Rightarrow> fid outcome \<times> world" where
  "channel_write E th c buffer channel_future w =
     (let (cf, w) = (case channel_future of Some f \<Rightarrow> (f, w) | None \<Rightarrow> new_future w) in
      if \<not> in_eventloop th w
      then andThen (submit_task E (TWrite c buffer cf) w) (\<lambda>_ w. (Ret cf, w))
      else if is_active c w \<and> \<not> has_pendings c w
      then andThen (try_send E c buffer w) (\<lambda>remaining w.
             if remaining = []
             then andThen (fut_set_result E cf VTrue th w) (\<lambda>_ w. (Ret cf, w))
             else andThen (add_pending E th c
                    (Some \<lparr>ck_buffer = remaining, ck_future = cf, ck_close = False\<rparr>) w) (\<lambda>_ w. (Ret cf, w)))
      else andThen (add_pending E th c
             (Some \<lparr>ck_buffer = buffer, ck_future = cf, ck_close = False\<rparr>) w) (\<lambda>_ w. (Ret cf, w)))"

text \<open>\<open>ChannelHandlerContext.write\<close>: a server channel has no \<open>write\<close>.\<close>

definition ctx_write :: "env \<Rightarrow> tid \<Rightarrow> cid \<Rightarrow> bytes \<Rightarrow> world \<Rightarrow> fid outcome \<times> world" where
  "ctx_write E th c bytebuf w =
     (if c_server (w_chans w c) then (Raise AttributeError, w)
      else channel_write E th c bytebuf None w)"

section \<open>Reading and accepting\<close>

definition closed_rkernel :: rkernel where
  "closed_rkernel = \<lparr>rk_recv = (\<lambda>_ _. RecvError (Some 9)), rk_peek = (\<lambda>_. RecvError (Some 9)),
     rk_perf = (\<lambda>_. 0)\<rparr>"

definition channel_recvall :: "env \<Rightarrow> cid \<Rightarrow> world \<Rightarrow> (bytes \<times> bool) outcome \<times> world" where
  "channel_recvall E c w =
     (let K = (if c_sockfd (w_chans w c) < 0 then closed_rkernel else k_recv (e_kernel E) c) in
      case recvall (e_cfg E) K (w_kcalls w) of
        None \<Rightarrow> (Diverge, w)
      | Some (buffer, eof, k) \<Rightarrow> (Ret (buffer, eof), w\<lparr>w_kcalls := k\<rparr>))"

definition channel_acceptall :: "env \<Rightarrow> cid \<Rightarrow> world \<Rightarrow> nat list outcome \<times> world" where
  "channel_acceptall E c w =
     (let accept = (if c_sockfd (w_chans w c) < 0 then (\<lambda>_. AcceptError) else k_accept (e_kernel E) c) in
      case acceptall accept (w_kcalls w) of
        None \<Rightarrow> (Diverge, w)
      | Some (result, k) \<Rightarrow> (Ret result, w\<lparr>w_kcalls := k\<rparr>))"

end
