(* ===== verification/EventLoop.thy ===== *)
theory EventLoop
  imports Channel
begin

text \<open>
  \<^verbatim>\<open>py_netty/eventloop.py\<close>: registering and closing channels, sending what is pending,
  activation and TLS handshakes, connect timeouts, the task queue, and the iteration of
  \<open>_start\<close>; with the closing methods of \<open>AbstractChannel\<close>, which need them.
\<close>

section \<open>A new event loop\<close>

text \<open>\<open>EventLoop.__init__\<close>, with the two descriptors the system hands out for the event
  descriptor; no channel or future object exists yet.\<close>

definition eventloop_init :: "bool \<Rightarrow> fd \<Rightarrow> fd \<Rightarrow> world" where
  "eventloop_init posix r wr =
     \<lparr>w_channels = [], w_due = [], w_thread = None, w_stop_polling = False, w_closed = False,
      w_started = False, w_eventfd = eventfd_new posix r wr, w_selector = [(r, EVENT_READ)],
      w_selector_open = True, w_taskq = [], w_eventfd_reads = 0, w_accepted = 0, w_sent = 0,
      w_received = 0, w_registered = 0, w_tasks_submitted = 0, w_tasks_processed = 0,
      w_chans = (\<lambda>_. base_channel 0 0 0), w_next_cid = 0, w_futs = (\<lambda>_. FPending),
      w_listeners = (\<lambda>_. []), w_next_fid = 0, w_kcalls = 0, w_events = []\<rparr>"

section \<open>Unregistering and closing\<close>

definition unregister :: "env \<Rightarrow> tid \<Rightarrow> cid \<Rightarrow> fid option \<Rightarrow> world \<Rightarrow> fid outcome \<times> world" where
  "unregister E th c channel_future w =
     (let (cf, w) = (case channel_future of Some f \<Rightarrow> (f, w) | None \<Rightarrow> new_future w) in
      if \<not> in_eventloop th w
      then andThen (submit_task E (TUnregister c cf) w) (\<lambda>_ w. (Ret cf, w))
      else
        let fileno = c_fileno0 (w_chans w c) in
        andThen (handling (andThen (sel_unregister fileno w) (\<lambda>_ w. fire E th c ChannelUnregistered w))
                  (\<lambda>_ w. (Ret (), w))) (\<lambda>_ w.
        andThen (cf_set E cf c th (w\<lparr>w_channels := dict_pop fileno (w_channels w),
                                    w_due := dict_pop fileno (w_due w)\<rparr>)) (\<lambda>_ w.
        (Ret cf, w))))"

definition fail_channel_work :: "env \<Rightarrow> tid \<Rightarrow> cid \<Rightarrow> exn \<Rightarrow> world \<Rightarrow> unit outcome \<times> world" where
  "fail_channel_work E th c exception w =
     (let channel_future = c_channel_future (w_chans w c) in
      andThen (if \<not> fut_done w channel_future then cf_set_exception E channel_future exception th w
               else (Ret (), w)) (\<lambda>_ w.
      if c_server (w_chans w c) then (Ret (), w) else fail_pendings E th c exception w))"

definition channel_closed_exn :: "string \<Rightarrow> exn" where
  "channel_closed_exn reason =
     RuntimeError (''channel closed: '' @ (if reason = [] then ''unknown reason'' else reason))"

text \<open>\<open>socket.close()\<close>: the descriptor is gone even when the system reports an error.\<close>

definition sock_close :: "cid \<Rightarrow> world \<Rightarrow> world" where
  "sock_close c w = upd_chan c (\<lambda>ch. ch\<lparr>c_sockfd := -1\<rparr>) w"

definition close_channel_internally ::
    "env \<Rightarrow> tid \<Rightarrow> cid \<Rightarrow> string \<Rightarrow> exn option \<Rightarrow> world \<Rightarrow> unit outcome \<times> world" where
  "close_channel_internally E th c reason exception w =
     (if \<not> in_eventloop th w then (Raise AssertionError, w)
      else
        let exception = (case exception of Some e \<Rightarrow> e | None \<Rightarrow> channel_closed_exn reason) in
        andThen (fail_channel_work E th c exception w) (\<lambda>_ w.
        andThen (cf_set E (c_close_future (w_chans w c)) c th (sock_close c w)) (\<lambda>_ w.
        andThen (set_active E th c False w) (\<lambda>_ w.
        andThen (unregister E th c None w) (\<lambda>_ w.
        (Ret (), w\<lparr>w_channels := dict_pop (c_fileno0 (w_chans w c)) (w_channels w),
                  w_due := dict_pop (c_fileno0 (w_chans w c)) (w_due w)\<rparr>))))))"

definition close_forcibly :: "env \<Rightarrow> tid \<Rightarrow> cid \<Rightarrow> world \<Rightarrow> fid outcome \<times> world" where
  "close_forcibly E th c w =
     (let close_future = c_close_future (w_chans w c) in
      if \<not> in_eventloop th w
      then andThen (submit_task E (TCloseForcibly c) w) (\<lambda>_ w. (Ret close_future, w))
      else andThen (close_channel_internally E th c ''close channel forcibly'' None w) (\<lambda>_ w.
             (Ret close_future, w)))"

definition close_gracefully :: "env \<Rightarrow> tid \<Rightarrow> cid \<Rightarrow> world \<Rightarrow> fid outcome \<times> world" where
  "close_gracefully E th c w =
     (let close_future = c_close_future (w_chans w c) in
      if \<not> in_eventloop th w
      then andThen (submit_task E (TCloseGracefully c) w) (\<lambda>_ w. (Ret close_future, w))
      else if \<not> is_active c w then (Ret close_future, w)
      else if c_server (w_chans w c)
      then andThen (close_channel_internally E th c ''close server channel gracefully'' None w) (\<lambda>_ w.
             (Ret close_future, w))
      else andThen (add_pending E th c
             (Some \<lparr>ck_buffer = [], ck_future = close_future, ck_close = True\<rparr>) w) (\<lambda>_ w.
             (Ret close_future, w)))"

definition channel_close :: "env \<Rightarrow> tid \<Rightarrow> cid \<Rightarrow> bool \<Rightarrow> world \<Rightarrow> unit outcome \<times> world" where
  "channel_close E th c force w =
     (if force then andThen (close_forcibly E th c w) (\<lambda>_ w. (Ret (), w))
      else andThen (close_gracefully E th c w) (\<lambda>_ w. (Ret (), w)))"

section \<open>Registering\<close>

definition register :: "env \<Rightarrow> tid \<Rightarrow> cid \<Rightarrow> bool \<Rightarrow> world \<Rightarrow> fid outcome \<times> world" where
  "register E th c only_write w =
     andThen (start E w) (\<lambda>_ w.
     let channel_future = c_channel_future (w_chans w c) in
     if \<not> in_eventloop th w
     then andThen (submit_task E (TRegister c only_write) w) (\<lambda>_ w. (Ret channel_future, w))
     else if c_sockfd (w_chans w c) = -1 then (Ret channel_future, w)
     else
       let flag = (if only_write then EVENT_WRITE else EVENT_READ OR EVENT_WRITE);
           w = upd_chan c (\<lambda>ch. ch\<lparr>c_flag := flag\<rparr>) w in
       andThen (sel_register E (c_sockfd (w_chans w c)) flag w) (\<lambda>_ w.
       andThen (fire E th c ChannelRegistered w) (\<lambda>_ w.
       let fileno = c_sockfd (w_chans w c);
           w = w\<lparr>w_registered := w_registered w + 1, w_channels := dict_set fileno c (w_channels w)\<rparr> in
       if c_server (w_chans w c) then (Ret channel_future, w)
       else (Ret channel_future, (tick w)\<lparr>w_due := dict_set fileno
              (k_now (e_kernel E) (w_kcalls w) + c_connect_timeout (w_chans w c)) (w_due w)\<rparr>))))"

section \<open>Sending what is pending\<close>

fun write_batch_loop :: "config \<Rightarrow> chunk list \<Rightarrow> chunk list \<Rightarrow> int \<Rightarrow> chunk list \<times> int" where
  "write_batch_loop cfg [] batch total_bytes = (batch, total_bytes)"
| "write_batch_loop cfg (ck # chunks) batch total_bytes =
     (if ck_close ck then (batch, total_bytes)
      else if batch \<noteq> [] \<and> total_bytes + int (length (ck_buffer ck)) > cfg_high cfg
      then (batch, total_bytes)
      else if total_bytes + int (length (ck_buffer ck)) \<ge> cfg_high cfg
      then (batch @ [ck], total_bytes + int (length (ck_buffer ck)))
      else write_batch_loop cfg chunks (batch @ [ck]) (total_bytes + int (length (ck_buffer ck))))"

definition pending_write_batch :: "config \<Rightarrow> chunk list \<Rightarrow> chunk list \<times> int" where
  "pending_write_batch cfg chunks = write_batch_loop cfg chunks [] 0"

text \<open>The inner loop that completes empty chunks at the head, on a list of its own, and on
  the variable \<open>chunks\<close>: the first slice makes the list its own.\<close>

fun pop_empty_own :: "env \<Rightarrow> tid \<Rightarrow> chunk list \<Rightarrow> world \<Rightarrow> chunk list outcome \<times> world" where
  "pop_empty_own E th [] w = (Ret [], w)"
| "pop_empty_own E th (ck # cks) w =
     (if \<not> ck_close ck \<and> ck_buffer ck = []
      then andThen (fut_set_result E (ck_future ck) VTrue th w) (\<lambda>_ w. pop_empty_own E th cks w)
      else (Ret (ck # cks), w))"

definition pop_empty :: "env \<Rightarrow> tid \<Rightarrow> cid \<Rightarrow> chunks_var \<Rightarrow> world \<Rightarrow> chunks_var outcome \<times> world" where
  "pop_empty E th c v w =
     (case v of
        Own cks \<Rightarrow> andThen (pop_empty_own E th cks w) (\<lambda>cks w. (Ret (Own cks), w))
      | Shared g \<Rightarrow>
          (case chunks_val c v w of
             [] \<Rightarrow> (Ret v, w)
           | ck # _ \<Rightarrow>
               if \<not> ck_close ck \<and> ck_buffer ck = []
               then andThen (fut_set_result E (ck_future ck) VTrue th w) (\<lambda>_ w.
                    andThen (pop_empty_own E th (tl (chunks_val c v w)) w) (\<lambda>cks w. (Ret (Own cks), w)))
               else (Ret v, w)))"

text \<open>Completing the chunks of a batch that went out whole: how many there are, and for a
  chunk that went out in part how much of it.\<close>

fun complete_batch :: "env \<Rightarrow> tid \<Rightarrow> chunk list \<Rightarrow> int \<Rightarrow> nat \<Rightarrow> world \<Rightarrow>
    (nat \<times> nat option) outcome \<times> world" where
  "complete_batch E th [] bytes_left completed w = (Ret (completed, None), w)"
| "complete_batch E th (ck # batch) bytes_left completed w =
     (if bytes_left \<ge> int (length (ck_buffer ck))
      then andThen (fut_set_result E (ck_future ck) VTrue th w) (\<lambda>_ w.
             complete_batch E th batch (bytes_left - int (length (ck_buffer ck))) (Suc completed) w)
      else (Ret (completed, Some (nat bytes_left)), w))"

definition trim_chunks :: "nat \<Rightarrow> nat option \<Rightarrow> chunk list \<Rightarrow> chunk list" where
  "trim_chunks completed part chunks =
     (case (part, drop completed chunks) of
        (Some n, ck # rest) \<Rightarrow> ck\<lparr>ck_buffer := drop n (ck_buffer ck)\<rparr> # rest
      | (_, cks) \<Rightarrow> cks)"

lemma length_trim_chunks [simp]: "length (trim_chunks n p cks) = length cks - n"
  by (auto simp: trim_chunks_def split: option.splits list.splits dest: arg_cong[of _ _ length])

lemma pop_empty_own_length: "pop_empty_own E th cks w = (Ret cks', w') \<Longrightarrow> length cks' \<le> length cks"
  by (induction E th cks w rule: pop_empty_own.induct)
    (fastforce simp: andThen_def split: if_splits prod.splits outcome.splits)+

lemma pop_empty_Own:
  "pop_empty E th c (Own cks) w = (Ret v, w') \<Longrightarrow> \<exists>cks'. v = Own cks' \<and> length cks' \<le> length cks"
  by (auto simp: pop_empty_def andThen_def dest: pop_empty_own_length
      split: prod.splits outcome.splits)

definition var_measure :: "chunks_var \<Rightarrow> nat \<times> nat" where
  "var_measure v = (case v of Shared _ \<Rightarrow> (1, 0) | Own cks \<Rightarrow> (0, length cks))"

function send_loop :: "env \<Rightarrow> tid \<Rightarrow> cid \<Rightarrow> chunks_var \<Rightarrow> world \<Rightarrow> unit outcome \<times> world" where
  "send_loop E th c v w =
     (if chunks_val c v w = [] then (Ret (), set_pendings c v w)
      else andThen (pop_empty E th c v w) (\<lambda>v w.
        if chunks_val c v w = [] then (Ret (), set_pendings c v w)
        else if ck_close (hd (chunks_val c v w))
        then close_channel_internally E th c ''chunk with close indicator'' None w
        else if fst (pending_write_batch (e_cfg E) (chunks_val c v w)) = []
        then (Ret (), set_pendings c v w)
        else
          let batch = fst (pending_write_batch (e_cfg E) (chunks_val c v w));
              batch_bytes = snd (pending_write_batch (e_cfg E) (chunks_val c v w)) in
          andThen (try_send E c (concat (map ck_buffer batch)) w) (\<lambda>remaining w.
          let sent_bytes = batch_bytes - int (length remaining);
              w = upd_chan c (\<lambda>ch. ch\<lparr>c_pending_bytes := c_pending_bytes ch - sent_bytes\<rparr>)
                    (w\<lparr>w_sent := w_sent w + sent_bytes\<rparr>) in
          if sent_bytes \<le> 0 then (Ret (), set_pendings c v w)
          else andThen (complete_batch E th batch sent_bytes 0 w) (\<lambda>(completed, part) w.
            let chunks = trim_chunks completed part (chunks_val c v w) in
            if completed < length batch then (Ret (), set_pendings c (Own chunks) w)
            else send_loop E th c (Own chunks) w))))"
  by pat_completeness auto
termination
proof (relation "inv_image (less_than <*lex*> less_than) (\<lambda>(E, th, c, v, w). var_measure v)", goal_cases)
  case 1
  show ?case by auto
next
  case (2 E th c v w v' w')
  have "(var_measure (Own (trim_chunks n p (chunks_val c v' u))), var_measure v)
      \<in> less_than <*lex*> less_than"
    if "\<not> n < length (fst (pending_write_batch (e_cfg E) (chunks_val c v' w')))" for n p u
  proof (cases v)
    case (Shared g)
    then show ?thesis by (simp add: var_measure_def)
  next
    case (Own cks)
    with 2 obtain cks' where "v' = Own cks'" "length cks' \<le> length cks"
      using pop_empty_Own by blast
    moreover from 2 have "fst (pending_write_batch (e_cfg E) (chunks_val c v' w')) \<noteq> []"
      "chunks_val c v' w' \<noteq> []" by simp_all
    moreover from this(1) that have "0 < n" by (meson length_greater_0_conv not_less order.strict_trans1)
    ultimately show ?thesis using Own by (cases cks') (auto simp: var_measure_def chunks_val_def)
  qed
  with 2 show ?case by auto
qed


declare send_loop.simps [simp del]

definition send_pending_chunks :: "env \<Rightarrow> tid \<Rightarrow> cid \<Rightarrow> world \<Rightarrow> unit outcome \<times> world" where
  "send_pending_chunks E th c w = send_loop E th c (Shared (c_pgen (w_chans w c))) w"

section \<open>Shutting down\<close>

text \<open>One round of the loop over the channels in \<open>_cleanup_resources\<close>, and the loop.\<close>

definition cleanup_channel :: "env \<Rightarrow> tid \<Rightarrow> string \<Rightarrow> cid \<Rightarrow> world \<Rightarrow> unit outcome \<times> world" where
  "cleanup_channel E th reason c w =
     handling
       (if in_eventloop th w then close_channel_internally E th c reason None w
        else
          andThen (fail_channel_work E th c (RuntimeError (''channel closed: '' @ reason)) w) (\<lambda>_ w.
          andThen (cf_set E (c_close_future (w_chans w c)) c th (sock_close c w)) (\<lambda>_ w.
          andThen (set_active E th c False w) (\<lambda>_ w.
          let fileno = c_fileno0 (w_chans w c) in
          andThen (handling (andThen (sel_unregister fileno w) (\<lambda>_ w. fire E th c ChannelUnregistered w))
                    (\<lambda>_ w. (Ret (), w))) (\<lambda>_ w.
          (Ret (), w\<lparr>w_channels := dict_pop fileno (w_channels w),
                    w_due := dict_pop fileno (w_due w)\<rparr>))))))
       (\<lambda>_ w. (Ret (), w))"

fun cleanup_channels :: "env \<Rightarrow> tid \<Rightarrow> string \<Rightarrow> cid list \<Rightarrow> world \<Rightarrow> unit outcome \<times> world" where
  "cleanup_channels E th reason [] w = (Ret (), w)"
| "cleanup_channels E th reason (c # cs) w =
     andThen (cleanup_channel E th reason c w) (\<lambda>_ w. cleanup_channels E th reason cs w)"

definition cleanup_resources :: "env \<Rightarrow> tid \<Rightarrow> string \<Rightarrow> world \<Rightarrow> unit outcome \<times> world" where
  "cleanup_resources E th reason w =
     (if w_closed w then (Ret (), w)
      else andThen (cleanup_channels E th reason (map snd (w_channels w)) (w\<lparr>w_closed := True\<rparr>)) (\<lambda>_ w.
        let w = sel_close w in
        (Ret (), w\<lparr>w_eventfd := eventfd_close (w_eventfd w)\<rparr>)))"

definition stop :: "env \<Rightarrow> tid \<Rightarrow> world \<Rightarrow> unit outcome \<times> world" where
  "stop E th w =
     (if w_closed w \<or> w_stop_polling w then (Ret (), w)
      else
        let w = w\<lparr>w_stop_polling := True\<rparr> in
        if \<not> w_started w then cleanup_resources E th ''event loop stopped before start'' w
        else interrupt w)"

section \<open>Activation and TLS handshakes\<close>

definition activate_channel :: "env \<Rightarrow> tid \<Rightarrow> cid \<Rightarrow> world \<Rightarrow> unit outcome \<times> world" where
  "activate_channel E th c w =
     andThen (set_active E th c True w) (\<lambda>_ w.
     andThen (cf_set E (c_channel_future (w_chans w c)) c th w) (\<lambda>_ w.
     (Ret (), w\<lparr>w_due := dict_pop (c_sockfd (w_chans w c)) (w_due w)\<rparr>)))"

definition set_ssl_handshake_interest :: "env \<Rightarrow> tid \<Rightarrow> cid \<Rightarrow> int \<Rightarrow> world \<Rightarrow> unit outcome \<times> world" where
  "set_ssl_handshake_interest E th c flag w =
     (if flag = EVENT_READ
      then andThen (add_flag E th c EVENT_READ w) (\<lambda>_ w. remove_flag E th c EVENT_WRITE w)
      else if flag = EVENT_WRITE then add_flag E th c EVENT_WRITE w
      else (Ret (), w))"

text \<open>The three places that give up on a connection: the connect future fails, the connect
  timeout is dropped, and the channel is closed.\<close>

definition connect_failed :: "env \<Rightarrow> tid \<Rightarrow> cid \<Rightarrow> string \<Rightarrow> exn \<Rightarrow> world \<Rightarrow> bool outcome \<times> world" where
  "connect_failed E th c reason e w =
     andThen (cf_set_exception E (c_channel_future (w_chans w c)) e th w) (\<lambda>_ w.
     andThen (close_channel_internally E th c (reason @ e_str E e) None
                (w\<lparr>w_due := dict_pop (c_fileno0 (w_chans w c)) (w_due w)\<rparr>)) (\<lambda>_ w.
     (Ret False, w)))"

definition sock_handshake :: "env \<Rightarrow> cid \<Rightarrow> world \<Rightarrow> handshake_res" where
  "sock_handshake E c w =
     (if c_sockfd (w_chans w c) < 0 then HsError (OSError 9)
      else k_handshake (e_kernel E) c (w_kcalls w))"

definition complete_ssl_handshake :: "env \<Rightarrow> tid \<Rightarrow> cid \<Rightarrow> world \<Rightarrow> bool outcome \<times> world" where
  "complete_ssl_handshake E th c w =
     (case sock_handshake E c w of
        HsWantRead \<Rightarrow>
          andThen (set_ssl_handshake_interest E th c EVENT_READ (tick w)) (\<lambda>_ w. (Ret False, w))
      | HsWantWrite \<Rightarrow>
          andThen (set_ssl_handshake_interest E th c EVENT_WRITE (tick w)) (\<lambda>_ w. (Ret False, w))
      | HsError e \<Rightarrow> connect_failed E th c ''ssl handshake failed: '' e (tick w)
      | HsOk \<Rightarrow>
          andThen (fire E th c ChannelHandshakeComplete
                    (upd_chan c (\<lambda>ch. ch\<lparr>c_ssl_complete := True\<rparr>) (tick w))) (\<lambda>_ w.
          andThen (activate_channel E th c w) (\<lambda>_ w.
          andThen (if has_pendings c w then add_flag E th c EVENT_WRITE w else (Ret (), w)) (\<lambda>_ w.
          (Ret True, w)))))"

definition sock_so_error :: "env \<Rightarrow> cid \<Rightarrow> world \<Rightarrow> int + int" where
  "sock_so_error E c w =
     (if c_sockfd (w_chans w c) < 0 then Inl 9
      else k_so_error (e_kernel E) c (w_kcalls w))"

definition check_channel_active :: "env \<Rightarrow> tid \<Rightarrow> cid \<Rightarrow> world \<Rightarrow> bool outcome \<times> world" where
  "check_channel_active E th c w =
     (if c_ever_active (w_chans w c) then (Ret True, w)
      else case sock_so_error E c w of
        Inl errno \<Rightarrow> connect_failed E th c ''connect status check failed: '' (OSError errno) (tick w)
      | Inr connect_error \<Rightarrow>
          if connect_error \<noteq> 0
          then connect_failed E th c ''connect failed: '' (OSError connect_error) (tick w)
          else if needs_ssl_handshake c (tick w) then complete_ssl_handshake E th c (tick w)
          else andThen (activate_channel E th c (tick w)) (\<lambda>_ w. (Ret True, w)))"

section \<open>Connect timeouts\<close>

definition millis_to_wait_for_connect_timeout :: "env \<Rightarrow> world \<Rightarrow> int \<times> world" where
  "millis_to_wait_for_connect_timeout E w =
     (if w_due w = [] then (-1, w)
      else (max 0 (Min (set (map snd (w_due w))) - k_now (e_kernel E) (w_kcalls w)), tick w))"

definition poll_timeout :: "env \<Rightarrow> world \<Rightarrow> int option \<times> world" where
  "poll_timeout E w =
     (let (millis, w) = millis_to_wait_for_connect_timeout E w;
          timeout_millis = (if e_debug E
            then (if millis < 0 then e_debug_interval E else min (e_debug_interval E) millis)
            else millis) in
      if timeout_millis < 0 then (None, w) else (Some (max 1 (timeout_millis div 1000)), w))"

definition poll :: "env \<Rightarrow> world \<Rightarrow> (fd \<times> int) list \<times> world" where
  "poll E w = (let (timeout, w) = poll_timeout E w in
     (k_select (e_kernel E) (w_kcalls w) timeout, tick w))"

text \<open>The loop of \<open>_process_connection_timeout\<close> over a copy of the table; it returns the
  descriptors to delete.\<close>

fun timeout_loop :: "env \<Rightarrow> tid \<Rightarrow> int \<Rightarrow> (fd \<times> int) list \<Rightarrow> fd list \<Rightarrow> world \<Rightarrow>
    fd list outcome \<times> world" where
  "timeout_loop E th current [] to_delete w = (Ret to_delete, w)"
| "timeout_loop E th current ((fd, due_millis) # rest) to_delete w =
     (if due_millis \<le> current then
        andThen (case dict_get (w_channels w) fd of
            Some c \<Rightarrow> (if \<not> c_ever_active (w_chans w c)
              then close_channel_internally E th c ''connect timeout'' None w else (Ret (), w))
          | None \<Rightarrow> (Ret (), w)) (\<lambda>_ w.
        timeout_loop E th current rest (to_delete @ [fd]) w)
      else timeout_loop E th current rest to_delete w)"

definition process_connection_timeout :: "env \<Rightarrow> tid \<Rightarrow> world \<Rightarrow> unit outcome \<times> world" where
  "process_connection_timeout E th w =
     (if w_due w = [] then (Ret (), w)
      else andThen (timeout_loop E th (k_now (e_kernel E) (w_kcalls w)) (w_due w) [] (tick w)) (\<lambda>to_delete w.
        (Ret (), w\<lparr>w_due := fold dict_pop to_delete (w_due w)\<rparr>)))"

section \<open>The task queue\<close>

definition run_task :: "env \<Rightarrow> tid \<Rightarrow> task \<Rightarrow> world \<Rightarrow> unit outcome \<times> world" where
  "run_task E th t w =
     (case t of
        TAddFlag c flag \<Rightarrow> add_flag E th c flag w
      | TRemoveFlag c flag \<Rightarrow> remove_flag E th c flag w
      | TModifyFlag c \<Rightarrow> modify_flag E th c w
      | TCloseForcibly c \<Rightarrow> andThen (close_forcibly E th c w) (\<lambda>_ w. (Ret (), w))
      | TCloseGracefully c \<Rightarrow> andThen (close_gracefully E th c w) (\<lambda>_ w. (Ret (), w))
      | TWrite c buffer cf \<Rightarrow> andThen (channel_write E th c buffer (Some cf) w) (\<lambda>_ w. (Ret (), w))
      | TRegister c only_write \<Rightarrow> andThen (register E th c only_write w) (\<lambda>_ w. (Ret (), w))
      | TUnregister c cf \<Rightarrow> andThen (unregister E th c (Some cf) w) (\<lambda>_ w. (Ret (), w))
      | TUser n \<Rightarrow> e_usertask E n th w)"

text \<open>A task that raises is logged with its source text, which \<open>inspect.getsource\<close> may fail
  to find.\<close>

definition run_task_logged :: "env \<Rightarrow> tid \<Rightarrow> task \<Rightarrow> world \<Rightarrow> unit outcome \<times> world" where
  "run_task_logged E th t w =
     handling (run_task E th t w) (\<lambda>_ w.
       if k_getsource (e_kernel E) (w_kcalls w) then (Ret (), tick w) else (Raise (OSError 2), tick w))"

partial_function (option) process_task_queue_loop ::
    "env \<Rightarrow> tid \<Rightarrow> world \<Rightarrow> (unit outcome \<times> world) option" where
  "process_task_queue_loop E th w =
     (case w_taskq w of
        [] \<Rightarrow> Some (Ret (), w)
      | task # rest \<Rightarrow>
          (case run_task_logged E th task (w\<lparr>w_taskq := rest\<rparr>) of
             (r, w') \<Rightarrow> (case r of
                 Ret _ \<Rightarrow> process_task_queue_loop E th
                   (w'\<lparr>w_tasks_processed := w_tasks_processed w' + 1\<rparr>)
               | Raise e \<Rightarrow> Some (Raise e, w')
               | Diverge \<Rightarrow> Some (Diverge, w'))))"

declare process_task_queue_loop.simps [code]

definition process_task_queue :: "env \<Rightarrow> tid \<Rightarrow> world \<Rightarrow> unit outcome \<times> world" where
  "process_task_queue E th w =
     (case process_task_queue_loop E th w of None \<Rightarrow> (Diverge, w) | Some r \<Rightarrow> r)"

section \<open>The event loop\<close>

fun accept_loop :: "env \<Rightarrow> tid \<Rightarrow> cid \<Rightarrow> nat list \<Rightarrow> world \<Rightarrow> unit outcome \<times> world" where
  "accept_loop E th c [] w = (Ret (), w)"
| "accept_loop E th c (client_sock # rest) w =
     andThen (fire E th c (ChannelReadSocket client_sock) (w\<lparr>w_accepted := w_accepted w + 1\<rparr>)) (\<lambda>_ w.
     accept_loop E th c rest w)"

definition server_event :: "env \<Rightarrow> tid \<Rightarrow> cid \<Rightarrow> world \<Rightarrow> unit outcome \<times> world" where
  "server_event E th c w =
     andThen (if \<not> is_active c w then set_active E th c True w else (Ret (), w)) (\<lambda>_ w.
     andThen (channel_acceptall E c w) (\<lambda>result w.
     accept_loop E th c result w))"

text \<open>The part of an event that the write bit starts; \<open>False\<close> is the \<open>continue\<close>.\<close>

definition write_event :: "env \<Rightarrow> tid \<Rightarrow> fd \<Rightarrow> cid \<Rightarrow> world \<Rightarrow> bool outcome \<times> world" where
  "write_event E th fileno c w =
     andThen (check_channel_active E th c w) (\<lambda>active w.
     if \<not> active then (Ret False, w)
     else
       andThen (if \<not> has_pendings c w then remove_flag E th c EVENT_WRITE w
                else andThen (send_pending_chunks E th c w) (\<lambda>_ w.
                  if fileno \<in> dict_keys (w_channels w) \<and> \<not> has_pendings c w
                  then remove_flag E th c EVENT_WRITE w else (Ret (), w))) (\<lambda>_ w.
       andThen (check_writability E th c w) (\<lambda>_ w. (Ret True, w))))"

definition read_event :: "env \<Rightarrow> tid \<Rightarrow> cid \<Rightarrow> world \<Rightarrow> unit outcome \<times> world" where
  "read_event E th c w =
     andThen (if \<not> is_active c w then check_channel_active E th c w else (Ret True, w)) (\<lambda>active w.
     if \<not> active then (Ret (), w)
     else andThen (channel_recvall E c w) (\<lambda>(buffer, eof) w.
       let w = w\<lparr>w_received := w_received w + int (length buffer)\<rparr> in
       if buffer \<noteq> [] then fire E th c (ChannelReadBytes buffer) w
       else if eof then close_channel_internally E th c ''EOF'' None w
       else (Ret (), w)))"

definition process_event :: "env \<Rightarrow> tid \<Rightarrow> fd \<Rightarrow> int \<Rightarrow> world \<Rightarrow> unit outcome \<times> world" where
  "process_event E th fileno event w =
     (if fileno = eventfd_fileno (w_eventfd w)
      then
        let (r, ef) = eventfd_unsafe_read (w_eventfd w) in
        andThen (r, w\<lparr>w_eventfd := ef\<rparr>) (\<lambda>_ w. (Ret (), w\<lparr>w_eventfd_reads := w_eventfd_reads w + 1\<rparr>))
      else case dict_get (w_channels w) fileno of
        None \<Rightarrow> (Ret (), w)
      | Some c \<Rightarrow>
          if c_server (w_chans w c) then server_event E th c w
          else
            andThen (if event AND EVENT_WRITE \<noteq> 0 then write_event E th fileno c w else (Ret True, w)) (\<lambda>go w.
            if go \<and> event AND EVENT_READ \<noteq> 0 \<and> fileno \<in> dict_keys (w_channels w)
            then read_event E th c w else (Ret (), w)))"

fun process_events :: "env \<Rightarrow> tid \<Rightarrow> (fd \<times> int) list \<Rightarrow> world \<Rightarrow> unit outcome \<times> world" where
  "process_events E th [] w = (Ret (), w)"
| "process_events E th ((fileno, event) # rest) w =
     andThen (process_event E th fileno event w) (\<lambda>_ w. process_events E th rest w)"

text \<open>One round of the \<open>while True\<close> of \<open>_start\<close>: \<open>False\<close> when the loop is left.\<close>

definition loop_iteration :: "env \<Rightarrow> tid \<Rightarrow> world \<Rightarrow> bool outcome \<times> world" where
  "loop_iteration E th w =
     (if w_stop_polling w
      then andThen (cleanup_resources E th ''event loop stopped'' w) (\<lambda>_ w. (Ret False, w))
      else
        let (events, w) = poll E w in
        andThen (process_events E th events w) (\<lambda>_ w.
        andThen (process_task_queue E th w) (\<lambda>_ w.
        andThen (process_connection_timeout E th w) (\<lambda>_ w. (Ret True, w)))))"

text \<open>The thread function itself, under the \<open>@log\<close> decorator: an exception ends the thread
  and nothing else.\<close>

partial_function (option) start_thread :: "env \<Rightarrow> tid \<Rightarrow> world \<Rightarrow> (unit outcome \<times> world) option" where
  "start_thread E th w =
     (case loop_iteration E th w of
        (r, w') \<Rightarrow> (case r of
            Ret continue \<Rightarrow> (if continue then start_thread E th w' else Some (Ret (), w'))
          | Raise e \<Rightarrow> Some (Ret (), w')
          | Diverge \<Rightarrow> Some (Diverge, w')))"

declare start_thread.simps [code]

end
