(* ===== verification/Sending.thy ===== *)
theory Sending
  imports EventLoop
begin

text \<open>
  What \<open>_send_pending_chunks\<close> and \<open>write\<close> do to the bytes of a channel.  The reference is
  \<open>advance n q\<close>: the queue after the kernel has taken \<open>n\<close> bytes of it, and the futures
  of the chunks that went out whole.  Every pass of the send loop, with its batches, its
  retries and its partial sends, is one \<open>advance\<close>; no byte is lost, repeated or reordered.

  Done-callbacks of futures are taken to be passive here: they do not act on the library's
  state (a waiting \<open>sync()\<close> is such a callback).  What an active one can do is shown in
  \<^verbatim>\<open>Findings.thy\<close>.
\<close>

section \<open>Passive done-callbacks\<close>

definition passive_listeners :: "env \<Rightarrow> bool" where
  "passive_listeners E \<longleftrightarrow>
     (\<forall>l f th w. snd (e_listener E l f th w) = w \<and> fst (e_listener E l f th w) \<noteq> Diverge)"

lemma passive_cases:
  assumes "passive_listeners E"
  shows "(\<exists>u. e_listener E l f th w = (Ret u, w)) \<or> (\<exists>e. e_listener E l f th w = (Raise e, w))"
proof -
  from assms have "snd (e_listener E l f th w) = w" "fst (e_listener E l f th w) \<noteq> Diverge"
    by (auto simp: passive_listeners_def)
  then show ?thesis by (cases "e_listener E l f th w"; cases "fst (e_listener E l f th w)") auto
qed

lemma run_callbacks_passive:
  assumes "passive_listeners E"
  shows "run_callbacks E ls f th w = (Ret (), w)"
proof (induction ls)
  case (Cons l ls)
  with passive_cases[OF assms, of l f th w] show ?case by auto
qed simp

lemma fut_complete_passive:
  "passive_listeners E \<Longrightarrow> fut_complete E f st th w =
     (if fut_done w f then (Raise InvalidStateError, w) else (Ret (), w\<lparr>w_futs := (w_futs w)(f := st)\<rparr>))"
  by (simp add: fut_complete_def run_callbacks_passive)

section \<open>The reference: advancing a queue\<close>

definition stream :: "chunk list \<Rightarrow> bytes" where
  "stream q = concat (map ck_buffer q)"

lemma stream_simps [simp]:
  "stream [] = []" "stream (ck # q) = ck_buffer ck @ stream q" "stream (q @ q') = stream q @ stream q'"
  by (simp_all add: stream_def)

fun advance :: "nat \<Rightarrow> chunk list \<Rightarrow> chunk list \<times> fid list" where
  "advance n [] = ([], [])"
| "advance n (ck # q) =
     (if ck_close ck then (ck # q, [])
      else if length (ck_buffer ck) \<le> n
      then (fst (advance (n - length (ck_buffer ck)) q),
            ck_future ck # snd (advance (n - length (ck_buffer ck)) q))
      else (ck\<lparr>ck_buffer := drop n (ck_buffer ck)\<rparr> # q, []))"

text \<open>The chunks in front of the first close indicator.\<close>

definition data_part :: "chunk list \<Rightarrow> chunk list" where
  "data_part q = takeWhile (\<lambda>ck. \<not> ck_close ck) q"

definition queue_ok :: "(fid \<Rightarrow> fstate) \<Rightarrow> chunk list \<Rightarrow> bool" where
  "queue_ok futs q \<longleftrightarrow>
     distinct (map ck_future (filter (\<lambda>ck. \<not> ck_close ck) q))
     \<and> (\<forall>ck \<in> set q. if ck_close ck then ck_buffer ck = []
                      else ck_buffer ck \<noteq> [] \<and> futs (ck_future ck) = FPending)"

lemma queue_ok_Cons:
  "queue_ok futs (ck # q) \<longleftrightarrow> queue_ok futs q \<and>
     (if ck_close ck then ck_buffer ck = []
      else ck_buffer ck \<noteq> [] \<and> futs (ck_future ck) = FPending
        \<and> ck_future ck \<notin> ck_future ` {ck' \<in> set q. \<not> ck_close ck'})"
  by (auto simp: queue_ok_def)

lemma queue_ok_append:
  "queue_ok futs (q @ q') \<longleftrightarrow> queue_ok futs q \<and> queue_ok futs q' \<and>
     ck_future ` {ck \<in> set q. \<not> ck_close ck} \<inter> ck_future ` {ck \<in> set q'. \<not> ck_close ck} = {}"
  by (auto simp: queue_ok_def)

lemma data_part_simps [simp]:
  "data_part [] = []"
  "data_part (ck # q) = (if ck_close ck then [] else ck # data_part q)"
  by (simp_all add: data_part_def)

lemma data_part_append: "\<forall>ck \<in> set q. \<not> ck_close ck \<Longrightarrow> data_part (q @ q') = q @ data_part q'"
  by (induction q) auto

lemma advance_0: "queue_ok futs q \<Longrightarrow> advance 0 q = (q, [])"
  by (cases q) (auto simp: queue_ok_Cons)

lemma advance_add:
  "advance (n + m) q = (fst (advance m (fst (advance n q))),
     snd (advance n q) @ snd (advance m (fst (advance n q))))"
proof (induction q arbitrary: n)
  case (Cons ck q)
  show ?case
  proof (cases "ck_close ck \<or> \<not> length (ck_buffer ck) \<le> n")
    case True
    then show ?thesis by (auto simp: add.commute)
  next
    case False
    then show ?thesis using Cons[of "n - length (ck_buffer ck)"] by (simp add: Nat.add_diff_assoc2)
  qed
qed simp

lemma stream_advance:
  "n \<le> length (stream (data_part q)) \<Longrightarrow> stream (fst (advance n q)) = drop n (stream q)"
proof (induction q arbitrary: n)
  case (Cons ck q)
  then show ?case
    by (auto split: if_splits)
qed simp

lemma data_part_advance:
  "n \<le> length (stream (data_part q)) \<Longrightarrow>
     stream (data_part (fst (advance n q))) = drop n (stream (data_part q))"
proof (induction q arbitrary: n)
  case (Cons ck q)
  then show ?case by (auto split: if_splits)
qed simp

lemma advance_suffix_futures:
  "map ck_future q = snd (advance n q) @ map ck_future (fst (advance n q))"
  by (induction q arbitrary: n) auto

lemma advance_futures_data:
  "set (snd (advance n q)) \<subseteq> ck_future ` {ck \<in> set q. \<not> ck_close ck}"
  by (induction q arbitrary: n) (auto dest!: subsetD split: if_splits)

lemma advance_data_left:
  "ck \<in> set (fst (advance n q)) \<Longrightarrow>
     \<exists>ck' \<in> set q. ck_future ck = ck_future ck' \<and> ck_close ck = ck_close ck'"
  by (induction q arbitrary: n) (auto split: if_splits)

text \<open>Completing the futures of a list.\<close>

definition complete_all :: "fid list \<Rightarrow> (fid \<Rightarrow> fstate) \<Rightarrow> (fid \<Rightarrow> fstate)" where
  "complete_all fs futs = (\<lambda>f. if f \<in> set fs then FResult VTrue else futs f)"

lemma complete_all_simps [simp]:
  "complete_all [] futs = futs"
  "complete_all fs' (complete_all fs futs) = complete_all (fs @ fs') futs"
  by (auto simp: complete_all_def fun_eq_iff)

lemma queue_ok_advance:
  "queue_ok futs q \<Longrightarrow> queue_ok (complete_all (snd (advance n q)) futs) (fst (advance n q))"
proof (induction q arbitrary: n futs)
  case (Cons ck q)
  note ok = Cons.prems[unfolded queue_ok_Cons]
  show ?case
  proof (cases "ck_close ck \<or> \<not> length (ck_buffer ck) \<le> n")
    case True
    with ok show ?thesis by (auto simp: queue_ok_Cons)
  next
    case False
    let ?n = "n - length (ck_buffer ck)"
    have "queue_ok (complete_all (snd (advance ?n q)) futs) (fst (advance ?n q))"
      using ok by (intro Cons.IH) simp
    moreover have "ck_future ck' \<noteq> ck_future ck"
      if "ck' \<in> set (fst (advance ?n q))" "\<not> ck_close ck'" for ck'
      using advance_data_left[OF that(1)] that(2) ok False by auto
    moreover have "queue_ok (complete_all (ck_future ck # fs) futs) q'"
      if "queue_ok (complete_all fs futs) q'"
        "\<And>ck'. ck' \<in> set q' \<Longrightarrow> \<not> ck_close ck' \<Longrightarrow> ck_future ck' \<noteq> ck_future ck" for fs q'
      using that by (simp add: queue_ok_def complete_all_def)
    ultimately show ?thesis using False by simp
  qed
qed (simp add: queue_ok_def)

section \<open>Batches\<close>

lemma write_batch_loop_prefix:
  "\<exists>k. write_batch_loop cfg q batch tot = (batch @ take k (data_part q),
     tot + int (length (stream (take k (data_part q)))))"
proof (induction cfg q batch tot rule: write_batch_loop.induct)
  case (1 cfg batch tot)
  show ?case by simp
next
  case (2 cfg ck q batch tot)
  let ?t = "tot + int (length (ck_buffer ck))"
  show ?case
  proof (cases "ck_close ck \<or> (batch \<noteq> [] \<and> ?t > cfg_high cfg)")
    case True
    then show ?thesis by (intro exI[of _ 0]) auto
  next
    case False
    show ?thesis
    proof (cases "?t \<ge> cfg_high cfg")
      case True
      with False show ?thesis by (intro exI[of _ 1]) auto
    next
      case more: False
      with False 2 obtain k where "write_batch_loop cfg q (batch @ [ck]) ?t =
          ((batch @ [ck]) @ take k (data_part q), ?t + int (length (stream (take k (data_part q)))))"
        by auto
      with False more show ?thesis by (intro exI[of _ "Suc k"]) auto
    qed
  qed
qed

lemma pending_write_batch_prefix:
  "\<exists>k. pending_write_batch cfg q = (take k (data_part q), int (length (stream (take k (data_part q)))))"
  using write_batch_loop_prefix[of cfg q "[]" 0] by (simp add: pending_write_batch_def)

lemma write_batch_loop_nonempty: "batch \<noteq> [] \<Longrightarrow> fst (write_batch_loop cfg q batch tot) \<noteq> []"
  using write_batch_loop_prefix[of cfg q batch tot] by auto

lemma pending_write_batch_nonempty:
  "q \<noteq> [] \<Longrightarrow> \<not> ck_close (hd q) \<Longrightarrow> fst (pending_write_batch cfg q) \<noteq> []"
  by (cases q) (auto simp: pending_write_batch_def write_batch_loop_nonempty)

text \<open>A batch stays within the high water mark, unless it is a single chunk.\<close>

lemma write_batch_loop_bound:
  assumes "batch = [] \<or> tot \<le> cfg_high cfg" "batch = [] \<Longrightarrow> tot = 0"
  shows "snd (write_batch_loop cfg q batch tot) \<le> cfg_high cfg
     \<or> length (fst (write_batch_loop cfg q batch tot)) \<le> 1"
  using assms
proof (induction cfg q batch tot rule: write_batch_loop.induct)
  case (2 cfg ck q batch tot)
  show ?case
  proof (cases "batch = []")
    case True
    with 2 show ?thesis by auto
  next
    case False
    with 2 show ?thesis by auto
  qed
qed auto

section \<open>One pass over a batch\<close>

lemma advance_append:
  assumes "queue_ok futs rest" "\<forall>ck \<in> set batch. \<not> ck_close ck" "n \<le> length (stream batch)"
  shows "advance n (batch @ rest) = (fst (advance n batch) @ rest, snd (advance n batch))"
  using assms(2,3)
proof (induction batch arbitrary: n)
  case Nil
  with assms(1) show ?case by (simp add: advance_0)
next
  case (Cons ck batch)
  then show ?case by auto
qed

lemma advance_lengths: "length (snd (advance n q)) + length (fst (advance n q)) = length q"
  using arg_cong[OF advance_suffix_futures[of q n], of length] by simp

lemma advance_whole:
  "queue_ok futs q \<Longrightarrow> \<forall>ck \<in> set q. \<not> ck_close ck \<Longrightarrow> n \<le> length (stream q) \<Longrightarrow>
     fst (advance n q) = [] \<longleftrightarrow> n = length (stream q)"
proof (induction q arbitrary: n)
  case (Cons ck q)
  then show ?case by (auto simp: queue_ok_Cons)
qed simp

lemma complete_batch_advance:
  assumes "passive_listeners E" "queue_ok (w_futs w) batch" "\<forall>ck \<in> set batch. \<not> ck_close ck"
  shows "\<exists>part. complete_batch E th batch (int n) k w =
      (Ret (k + length (snd (advance n batch)), part),
       w\<lparr>w_futs := complete_all (snd (advance n batch)) (w_futs w)\<rparr>)
    \<and> (\<forall>rest. trim_chunks (length (snd (advance n batch))) part (batch @ rest)
        = fst (advance n batch) @ rest)"
  using assms(2,3)
proof (induction batch arbitrary: n k w)
  case Nil
  then show ?case by (simp add: trim_chunks_def)
next
  case (Cons ck batch)
  note ok = Cons.prems(1)[unfolded queue_ok_Cons]
  show ?case
  proof (cases "length (ck_buffer ck) \<le> n")
    case False
    with Cons.prems(2) show ?thesis by (simp add: trim_chunks_def)
  next
    case True
    let ?n = "n - length (ck_buffer ck)" and ?w = "w\<lparr>w_futs := (w_futs w)(ck_future ck := FResult VTrue)\<rparr>"
    have "ck_future ck' \<noteq> ck_future ck" if "ck' \<in> set batch" for ck'
      using ok Cons.prems(2) that by (metis (mono_tags, lifting) imageI list.set_intros mem_Collect_eq)
    with ok have ok': "queue_ok (w_futs ?w) batch" by (simp add: queue_ok_def)
    obtain part where IH: "complete_batch E th batch (int ?n) (Suc k) ?w =
        (Ret (Suc k + length (snd (advance ?n batch)), part),
         ?w\<lparr>w_futs := complete_all (snd (advance ?n batch)) (w_futs ?w)\<rparr>)"
      "\<forall>rest. trim_chunks (length (snd (advance ?n batch))) part (batch @ rest)
        = fst (advance ?n batch) @ rest"
      using Cons.IH[OF ok'] Cons.prems(2) by fastforce
    have "complete_all (snd (advance ?n batch)) ((w_futs w)(ck_future ck := FResult VTrue))
        = complete_all (ck_future ck # snd (advance ?n batch)) (w_futs w)"
      by (auto simp: complete_all_def fun_eq_iff)
    moreover have "int n - int (length (ck_buffer ck)) = int ?n" using True by simp
    moreover have "trim_chunks (Suc j) part (ck # xs) = trim_chunks j part xs" for j xs
      by (simp add: trim_chunks_def)
    ultimately show ?thesis using IH True ok Cons.prems(2) fut_complete_passive[OF assms(1)]
      by (simp add: fut_set_result_def fut_done_def)
  qed
qed

lemma try_send_loop_refused:
  assumes "try_send_loop send buf k tot spin = Some (t, k')" "t < length buf"
  shows "\<exists>j d. d \<noteq> [] \<and> send j d = SendError"
proof -
  have "case y of (t, k') \<Rightarrow> t < length buf \<longrightarrow> (\<exists>j d. d \<noteq> [] \<and> send j d = SendError)"
    if "try_send_loop send buf k tot spin = Some y" for send buf k tot spin y
  proof (rule try_send_loop.raw_induct[where P = "\<lambda>send buf k tot spin y. case y of (t, k') \<Rightarrow>
        t < length buf \<longrightarrow> (\<exists>j d. d \<noteq> [] \<and> send j d = SendError)", OF _ that], goal_cases)
    case (1 f send buf k tot spin y)
    have "\<exists>j d. d \<noteq> [] \<and> send j d = SendError" if "send k (drop tot buf) = SendError" "tot < length buf"
      using that by (intro exI[of _ k] exI[of _ "drop tot buf"]) simp
    with 1(2) show ?case
      by (auto split: if_splits send_res.splits dest!: 1(1))
  qed
  with assms show ?thesis by fastforce
qed

definition refuses :: "env \<Rightarrow> cid \<Rightarrow> world \<Rightarrow> bool" where
  "refuses E c w \<longleftrightarrow> (\<exists>j d. d \<noteq> [] \<and> sock_send E c w j d = SendError)"

lemma sock_send_ok: "send_ok (k_send (e_kernel E) c) \<Longrightarrow> send_ok (sock_send E c w)"
  by (simp add: sock_send_def send_ok_def)

lemma try_send_spec:
  assumes "send_ok (k_send (e_kernel E) c)"
  shows "\<exists>n k. try_send E c buf w = (Ret (drop n buf),
      upd_chan c (\<lambda>ch. ch\<lparr>c_wire := c_wire ch @ take n buf\<rparr>) (w\<lparr>w_kcalls := k\<rparr>))
    \<and> n \<le> length buf \<and> (n < length buf \<longrightarrow> refuses E c w)"
proof (cases "buf = []")
  case True
  then show ?thesis
    by (intro exI[of _ 0] exI[of _ "w_kcalls w"]) (simp add: try_send_def try_send_bytes_def)
next
  case False
  obtain t k' where r: "try_send_loop (sock_send E c w) buf (w_kcalls w) 0 1 = Some (t, k')"
    and t: "t \<le> length buf"
    using try_send_loop_returns[OF sock_send_ok[OF assms, of w], of 1 0 buf "w_kcalls w"] by auto
  have "try_send E c buf w = (Ret (drop t buf),
      upd_chan c (\<lambda>ch. ch\<lparr>c_wire := c_wire ch @ take t buf\<rparr>) (w\<lparr>w_kcalls := k'\<rparr>))"
    using r t False by (simp add: try_send_def try_send_bytes_def)
  moreover have "refuses E c w" if "t < length buf"
    unfolding refuses_def by (rule try_send_loop_refused[OF r that])
  ultimately show ?thesis using t by blast
qed

section \<open>The send loop\<close>

text \<open>The state after the kernel has taken \<open>n\<close> bytes of the queue \<open>q\<close> of channel \<open>c\<close>; the
  attribute \<open>_pendings\<close> itself is only written when the loop ends.\<close>

definition sent_world :: "cid \<Rightarrow> chunk list \<Rightarrow> nat \<Rightarrow> nat \<Rightarrow> world \<Rightarrow> world" where
  "sent_world c q n k w =
     upd_chan c (\<lambda>ch. ch\<lparr>c_wire := c_wire ch @ take n (stream q),
                        c_pending_bytes := c_pending_bytes ch - int n\<rparr>)
       (w\<lparr>w_sent := w_sent w + int n, w_kcalls := k,
          w_futs := complete_all (snd (advance n q)) (w_futs w)\<rparr>)"

definition views :: "cid \<Rightarrow> chunks_var \<Rightarrow> chunk list \<Rightarrow> world \<Rightarrow> bool" where
  "views c v q w \<longleftrightarrow> v = Own q
     \<or> v = Shared (c_pgen (w_chans w c)) \<and> c_pendings (w_chans w c) = q"

lemma views_val: "views c v q w \<Longrightarrow> chunks_val c v w = q"
  by (auto simp: views_def chunks_val_def read_list_def)

lemma views_frame:
  "views c v q w \<Longrightarrow> c_pgen (w_chans w' c) = c_pgen (w_chans w c) \<Longrightarrow>
     c_pendings (w_chans w' c) = c_pendings (w_chans w c) \<Longrightarrow> views c v q w'"
  by (auto simp: views_def)

lemma views_Own [simp]: "views c (Own q) q w"
  by (simp add: views_def)

lemma set_pendings_views:
  "views c v q w \<Longrightarrow> c_pendings (w_chans (set_pendings c v w) c) = q"
  by (auto simp: views_def set_pendings_def replace_pendings_def)

lemma sent_world_add:
  assumes "n \<le> length (stream (data_part q))"
  shows "sent_world c (fst (advance n q)) m k' (sent_world c q n k w) = sent_world c q (n + m) k' w"
  using assms
  by (simp add: sent_world_def upd_chan_def stream_advance take_add advance_add[of n m q]
      add.assoc diff_diff_eq)

lemma sent_world_0: "queue_ok futs q \<Longrightarrow> sent_world c q 0 (w_kcalls w) w = w"
  by (simp add: sent_world_def advance_0)

lemma pop_empty_ok:
  "queue_ok futs q \<Longrightarrow> views c v q w \<Longrightarrow> pop_empty E th c v w = (Ret v, w)"
proof (cases q)
  case Nil
  moreover assume "views c v q w"
  ultimately show ?thesis
    by (auto simp: pop_empty_def views_def chunks_val_def read_list_def)
next
  case (Cons ck q')
  moreover assume "queue_ok futs q" "views c v q w"
  ultimately show ?thesis
    by (auto simp: pop_empty_def views_def chunks_val_def read_list_def queue_ok_Cons split: if_splits)
qed

definition sent_result :: "env \<Rightarrow> tid \<Rightarrow> cid \<Rightarrow> chunk list \<Rightarrow> nat \<Rightarrow> nat \<Rightarrow> world \<Rightarrow>
    unit outcome \<times> world \<Rightarrow> bool" where
  "sent_result E th c q n k w r \<longleftrightarrow>
     (let q' = fst (advance n q); w' = sent_world c q n k w in
      if q' \<noteq> [] \<and> ck_close (hd q')
      then r = close_channel_internally E th c ''chunk with close indicator'' None w'
      else \<exists>v. views c v q' w' \<and> r = (Ret (), set_pendings c v w'))"

text \<open>The queue of a channel in the middle of the loop is well-formed after every batch.\<close>

lemma send_loop_batch:
  assumes "queue_ok futs q" "q \<noteq> []" "\<not> ck_close (hd q)"
  shows "\<exists>batch rest. q = batch @ rest \<and> batch \<noteq> [] \<and> pending_write_batch cfg q = (batch, int (length (stream batch)))
    \<and> queue_ok futs batch \<and> queue_ok futs rest \<and> (\<forall>ck \<in> set batch. \<not> ck_close ck)
    \<and> stream (data_part q) = stream batch @ stream (data_part rest)"
proof -
  obtain k where k: "pending_write_batch cfg q = (take k (data_part q), int (length (stream (take k (data_part q)))))"
    using pending_write_batch_prefix by blast
  define batch where "batch = take k (data_part q)"
  have "prefix batch q"
    unfolding batch_def data_part_def
    by (meson prefix_order.trans take_is_prefix takeWhile_is_prefix)
  then obtain rest where q: "q = batch @ rest" by (auto simp: prefix_def)
  have data: "\<forall>ck \<in> set batch. \<not> ck_close ck"
    by (auto simp: batch_def data_part_def dest!: in_set_takeD set_takeWhileD)
  have "stream (data_part q) = stream batch @ stream (data_part rest)"
    unfolding q data_part_append[OF data] by simp
  moreover have "batch \<noteq> []" using pending_write_batch_nonempty[OF assms(2,3), of cfg] k by (simp add: batch_def)
  moreover have "queue_ok futs batch" "queue_ok futs rest"
    using assms(1) unfolding q queue_ok_append by blast+
  ultimately show ?thesis using q data k unfolding batch_def[symmetric] by blast
qed

lemma send_loop_iteration:
  assumes "passive_listeners E" "send_ok (k_send (e_kernel E) c)"
    and "queue_ok (w_futs w) q" "views c v q w" "q \<noteq> []" "\<not> ck_close (hd q)"
  shows "\<exists>batch rest n k. q = batch @ rest \<and> batch \<noteq> [] \<and> n \<le> length (stream batch)
    \<and> stream (data_part q) = stream batch @ stream (data_part rest)
    \<and> (if n < length (stream batch)
       then refuses E c w \<and> \<not> ck_close (hd (fst (advance n q)))
          \<and> (\<exists>v'. views c v' (fst (advance n q)) (sent_world c q n k w)
              \<and> send_loop E th c v w = (Ret (), set_pendings c v' (sent_world c q n k w)))
       else fst (advance n q) = rest
          \<and> send_loop E th c v w = send_loop E th c (Own rest) (sent_world c q n k w))"
proof -
  obtain batch rest where q: "q = batch @ rest" "batch \<noteq> []"
    and pwb: "pending_write_batch (e_cfg E) q = (batch, int (length (stream batch)))"
    and ok: "queue_ok (w_futs w) batch" "queue_ok (w_futs w) rest"
    and data: "\<forall>ck \<in> set batch. \<not> ck_close ck"
    and dp: "stream (data_part q) = stream batch @ stream (data_part rest)"
    using send_loop_batch[OF assms(3,5,6)] by blast
  obtain n k where ts: "try_send E c (stream batch) w = (Ret (drop n (stream batch)),
      upd_chan c (\<lambda>ch. ch\<lparr>c_wire := c_wire ch @ take n (stream batch)\<rparr>) (w\<lparr>w_kcalls := k\<rparr>))"
    and n: "n \<le> length (stream batch)" and ref: "n < length (stream batch) \<Longrightarrow> refuses E c w"
    using try_send_spec[OF assms(2)] by blast
  have adv: "advance n q = (fst (advance n batch) @ rest, snd (advance n batch))"
    unfolding q(1) by (rule advance_append[OF ok(2) data n])
  have tk: "take n (stream q) = take n (stream batch)" using n by (simp add: q(1))
  have sent: "int (length (stream batch)) - int (length (drop n (stream batch))) = int n" using n by simp
  let ?w1 = "(upd_chan c (\<lambda>ch. ch\<lparr>c_wire := c_wire ch @ take n (stream batch)\<rparr>) (w\<lparr>w_kcalls := k\<rparr>))
      \<lparr>w_sent := w_sent w + int n\<rparr>"
  let ?w2 = "upd_chan c (\<lambda>ch. ch\<lparr>c_pending_bytes := c_pending_bytes ch - int n\<rparr>) ?w1"
  have w2: "?w2\<lparr>w_futs := complete_all (snd (advance n batch)) (w_futs w)\<rparr> = sent_world c q n k w"
    by (simp add: sent_world_def upd_chan_def adv tk)
  have view: "views c v q w'" if "w_chans w' = w_chans (sent_world c q n k w)" for w'
    by (rule views_frame[OF assms(4)]) (simp_all add: that sent_world_def)
  have loop: "send_loop E th c v w =
      (if int n \<le> 0 then (Ret (), set_pendings c v ?w2)
       else andThen (complete_batch E th batch (int n) 0 ?w2) (\<lambda>(completed, part) w.
         if completed < length batch
         then (Ret (), set_pendings c (Own (trim_chunks completed part (chunks_val c v w))) w)
         else send_loop E th c (Own (trim_chunks completed part (chunks_val c v w))) w))"
    using assms(5,6) q(2) pwb ts sent
    by (subst send_loop.simps)
      (simp add: pop_empty_ok[OF assms(3,4)] views_val[OF assms(4)] stream_def[symmetric] Let_def)
  obtain part where cb: "complete_batch E th batch (int n) 0 ?w2 =
      (Ret (length (snd (advance n batch)), part), sent_world c q n k w)"
    and trim: "\<forall>rest. trim_chunks (length (snd (advance n batch))) part (batch @ rest)
        = fst (advance n batch) @ rest"
    using complete_batch_advance[OF assms(1), of ?w2 batch th n 0] ok(1) data w2 by auto
  have val: "chunks_val c v (sent_world c q n k w) = batch @ rest"
    using views_val[OF view] q(1) by simp
  have whole: "fst (advance n batch) = [] \<longleftrightarrow> n = length (stream batch)"
    by (rule advance_whole[OF ok(1) data n])
  have shorter: "length (snd (advance n batch)) < length batch \<longleftrightarrow> fst (advance n batch) \<noteq> []"
    using advance_lengths[of n batch] by (metis length_greater_0_conv less_add_same_cancel1)
  have result: "send_loop E th c v w =
      (if n = 0 then (Ret (), set_pendings c v (sent_world c q 0 k w))
       else if n < length (stream batch)
       then (Ret (), set_pendings c (Own (fst (advance n q))) (sent_world c q n k w))
       else send_loop E th c (Own rest) (sent_world c q n k w))"
  proof (cases "n = 0")
    case True
    have "?w2 = sent_world c q 0 k w"
      using True advance_0[OF assms(3)] by (simp add: sent_world_def upd_chan_def)
    with True loop show ?thesis by simp
  next
    case False
    with loop cb val trim whole shorter adv n show ?thesis by auto
  qed
  have hd: "\<not> ck_close (hd (fst (advance n q)))" if lt: "n < length (stream batch)"
  proof -
    from lt whole have ne: "fst (advance n batch) \<noteq> []" by simp
    then have "\<not> ck_close (hd (fst (advance n batch)))"
      using advance_data_left[OF hd_in_set] data by blast
    with ne show ?thesis by (simp add: adv)
  qed
  have views0: "views c v (fst (advance 0 q)) (sent_world c q 0 k w)"
    using view[of "sent_world c q 0 k w"] advance_0[OF assms(3)]
    by (simp add: views_frame[OF assms(4)] sent_world_def)
  show ?thesis
  proof (intro exI conjI)
    show "if n < length (stream batch)
       then refuses E c w \<and> \<not> ck_close (hd (fst (advance n q)))
          \<and> (\<exists>v'. views c v' (fst (advance n q)) (sent_world c q n k w)
              \<and> send_loop E th c v w = (Ret (), set_pendings c v' (sent_world c q n k w)))
       else fst (advance n q) = rest
          \<and> send_loop E th c v w = send_loop E th c (Own rest) (sent_world c q n k w)"
    proof (cases "n < length (stream batch)")
      case True
      have "\<exists>v'. views c v' (fst (advance n q)) (sent_world c q n k w)
          \<and> send_loop E th c v w = (Ret (), set_pendings c v' (sent_world c q n k w))"
      proof (cases "n = 0")
        case True
        with result views0 show ?thesis by (intro exI[of _ v]) simp
      next
        case False
        with \<open>n < length (stream batch)\<close> result show ?thesis
          by (intro exI[of _ "Own (fst (advance n q))"]) simp
      qed
      with True show ?thesis using ref hd by simp
    next
      case False
      moreover have "0 < length (stream batch)"
        using q(2) ok(1) data by (cases batch) (auto simp: queue_ok_Cons)
      ultimately show ?thesis using result whole n adv by auto
    qed
  qed (use q n dp in auto)
qed

text \<open>The whole loop is one advance of the queue, which stops short of the data in front of
  the first close indicator only when the kernel refused some bytes.\<close>

lemma send_loop_advance:
  assumes "passive_listeners E" "send_ok (k_send (e_kernel E) c)"
    and "queue_ok (w_futs w) q" "views c v q w"
  shows "\<exists>n k. n \<le> length (stream (data_part q)) \<and> sent_result E th c q n k w (send_loop E th c v w)
    \<and> (n < length (stream (data_part q)) \<longrightarrow> refuses E c w)"
  using assms(3,4)
proof (induction "length q" arbitrary: q v w rule: less_induct)
  case less
  consider (empty) "q = []" | (close) "q \<noteq> []" "ck_close (hd q)" | (data) "q \<noteq> []" "\<not> ck_close (hd q)"
    by blast
  then show ?case
  proof cases
    case empty
    with less.prems show ?thesis
      by (intro exI[of _ 0] exI[of _ "w_kcalls w"])
        (auto simp: sent_result_def sent_world_0 send_loop.simps[of E th c v w] views_val)
  next
    case close
    then have "data_part q = []" by (cases q) auto
    moreover have "send_loop E th c v w = close_channel_internally E th c ''chunk with close indicator'' None w"
      using close by (subst send_loop.simps)
        (simp add: pop_empty_ok[OF less.prems] views_val[OF less.prems(2)])
    ultimately show ?thesis using close less.prems
      by (intro exI[of _ 0] exI[of _ "w_kcalls w"])
        (auto simp: sent_result_def sent_world_0 advance_0)
  next
    case data
    obtain batch rest n k where it: "q = batch @ rest" "batch \<noteq> []" "n \<le> length (stream batch)"
      "stream (data_part q) = stream batch @ stream (data_part rest)"
      "if n < length (stream batch)
       then refuses E c w \<and> \<not> ck_close (hd (fst (advance n q)))
          \<and> (\<exists>v'. views c v' (fst (advance n q)) (sent_world c q n k w)
              \<and> send_loop E th c v w = (Ret (), set_pendings c v' (sent_world c q n k w)))
       else fst (advance n q) = rest
          \<and> send_loop E th c v w = send_loop E th c (Own rest) (sent_world c q n k w)"
      using send_loop_iteration[OF assms(1,2) less.prems data] by blast
    show ?thesis
    proof (cases "n < length (stream batch)")
      case True
      with it show ?thesis
        by (intro exI[of _ n] exI[of _ k]) (auto simp: sent_result_def Let_def)
    next
      case False
      with it have whole: "n = length (stream batch)" "fst (advance n q) = rest"
        "send_loop E th c v w = send_loop E th c (Own rest) (sent_world c q n k w)" by auto
      let ?w = "sent_world c q n k w"
      have nd: "n \<le> length (stream (data_part q))" using it(4) whole(1) by simp
      have "queue_ok (w_futs ?w) rest"
        using queue_ok_advance[OF less.prems(1), of n] whole(2) by (simp add: sent_world_def)
      moreover have "length rest < length q" using it(1,2) by simp
      ultimately obtain m k' where IH: "m \<le> length (stream (data_part rest))"
        "sent_result E th c rest m k' ?w (send_loop E th c (Own rest) ?w)"
        "m < length (stream (data_part rest)) \<longrightarrow> refuses E c ?w"
        using less.hyps[of rest ?w "Own rest"] by auto
      have "sent_result E th c q (n + m) k' w (send_loop E th c v w)"
        using IH(2) sent_world_add[OF nd, of c m k' k w] advance_add[of n m q] whole(2,3)
        by (simp add: sent_result_def)
      moreover have "refuses E c ?w \<longleftrightarrow> refuses E c w"
        by (simp add: refuses_def sock_send_def sent_world_def)
      ultimately show ?thesis using IH it(4) whole(1)
        by (intro exI[of _ "n + m"] exI[of _ k']) auto
    qed
  qed
qed

lemma pending_write_batch_spec:
  "(\<exists>k. pending_write_batch cfg q = (take k (data_part q), int (length (stream (take k (data_part q))))))
    \<and> (snd (pending_write_batch cfg q) \<le> cfg_high cfg \<or> length (fst (pending_write_batch cfg q)) \<le> 1)
    \<and> (fst (pending_write_batch cfg q) = [] \<longleftrightarrow> data_part q = [])"
proof (intro conjI pending_write_batch_prefix)
  show "snd (pending_write_batch cfg q) \<le> cfg_high cfg \<or> length (fst (pending_write_batch cfg q)) \<le> 1"
    unfolding pending_write_batch_def by (rule write_batch_loop_bound) simp_all
  show "fst (pending_write_batch cfg q) = [] \<longleftrightarrow> data_part q = []"
    using pending_write_batch_prefix[of cfg q] pending_write_batch_nonempty[of q cfg]
    by (cases q) (auto simp: data_part_def)
qed

lemma send_pending_chunks_advance:
  assumes "passive_listeners E" "send_ok (k_send (e_kernel E) c)"
    and "queue_ok (w_futs w) (c_pendings (w_chans w c))"
  shows "\<exists>n k. n \<le> length (stream (data_part (c_pendings (w_chans w c))))
    \<and> sent_result E th c (c_pendings (w_chans w c)) n k w (send_pending_chunks E th c w)
    \<and> (n < length (stream (data_part (c_pendings (w_chans w c)))) \<longrightarrow> refuses E c w)"
  unfolding send_pending_chunks_def
  using assms by (intro send_loop_advance) (simp_all add: views_def)

end
