(* ===== verification/Writing.thy ===== *)
theory Writing
  imports Sending
begin

text \<open>
  The interest flags and \<open>write\<close> in the event loop's own thread, and the life of the bytes
  of a channel over any sequence of writes and flushes: what the kernel has taken,
  followed by what is queued, is what was written, in order.
\<close>

section \<open>Interest flags in the loop's thread\<close>

text \<open>Two worlds that differ in the selector and the count of kernel calls only.\<close>

definition selector_frame :: "world \<Rightarrow> world \<Rightarrow> bool" where
  "selector_frame w w' \<longleftrightarrow> w' = w\<lparr>w_selector := w_selector w', w_kcalls := w_kcalls w'\<rparr>"

lemma selector_frame_sel:
  "selector_frame w w"
  "selector_frame w (snd (sel_register E fd ev w))"
  "selector_frame w (snd (sel_unregister fd w))"
  "selector_frame w (snd (sel_modify E fd ev w))"
  by (auto simp: selector_frame_def sel_register_def sel_unregister_def sel_modify_def tick_def
      split: option.splits)

lemma sel_no_diverge:
  "fst (sel_register E fd ev w) \<noteq> Diverge" "fst (sel_unregister fd w) \<noteq> Diverge"
  "fst (sel_modify E fd ev w) \<noteq> Diverge" "fst (sel_get_key fd w) \<noteq> Diverge"
  by (auto simp: sel_register_def sel_unregister_def sel_modify_def sel_get_key_def split: option.splits)

lemma modify_flag_in_loop:
  assumes "in_eventloop th w"
  shows "selector_frame w (snd (modify_flag E th c w))" "fst (modify_flag E th c w) \<noteq> Diverge"
  using assms by (auto simp: modify_flag_def Let_def selector_frame_sel sel_no_diverge
      split: outcome.splits exn.splits)

lemma flag_step_in_loop:
  assumes "in_eventloop th w"
  shows "\<exists>s k. handling (modify_flag E th c (upd_chan c g w)) (\<lambda>_ w. (Ret (), w)) =
    (Ret (), upd_chan c g (w\<lparr>w_selector := s, w_kcalls := k\<rparr>))"
proof -
  let ?r = "modify_flag E th c (upd_chan c g w)"
  have "in_eventloop th (upd_chan c g w)" using assms by (simp add: in_eventloop_def)
  note m = modify_flag_in_loop[OF this, of E c]
  have "snd ?r = upd_chan c g (w\<lparr>w_selector := w_selector (snd ?r), w_kcalls := w_kcalls (snd ?r)\<rparr>)"
    using m(1) unfolding selector_frame_def by simp
  moreover have "handling ?r (\<lambda>_ w. (Ret (), w)) = (Ret (), snd ?r)"
    using m(2) by (cases ?r; cases "fst ?r") auto
  ultimately show ?thesis by metis
qed

text \<open>In the loop's thread a change of interest returns normally and touches only the flag,
  the selector and the count of kernel calls.\<close>

lemma flags_in_loop:
  assumes "in_eventloop th w"
  shows "\<exists>x s k. add_flag E th c fl w =
      (Ret (), upd_chan c (\<lambda>ch. ch\<lparr>c_flag := x\<rparr>) (w\<lparr>w_selector := s, w_kcalls := k\<rparr>))"
    and "\<exists>x s k. remove_flag E th c fl w =
      (Ret (), upd_chan c (\<lambda>ch. ch\<lparr>c_flag := x\<rparr>) (w\<lparr>w_selector := s, w_kcalls := k\<rparr>))"
proof -
  have same: "(Ret (), w) = (Ret (), upd_chan c (\<lambda>ch. ch\<lparr>c_flag := c_flag (w_chans w c)\<rparr>)
      (w\<lparr>w_selector := w_selector w, w_kcalls := w_kcalls w\<rparr>))"
    by simp
  have const: "upd_chan c (\<lambda>ch. ch\<lparr>c_flag := g (c_flag ch)\<rparr>) v =
      upd_chan c (\<lambda>ch. ch\<lparr>c_flag := g (c_flag (w_chans v c))\<rparr>) v" for g v
    by (simp add: upd_chan_def)
  have step: "\<exists>x s k. handling (modify_flag E th c (upd_chan c (\<lambda>ch. ch\<lparr>c_flag := g (c_flag ch)\<rparr>) w))
      (\<lambda>_ w. (Ret (), w)) = (Ret (), upd_chan c (\<lambda>ch. ch\<lparr>c_flag := x\<rparr>) (w\<lparr>w_selector := s, w_kcalls := k\<rparr>))" for g
    using flag_step_in_loop[OF assms, of E c "\<lambda>ch. ch\<lparr>c_flag := g (c_flag ch)\<rparr>"] const[of g] by metis
  show "\<exists>x s k. add_flag E th c fl w =
      (Ret (), upd_chan c (\<lambda>ch. ch\<lparr>c_flag := x\<rparr>) (w\<lparr>w_selector := s, w_kcalls := k\<rparr>))"
    using assms step[of "\<lambda>x. x OR fl"] same unfolding add_flag_def by metis
  show "\<exists>x s k. remove_flag E th c fl w =
      (Ret (), upd_chan c (\<lambda>ch. ch\<lparr>c_flag := x\<rparr>) (w\<lparr>w_selector := s, w_kcalls := k\<rparr>))"
    using assms step[of "\<lambda>x. x AND NOT fl"] same unfolding remove_flag_def by metis
qed

section \<open>Writing in the loop's thread\<close>

definition chan_bytes :: "cid \<Rightarrow> world \<Rightarrow> bytes" where
  "chan_bytes c w = c_wire (w_chans w c) @ stream (c_pendings (w_chans w c))"

definition accounted :: "cid \<Rightarrow> world \<Rightarrow> bool" where
  "accounted c w \<longleftrightarrow> c_pending_bytes (w_chans w c) = int (length (stream (c_pendings (w_chans w c))))"

text \<open>The state after a write of \<open>buf\<close> on channel \<open>c\<close> of which the kernel took \<open>n\<close> bytes: the
  tail, if any, is queued with the future \<open>cf\<close>.\<close>

definition write_tail :: "nat \<Rightarrow> bytes \<Rightarrow> fid \<Rightarrow> chunk list" where
  "write_tail n buf cf =
     (if n < length buf then [\<lparr>ck_buffer = drop n buf, ck_future = cf, ck_close = False\<rparr>] else [])"

definition written :: "cid \<Rightarrow> nat \<Rightarrow> bytes \<Rightarrow> fid \<Rightarrow> chan \<Rightarrow> chan" where
  "written c n buf cf ch = ch\<lparr>c_wire := c_wire ch @ take n buf,
     c_pendings := c_pendings ch @ write_tail n buf cf,
     c_pending_bytes := c_pending_bytes ch + int (length buf - n)\<rparr>"

lemma add_pending_in_loop:
  assumes "in_eventloop th w" "ck_close ck \<or> ck_buffer ck \<noteq> []"
  shows "\<exists>x s k. add_pending E th c (Some ck) w =
    (Ret (), upd_chan c (\<lambda>ch. ch\<lparr>c_pendings := c_pendings ch @ [ck],
       c_pending_bytes := c_pending_bytes ch + int (length (ck_buffer ck)), c_flag := x\<rparr>)
       (w\<lparr>w_selector := s, w_kcalls := k\<rparr>))"
proof -
  let ?g = "\<lambda>ch. ch\<lparr>c_pendings := c_pendings ch @ [ck],
       c_pending_bytes := c_pending_bytes ch + int (length (ck_buffer ck))\<rparr>"
  have "in_eventloop th (upd_chan c ?g w)" using assms(1) by (simp add: in_eventloop_def)
  from flags_in_loop(1)[OF this, of E c EVENT_WRITE] obtain x s k where
    "add_flag E th c EVENT_WRITE (upd_chan c ?g w) =
      (Ret (), upd_chan c (\<lambda>ch. ch\<lparr>c_flag := x\<rparr>) ((upd_chan c ?g w)\<lparr>w_selector := s, w_kcalls := k\<rparr>))"
    by blast
  moreover have "upd_chan c (\<lambda>ch. ch\<lparr>c_flag := x\<rparr>) ((upd_chan c ?g w)\<lparr>w_selector := s, w_kcalls := k\<rparr>)
      = upd_chan c (\<lambda>ch. ch\<lparr>c_pendings := c_pendings ch @ [ck],
          c_pending_bytes := c_pending_bytes ch + int (length (ck_buffer ck)), c_flag := x\<rparr>)
       (w\<lparr>w_selector := s, w_kcalls := k\<rparr>)"
    by (simp add: upd_chan_def)
  ultimately have "add_pending E th c (Some ck) w =
    (Ret (), upd_chan c (\<lambda>ch. ch\<lparr>c_pendings := c_pendings ch @ [ck],
       c_pending_bytes := c_pending_bytes ch + int (length (ck_buffer ck)), c_flag := x\<rparr>)
       (w\<lparr>w_selector := s, w_kcalls := k\<rparr>))"
    using assms(2) by (auto simp: add_pending_def)
  then show ?thesis by blast
qed

lemma add_data_in_loop:
  assumes "in_eventloop th w" "n < length buf"
  shows "\<exists>x s k. add_pending E th c (Some \<lparr>ck_buffer = drop n buf, ck_future = cf, ck_close = False\<rparr>)
      (upd_chan c (\<lambda>ch. ch\<lparr>c_wire := c_wire ch @ take n buf\<rparr>) w) =
    (Ret (), upd_chan c (\<lambda>ch. (written c n buf cf ch)\<lparr>c_flag := x\<rparr>) (w\<lparr>w_selector := s, w_kcalls := k\<rparr>))"
proof -
  let ?ck = "\<lparr>ck_buffer = drop n buf, ck_future = cf, ck_close = False\<rparr>"
    and ?w = "upd_chan c (\<lambda>ch. ch\<lparr>c_wire := c_wire ch @ take n buf\<rparr>) w"
  have "in_eventloop th ?w" "ck_close ?ck \<or> ck_buffer ?ck \<noteq> []"
    using assms by (simp_all add: in_eventloop_def)
  from add_pending_in_loop[OF this, of E c] obtain x s k where
    "add_pending E th c (Some ?ck) ?w =
      (Ret (), upd_chan c (\<lambda>ch. ch\<lparr>c_pendings := c_pendings ch @ [?ck],
        c_pending_bytes := c_pending_bytes ch + int (length (ck_buffer ?ck)), c_flag := x\<rparr>)
       (?w\<lparr>w_selector := s, w_kcalls := k\<rparr>))"
    by blast
  moreover have "\<dots> = (Ret (), upd_chan c (\<lambda>ch. (written c n buf cf ch)\<lparr>c_flag := x\<rparr>)
      (w\<lparr>w_selector := s, w_kcalls := k\<rparr>))"
    using assms(2) by (simp add: upd_chan_def written_def write_tail_def)
  ultimately show ?thesis by metis
qed

text \<open>A write in the loop's thread: the kernel takes a prefix if the channel is active with
  nothing queued, and none of it otherwise; the future is completed when all of it went
  out that way.\<close>

lemma channel_write_in_loop:
  assumes "passive_listeners E" "send_ok (k_send (e_kernel E) c)" "in_eventloop th w"
    and "w_futs w cf = FPending"
  shows "\<exists>n x s k. n \<le> length buf
    \<and> (if is_active c w \<and> \<not> has_pendings c w then n < length buf \<longrightarrow> refuses E c w else n = 0)
    \<and> channel_write E th c buf (Some cf) w =
      (Ret cf, upd_chan c (\<lambda>ch. (written c n buf cf ch)\<lparr>c_flag := x\<rparr>)
       (w\<lparr>w_selector := s, w_kcalls := k,
          w_futs := if is_active c w \<and> \<not> has_pendings c w \<and> n = length buf
                    then (w_futs w)(cf := FResult VTrue) else w_futs w\<rparr>))"
proof (cases "is_active c w \<and> \<not> has_pendings c w")
  case True
  obtain n k where ts: "try_send E c buf w = (Ret (drop n buf),
      upd_chan c (\<lambda>ch. ch\<lparr>c_wire := c_wire ch @ take n buf\<rparr>) (w\<lparr>w_kcalls := k\<rparr>))"
    and n: "n \<le> length buf" "n < length buf \<longrightarrow> refuses E c w"
    using try_send_spec[OF assms(2)] by blast
  have loop: "in_eventloop th (w\<lparr>w_kcalls := k\<rparr>)" using assms(3) by (simp add: in_eventloop_def)
  show ?thesis
  proof (cases "n < length buf")
    case False
    with n have "n = length buf" by simp
    let ?w = "upd_chan c (\<lambda>ch. ch\<lparr>c_wire := c_wire ch @ take n buf\<rparr>) (w\<lparr>w_kcalls := k\<rparr>)"
    have "fut_set_result E cf VTrue th ?w = (Ret (), ?w\<lparr>w_futs := (w_futs w)(cf := FResult VTrue)\<rparr>)"
      using assms(4) by (simp add: fut_set_result_def fut_complete_passive[OF assms(1)] fut_done_def)
    then have "channel_write E th c buf (Some cf) w = (Ret cf, ?w\<lparr>w_futs := (w_futs w)(cf := FResult VTrue)\<rparr>)"
      using ts True assms(3) \<open>n = length buf\<close> unfolding channel_write_def by (simp del: upd_chan_push)
    also have "?w\<lparr>w_futs := (w_futs w)(cf := FResult VTrue)\<rparr> =
      upd_chan c (\<lambda>ch. (written c n buf cf ch)\<lparr>c_flag := c_flag (w_chans w c)\<rparr>)
       (w\<lparr>w_selector := w_selector w, w_kcalls := k, w_futs := (w_futs w)(cf := FResult VTrue)\<rparr>)"
      using \<open>n = length buf\<close> by (simp add: upd_chan_def written_def write_tail_def)
    finally have "channel_write E th c buf (Some cf) w =
      (Ret cf, upd_chan c (\<lambda>ch. (written c n buf cf ch)\<lparr>c_flag := c_flag (w_chans w c)\<rparr>)
       (w\<lparr>w_selector := w_selector w, w_kcalls := k, w_futs := (w_futs w)(cf := FResult VTrue)\<rparr>))" .
    with True \<open>n = length buf\<close> show ?thesis
      by (intro exI[of _ n] exI[of _ "c_flag (w_chans w c)"] exI[of _ "w_selector w"] exI[of _ k])
        (simp del: upd_chan_push)
  next
    case more: True
    from add_data_in_loop[OF loop this, of E c cf] obtain x s k' where
      add: "add_pending E th c (Some \<lparr>ck_buffer = drop n buf, ck_future = cf, ck_close = False\<rparr>)
          (upd_chan c (\<lambda>ch. ch\<lparr>c_wire := c_wire ch @ take n buf\<rparr>) (w\<lparr>w_kcalls := k\<rparr>)) =
        (Ret (), upd_chan c (\<lambda>ch. (written c n buf cf ch)\<lparr>c_flag := x\<rparr>)
          (w\<lparr>w_kcalls := k\<rparr>\<lparr>w_selector := s, w_kcalls := k'\<rparr>))"
      by blast
    have "channel_write E th c buf (Some cf) w =
      (Ret cf, upd_chan c (\<lambda>ch. (written c n buf cf ch)\<lparr>c_flag := x\<rparr>) (w\<lparr>w_selector := s, w_kcalls := k'\<rparr>))"
      using True more assms(3) by (simp add: channel_write_def ts add)
    moreover have "w\<lparr>w_selector := s, w_kcalls := k'\<rparr> = w\<lparr>w_selector := s, w_kcalls := k',
        w_futs := if is_active c w \<and> \<not> has_pendings c w \<and> n = length buf
                  then (w_futs w)(cf := FResult VTrue) else w_futs w\<rparr>"
      using more by simp
    ultimately show ?thesis using n True by metis
  qed
next
  case False
  have "\<exists>x s k. channel_write E th c buf (Some cf) w =
      (Ret cf, upd_chan c (\<lambda>ch. (written c 0 buf cf ch)\<lparr>c_flag := x\<rparr>) (w\<lparr>w_selector := s, w_kcalls := k\<rparr>))"
  proof (cases "buf = []")
    case True
    with False assms(3) have "channel_write E th c buf (Some cf) w =
      (Ret cf, upd_chan c (\<lambda>ch. (written c 0 buf cf ch)\<lparr>c_flag := c_flag (w_chans w c)\<rparr>)
       (w\<lparr>w_selector := w_selector w, w_kcalls := w_kcalls w\<rparr>))"
      by (auto simp: channel_write_def add_pending_def written_def write_tail_def)
    then show ?thesis by blast
  next
    case ne: False
    then obtain x s k where
      "add_pending E th c (Some \<lparr>ck_buffer = buf, ck_future = cf, ck_close = False\<rparr>) w =
        (Ret (), upd_chan c (\<lambda>ch. (written c 0 buf cf ch)\<lparr>c_flag := x\<rparr>) (w\<lparr>w_selector := s, w_kcalls := k\<rparr>))"
      using add_data_in_loop[OF assms(3), of 0 buf E c cf] by auto
    with False assms(3) show ?thesis by (auto simp: channel_write_def)
  qed
  then obtain x s k where "channel_write E th c buf (Some cf) w =
      (Ret cf, upd_chan c (\<lambda>ch. (written c 0 buf cf ch)\<lparr>c_flag := x\<rparr>) (w\<lparr>w_selector := s, w_kcalls := k\<rparr>))"
    by blast
  moreover have "w\<lparr>w_selector := s, w_kcalls := k\<rparr> = w\<lparr>w_selector := s, w_kcalls := k,
      w_futs := if is_active c w \<and> \<not> has_pendings c w \<and> 0 = length buf
                then (w_futs w)(cf := FResult VTrue) else w_futs w\<rparr>"
    using False by auto
  ultimately show ?thesis using False by (metis le0)
qed

section \<open>Sequences of writes and flushes\<close>

text \<open>A flush is a pass of \<open>_send_pending_chunks\<close>, what the loop does when the socket becomes
  writable.\<close>

datatype io_op = IoWrite bytes | IoFlush

fun io_step :: "env \<Rightarrow> tid \<Rightarrow> cid \<Rightarrow> io_op \<Rightarrow> world \<Rightarrow> world" where
  "io_step E th c (IoWrite buf) w = snd (channel_write E th c buf None w)"
| "io_step E th c IoFlush w = snd (send_pending_chunks E th c w)"

fun io_run :: "env \<Rightarrow> tid \<Rightarrow> cid \<Rightarrow> io_op list \<Rightarrow> world \<Rightarrow> world" where
  "io_run E th c [] w = w"
| "io_run E th c (a # as) w = io_run E th c as (io_step E th c a w)"

fun io_written :: "io_op list \<Rightarrow> bytes" where
  "io_written [] = []"
| "io_written (IoWrite buf # as) = buf @ io_written as"
| "io_written (IoFlush # as) = io_written as"

definition io_ok :: "tid \<Rightarrow> cid \<Rightarrow> world \<Rightarrow> bool" where
  "io_ok th c w \<longleftrightarrow> in_eventloop th w \<and> queue_ok (w_futs w) (c_pendings (w_chans w c))
     \<and> (\<forall>ck \<in> set (c_pendings (w_chans w c)). \<not> ck_close ck \<and> ck_future ck < w_next_fid w)
     \<and> accounted c w"

lemma data_part_all: "\<forall>ck \<in> set q. \<not> ck_close ck \<Longrightarrow> data_part q = q"
  by (simp add: data_part_def)

lemma queue_ok_mono:
  "queue_ok futs q \<Longrightarrow> \<forall>ck \<in> set q. futs' (ck_future ck) = futs (ck_future ck) \<Longrightarrow> queue_ok futs' q"
  by (auto simp: queue_ok_def)

lemma queue_ok_snoc:
  assumes "queue_ok futs q" "\<forall>ck \<in> set q. ck_future ck \<noteq> cf" "n < length buf \<longrightarrow> futs cf = FPending"
  shows "queue_ok futs (q @ write_tail n buf cf)"
  using assms by (auto simp: queue_ok_append write_tail_def queue_ok_def)

lemma stream_write_tail: "n \<le> length buf \<Longrightarrow> stream (write_tail n buf cf) = drop n buf"
  by (simp add: write_tail_def)

lemma channel_write_fresh:
  "channel_write E th c buf None w =
     channel_write E th c buf (Some (w_next_fid w)) (snd (new_future w))"
  by (simp add: channel_write_def new_future_def)

text \<open>A write with a future of its own, as the task of another thread's write makes it.\<close>

lemma io_write_given:
  assumes "passive_listeners E" "send_ok (k_send (e_kernel E) c)" "io_ok th c w" "w_futs w cf = FPending"
    and "cf < w_next_fid w" "\<forall>ck \<in> set (c_pendings (w_chans w c)). ck_future ck \<noteq> cf"
  shows "\<exists>w'. channel_write E th c buf (Some cf) w = (Ret cf, w') \<and> io_ok th c w'
    \<and> chan_bytes c w' = chan_bytes c w @ buf
    \<and> (\<forall>f. f \<noteq> cf \<longrightarrow> w_futs w' f = w_futs w f) \<and> w_next_fid w' = w_next_fid w \<and> w_taskq w' = w_taskq w
    \<and> ck_future ` set (c_pendings (w_chans w' c)) \<subseteq> insert cf (ck_future ` set (c_pendings (w_chans w c)))"
proof -
  let ?q = "c_pendings (w_chans w c)"
  note ok = assms(3)[unfolded io_ok_def]
  have loop: "in_eventloop th w" using ok by blast
  obtain n x s k where n: "n \<le> length buf"
    and idle: "if is_active c w \<and> \<not> has_pendings c w then n < length buf \<longrightarrow> refuses E c w else n = 0"
    and r: "channel_write E th c buf (Some cf) w =
      (Ret cf, upd_chan c (\<lambda>ch. (written c n buf cf ch)\<lparr>c_flag := x\<rparr>)
       (w\<lparr>w_selector := s, w_kcalls := k,
          w_futs := if is_active c w \<and> \<not> has_pendings c w \<and> n = length buf
                    then (w_futs w)(cf := FResult VTrue) else w_futs w\<rparr>))"
    using channel_write_in_loop[OF assms(1,2) loop assms(4), of buf] by blast
  define w' where "w' = snd (channel_write E th c buf (Some cf) w)"
  have futs: "w_futs w' = (if is_active c w \<and> \<not> has_pendings c w \<and> n = length buf
        then (w_futs w)(cf := FResult VTrue) else w_futs w)"
    and chan: "w_chans w' c = (written c n buf cf (w_chans w c))\<lparr>c_flag := x\<rparr>"
    and frame: "w_next_fid w' = w_next_fid w" "in_eventloop th w'" "w_taskq w' = w_taskq w"
    using loop by (simp_all add: w'_def r in_eventloop_def)
  have pend: "c_pendings (w_chans w' c) = ?q @ write_tail n buf cf"
    and wire: "c_wire (w_chans w' c) = c_wire (w_chans w c) @ take n buf"
    and pb: "c_pending_bytes (w_chans w' c) = c_pending_bytes (w_chans w c) + int (length buf - n)"
    using n by (simp_all add: chan written_def)
  have "queue_ok (w_futs w') ?q"
  proof (rule queue_ok_mono)
    show "queue_ok (w_futs w) ?q" using ok by blast
    show "\<forall>ck \<in> set ?q. w_futs w' (ck_future ck) = w_futs w (ck_future ck)"
      using assms(6) by (simp add: futs)
  qed
  moreover have "n < length buf \<longrightarrow> w_futs w' cf = FPending" using assms(4) by (simp add: futs)
  ultimately have qok: "queue_ok (w_futs w') (?q @ write_tail n buf cf)"
    using assms(6) by (intro queue_ok_snoc)
  have tails: "\<forall>ck \<in> set (?q @ write_tail n buf cf). \<not> ck_close ck \<and> ck_future ck < w_next_fid w"
    using ok assms(5) by (auto simp: write_tail_def)
  have acc: "accounted c w'"
    using ok n by (simp add: accounted_def pend pb stream_write_tail of_nat_diff)
  have io: "io_ok th c w'"
    unfolding io_ok_def pend frame(1) using frame(2) qok tails acc by simp
  have "chan_bytes c w' = chan_bytes c w @ buf"
  proof (cases "?q = []")
    case True
    then show ?thesis using n by (simp add: chan_bytes_def pend wire stream_write_tail)
  next
    case False
    with idle have "n = 0" by (auto simp: has_pendings_def)
    then show ?thesis by (simp add: chan_bytes_def pend wire stream_write_tail)
  qed
  moreover have "channel_write E th c buf (Some cf) w = (Ret cf, w')" by (simp add: w'_def r)
  moreover have "\<forall>f. f \<noteq> cf \<longrightarrow> w_futs w' f = w_futs w f" by (simp add: futs)
  moreover have "ck_future ` set (c_pendings (w_chans w' c)) \<subseteq> insert cf (ck_future ` set ?q)"
    by (auto simp: pend write_tail_def)
  ultimately show ?thesis using io frame(1,3) by blast
qed

lemma io_write_ok:
  assumes "passive_listeners E" "send_ok (k_send (e_kernel E) c)" "io_ok th c w"
  shows "io_ok th c (io_step E th c (IoWrite buf) w)"
    and "chan_bytes c (io_step E th c (IoWrite buf) w) = chan_bytes c w @ buf"
proof -
  let ?w1 = "snd (new_future w)"
  note ok = assms(3)[unfolded io_ok_def]
  have "io_ok th c ?w1" and bytes: "chan_bytes c ?w1 = chan_bytes c w"
    using ok by (auto simp: io_ok_def new_future_def in_eventloop_def accounted_def queue_ok_def chan_bytes_def)
  moreover have "w_futs ?w1 (w_next_fid w) = FPending" "w_next_fid w < w_next_fid ?w1"
    "\<forall>ck \<in> set (c_pendings (w_chans ?w1 c)). ck_future ck \<noteq> w_next_fid w"
    using ok by (auto simp: new_future_def)
  ultimately obtain w' where "channel_write E th c buf (Some (w_next_fid w)) ?w1 = (Ret (w_next_fid w), w')"
    "io_ok th c w'" "chan_bytes c w' = chan_bytes c ?w1 @ buf"
    using io_write_given[OF assms(1,2), of th ?w1 "w_next_fid w" buf] by blast
  then show "io_ok th c (io_step E th c (IoWrite buf) w)"
    "chan_bytes c (io_step E th c (IoWrite buf) w) = chan_bytes c w @ buf"
    by (simp_all add: channel_write_fresh bytes)
qed

lemma io_flush_result:
  assumes "passive_listeners E" "send_ok (k_send (e_kernel E) c)" "io_ok th c w"
  shows "\<exists>n k v. n \<le> length (stream (c_pendings (w_chans w c)))
    \<and> (n < length (stream (c_pendings (w_chans w c))) \<longrightarrow> refuses E c w)
    \<and> views c v (fst (advance n (c_pendings (w_chans w c)))) (sent_world c (c_pendings (w_chans w c)) n k w)
    \<and> send_pending_chunks E th c w =
        (Ret (), set_pendings c v (sent_world c (c_pendings (w_chans w c)) n k w))"
proof -
  let ?q = "c_pendings (w_chans w c)"
  note ok = assms(3)[unfolded io_ok_def]
  have dp: "data_part ?q = ?q" using ok by (simp add: data_part_all)
  obtain n k where n: "n \<le> length (stream ?q)" "n < length (stream ?q) \<longrightarrow> refuses E c w"
    and r: "sent_result E th c ?q n k w (send_pending_chunks E th c w)"
    using send_pending_chunks_advance[OF assms(1,2), of w th] ok unfolding dp by blast
  have "\<not> (fst (advance n ?q) \<noteq> [] \<and> ck_close (hd (fst (advance n ?q))))"
    using advance_data_left[OF hd_in_set] ok by metis
  with r n show ?thesis by (auto simp: sent_result_def Let_def)
qed

lemma io_flush_ok:
  assumes "passive_listeners E" "send_ok (k_send (e_kernel E) c)" "io_ok th c w"
  shows "io_ok th c (io_step E th c IoFlush w)"
    and "chan_bytes c (io_step E th c IoFlush w) = chan_bytes c w"
proof -
  let ?q = "c_pendings (w_chans w c)"
  note ok = assms(3)[unfolded io_ok_def]
  obtain n k v where n: "n \<le> length (stream ?q)"
    and v: "views c v (fst (advance n ?q)) (sent_world c ?q n k w)"
    and r: "send_pending_chunks E th c w = (Ret (), set_pendings c v (sent_world c ?q n k w))"
    using io_flush_result[OF assms] by blast
  define w' where "w' = io_step E th c IoFlush w"
  have pend: "c_pendings (w_chans w' c) = fst (advance n ?q)"
    using set_pendings_views[OF v] r by (simp add: w'_def)
  have frame: "w_futs w' = complete_all (snd (advance n ?q)) (w_futs w)"
    "w_next_fid w' = w_next_fid w" "w_thread w' = w_thread w"
    "c_wire (w_chans w' c) = c_wire (w_chans w c) @ take n (stream ?q)"
    "c_pending_bytes (w_chans w' c) = c_pending_bytes (w_chans w c) - int n"
    by (cases v; simp add: w'_def r set_pendings_def sent_world_def replace_pendings_def)+
  have str: "stream (fst (advance n ?q)) = drop n (stream ?q)"
    using n ok by (intro stream_advance) (simp add: data_part_all)
  have left: "\<forall>ck \<in> set (fst (advance n ?q)). \<not> ck_close ck \<and> ck_future ck < w_next_fid w"
    using ok by (auto dest!: advance_data_left)
  have acc: "accounted c w'"
    using ok n by (simp add: accounted_def pend frame str of_nat_diff)
  show "io_ok th c (io_step E th c IoFlush w)"
    unfolding w'_def[symmetric] io_ok_def pend frame(1,2)
    using ok queue_ok_advance[of "w_futs w" ?q n] left acc frame(3) by (simp add: in_eventloop_def)
  have "chan_bytes c w' = chan_bytes c w" by (simp add: chan_bytes_def pend frame str)
  then show "chan_bytes c (io_step E th c IoFlush w) = chan_bytes c w" unfolding w'_def .
qed

lemma io_run_bytes:
  assumes "passive_listeners E" "send_ok (k_send (e_kernel E) c)" "io_ok th c w"
  shows "io_ok th c (io_run E th c as w) \<and>
    chan_bytes c (io_run E th c as w) = chan_bytes c w @ io_written as"
  using assms(3)
proof (induction as arbitrary: w)
  case (Cons a as)
  show ?case
  proof (cases a)
    case (IoWrite buf)
    with Cons.IH[OF io_write_ok(1)[OF assms(1,2) Cons.prems]] io_write_ok(2)[OF assms(1,2) Cons.prems]
    show ?thesis by simp
  next
    case IoFlush
    with Cons.IH[OF io_flush_ok(1)[OF assms(1,2) Cons.prems]] io_flush_ok(2)[OF assms(1,2) Cons.prems]
    show ?thesis by simp
  qed
qed simp

end
