(* ===== verification/Steps.thy ===== *)
theory Steps
  imports EventLoop
begin

text \<open>
  The state machine under the operations.  \<open>step\<close> has one rule for each elementary change
  the code makes to the state, with the guard under which it makes it; every operation of
  channels and of the event loop is a run of such steps, whatever the application's
  callbacks do, as long as they too act on the state through the library.  An invariant
  or a relation between the state before and after is then proved by rule induction on
  \<open>step\<close>, once for all operations.
\<close>

section \<open>Elementary steps\<close>

inductive step :: "world \<Rightarrow> world \<Rightarrow> bool" where
  future_made: "step w (snd (new_future w))"
| channel_made: "c_fileno0 ch > 0 \<Longrightarrow> step w (w\<lparr>w_chans := (w_chans w)(w_next_cid w := ch),
     w_next_cid := Suc (w_next_cid w)\<rparr>)"
| future_completed: "\<not> fut_done w f \<Longrightarrow> st \<noteq> FPending \<Longrightarrow> step w (w\<lparr>w_futs := (w_futs w)(f := st)\<rparr>)"
| listener_added: "\<not> fut_done w f \<Longrightarrow>
     step w (w\<lparr>w_listeners := (w_listeners w)(f := w_listeners w f @ [l])\<rparr>)"
| kernel_called: "w_kcalls w \<le> k \<Longrightarrow> step w (w\<lparr>w_kcalls := k\<rparr>)"
| loop_started: "\<not> w_started w \<Longrightarrow> \<not> w_stop_polling w \<Longrightarrow> \<not> w_closed w \<Longrightarrow>
     step w (w\<lparr>w_thread := Some t, w_started := True\<rparr>)"
| loop_stopping: "step w (w\<lparr>w_stop_polling := True\<rparr>)"
| loop_closed: "step w (w\<lparr>w_closed := True\<rparr>)"
| task_put: "w_started w \<Longrightarrow> \<not> w_stop_polling w \<Longrightarrow> \<not> w_closed w \<Longrightarrow> step w (w\<lparr>w_taskq := w_taskq w @ [t],
     w_tasks_submitted := w_tasks_submitted w + 1\<rparr>)"
| task_taken: "w_taskq w = t # ts \<Longrightarrow> step w (w\<lparr>w_taskq := ts\<rparr>)"
| notified: "step w (w\<lparr>w_eventfd := snd (eventfd_unsafe_write (w_eventfd w))\<rparr>)"
| drained: "ef_pipe (w_eventfd w) \<noteq> [] \<or> ef_write_fd (w_eventfd w) = None \<Longrightarrow>
     step w (w\<lparr>w_eventfd := snd (eventfd_unsafe_read (w_eventfd w))\<rparr>)"
| eventfd_closed: "step w (w\<lparr>w_eventfd := eventfd_close (w_eventfd w)\<rparr>)"
| counted_wakeups: "step w (w\<lparr>w_eventfd_reads := n\<rparr>)"
| counted_accepted: "step w (w\<lparr>w_accepted := n\<rparr>)"
| counted_sent: "step w (w\<lparr>w_sent := n\<rparr>)"
| counted_received: "step w (w\<lparr>w_received := n\<rparr>)"
| counted_registered: "step w (w\<lparr>w_registered := n\<rparr>)"
| counted_processed: "step w (w\<lparr>w_tasks_processed := n\<rparr>)"
| selector_set: "step w (w\<lparr>w_selector := dict_set fd ev (w_selector w)\<rparr>)"
| selector_popped: "step w (w\<lparr>w_selector := dict_pop fd (w_selector w)\<rparr>)"
| selector_closed: "step w (sel_close w)"
| channels_set: "step w (w\<lparr>w_channels := dict_set fd c (w_channels w)\<rparr>)"
| channels_popped: "step w (w\<lparr>w_channels := dict_pop fd (w_channels w)\<rparr>)"
| due_set: "step w (w\<lparr>w_due := dict_set fd m (w_due w)\<rparr>)"
| due_popped: "step w (w\<lparr>w_due := dict_pop fd (w_due w)\<rparr>)"
| callback: "cb \<noteq> ChannelActive \<Longrightarrow> cb \<noteq> ChannelInactive \<Longrightarrow> step w (fired c cb w)"
| activated: "\<not> c_active (w_chans w c) \<Longrightarrow>
     step w (fired c ChannelActive (upd_chan c (\<lambda>ch. ch\<lparr>c_active := True, c_ever_active := True\<rparr>) w))"
| inactivated: "c_active (w_chans w c) \<Longrightarrow>
     step w (fired c ChannelInactive (upd_chan c (\<lambda>ch. ch\<lparr>c_active := False\<rparr>) w))"
| interest: "step w (upd_chan c (\<lambda>ch. ch\<lparr>c_flag := x ch\<rparr>) w)"
| auto_read: "step w (upd_chan c (\<lambda>ch. ch\<lparr>c_auto_read := x ch\<rparr>) w)"
| writability: "step w (upd_chan c (\<lambda>ch. ch\<lparr>c_writable := x ch\<rparr>) w)"
| handshake_done: "step w (upd_chan c (\<lambda>ch. ch\<lparr>c_ssl_complete := True\<rparr>) w)"
| chunk_queued: "step w (upd_chan c (\<lambda>ch. ch\<lparr>c_pendings := c_pendings ch @ [ck],
     c_pending_bytes := c_pending_bytes ch + int (length (ck_buffer ck))\<rparr>) w)"
| bytes_counted: "step w (upd_chan c (\<lambda>ch. ch\<lparr>c_pending_bytes := x ch\<rparr>) w)"
| pendings_replaced: "step w (upd_chan c (\<lambda>ch. replace_pendings (x ch) ch) w)"
| bytes_sent: "bs = [] \<or> \<not> c_sockfd (w_chans w c) < 0 \<Longrightarrow>
     step w (upd_chan c (\<lambda>ch. ch\<lparr>c_wire := c_wire ch @ bs\<rparr>) w)"
| socket_closed: "step w (sock_close c w)"

definition steps :: "world \<Rightarrow> world \<Rightarrow> bool" where
  "steps = step\<^sup>*\<^sup>*"

named_theorems steps_intro \<open>runs of steps, extended by one operation\<close>

lemma steps_refl [simp, steps_intro]: "steps w w"
  by (simp add: steps_def)

lemma steps_trans: "steps w w' \<Longrightarrow> steps w' w'' \<Longrightarrow> steps w w''"
  by (simp add: steps_def)

lemma steps_step: "steps w0 w \<Longrightarrow> step w w' \<Longrightarrow> steps w0 w'"
  by (simp add: steps_def)

text \<open>A reflexive and transitive relation that holds for each step holds for each run, and
  an invariant of the steps is kept by each run.\<close>

lemma steps_relation:
  assumes "steps w w'" "\<And>w. R w w" "\<And>w w' w''. R w w' \<Longrightarrow> R w' w'' \<Longrightarrow> R w w''"
    and "\<And>w w'. step w w' \<Longrightarrow> R w w'"
  shows "R w w'"
  using assms(1) unfolding steps_def
  by (induction rule: rtranclp_induct) (blast intro: assms(2-4))+

lemma steps_invariant:
  assumes "steps w w'" "J w" "\<And>w w'. step w w' \<Longrightarrow> J w \<Longrightarrow> J w'"
  shows "J w'"
  using assms(1,2) unfolding steps_def
  by (induction rule: rtranclp_induct) (blast intro: assms(3))+

section \<open>Runs through sequencing and exception handling\<close>

lemma steps_andThen [steps_intro]:
  assumes "steps w0 (snd r)" "\<And>a w. r = (Ret a, w) \<Longrightarrow> steps w0 w \<Longrightarrow> steps w0 (snd (k a w))"
  shows "steps w0 (snd (andThen r k))"
  using assms by (rule snd_andThenI)

lemma steps_handling [steps_intro]:
  assumes "steps w0 (snd r)" "\<And>e w. r = (Raise e, w) \<Longrightarrow> steps w0 w \<Longrightarrow> steps w0 (snd (h e w))"
  shows "steps w0 (snd (handling r h))"
  using assms by (rule snd_handlingI)

lemma steps_if [steps_intro]:
  "(b \<Longrightarrow> steps w0 (snd x)) \<Longrightarrow> (\<not> b \<Longrightarrow> steps w0 (snd y)) \<Longrightarrow> steps w0 (snd (if b then x else y))"
  by simp

lemma steps_pair [steps_intro]: "steps w0 w \<Longrightarrow> steps w0 (snd (r, w))"
  by simp

section \<open>Elementary updates as runs\<close>

lemma steps_new_future [steps_intro]: "steps w0 w \<Longrightarrow> steps w0 (snd (new_future w))"
  by (blast intro: steps_step step.intros)

lemma steps_tick [steps_intro]: "steps w0 w \<Longrightarrow> steps w0 (tick w)"
  unfolding tick_def by (rule steps_step, assumption, rule step.kernel_called) simp

lemma steps_kcalls [steps_intro]: "steps w0 w \<Longrightarrow> w_kcalls w \<le> k \<Longrightarrow> steps w0 (w\<lparr>w_kcalls := k\<rparr>)"
  by (blast intro: steps_step step.intros)

lemma steps_dicts [steps_intro]:
  assumes "steps w0 w"
  shows "steps w0 (w\<lparr>w_selector := dict_set fd ev (w_selector w)\<rparr>)"
    "steps w0 (w\<lparr>w_selector := dict_pop fd (w_selector w)\<rparr>)"
    "steps w0 (sel_close w)"
    "steps w0 (w\<lparr>w_channels := dict_set fd c (w_channels w)\<rparr>)"
    "steps w0 (w\<lparr>w_channels := dict_pop fd (w_channels w)\<rparr>)"
    "steps w0 (w\<lparr>w_due := dict_set fd m (w_due w)\<rparr>)"
    "steps w0 (w\<lparr>w_due := dict_pop fd (w_due w)\<rparr>)"
  using assms by (blast intro: steps_step step.intros)+

lemma steps_pop_both [steps_intro]:
  assumes "steps w0 w"
  shows "steps w0 (w\<lparr>w_channels := dict_pop fd (w_channels w), w_due := dict_pop fd' (w_due w)\<rparr>)"
  using steps_dicts(7)[OF steps_dicts(5)[OF assms], of fd' fd] by simp

lemma steps_due_pops [steps_intro]: "steps w0 w \<Longrightarrow> steps w0 (w\<lparr>w_due := fold dict_pop fds (w_due w)\<rparr>)"
proof (induction fds arbitrary: w)
  case (Cons fd fds)
  from Cons.IH[OF steps_dicts(7)[OF Cons.prems], of fd] show ?case by simp
qed simp

lemma steps_counters [steps_intro]:
  assumes "steps w0 w"
  shows "steps w0 (w\<lparr>w_eventfd_reads := n\<rparr>)" "steps w0 (w\<lparr>w_accepted := n\<rparr>)"
    "steps w0 (w\<lparr>w_sent := n\<rparr>)" "steps w0 (w\<lparr>w_received := n\<rparr>)"
    "steps w0 (w\<lparr>w_registered := n\<rparr>)" "steps w0 (w\<lparr>w_tasks_processed := n\<rparr>)"
  using assms by (blast intro: steps_step step.intros)+

lemma steps_chan [steps_intro]:
  assumes "steps w0 w"
  shows "steps w0 (upd_chan c (\<lambda>ch. ch\<lparr>c_flag := x1 ch\<rparr>) w)"
    "steps w0 (upd_chan c (\<lambda>ch. ch\<lparr>c_auto_read := x2 ch\<rparr>) w)"
    "steps w0 (upd_chan c (\<lambda>ch. ch\<lparr>c_writable := x3 ch\<rparr>) w)"
    "steps w0 (upd_chan c (\<lambda>ch. ch\<lparr>c_ssl_complete := True\<rparr>) w)"
    "steps w0 (upd_chan c (\<lambda>ch. ch\<lparr>c_pendings := c_pendings ch @ [ck],
       c_pending_bytes := c_pending_bytes ch + int (length (ck_buffer ck))\<rparr>) w)"
    "steps w0 (upd_chan c (\<lambda>ch. ch\<lparr>c_pending_bytes := x4 ch\<rparr>) w)"
    "steps w0 (upd_chan c (\<lambda>ch. replace_pendings (x5 ch) ch) w)"
    "steps w0 (sock_close c w)"
  using assms by (blast intro: steps_step step.intros)+

lemma steps_eventfd [steps_intro]:
  assumes "steps w0 w"
  shows "steps w0 (w\<lparr>w_eventfd := snd (eventfd_unsafe_write (w_eventfd w))\<rparr>)"
    "steps w0 (w\<lparr>w_eventfd := eventfd_close (w_eventfd w)\<rparr>)"
    "steps w0 (w\<lparr>w_stop_polling := True\<rparr>)"
    "steps w0 (w\<lparr>w_closed := True\<rparr>)"
  using assms by (blast intro: steps_step step.intros)+

lemma steps_fired [steps_intro]:
  "steps w0 w \<Longrightarrow> cb \<noteq> ChannelActive \<Longrightarrow> cb \<noteq> ChannelInactive \<Longrightarrow> steps w0 (fired c cb w)"
  by (blast intro: steps_step step.intros)

lemma upd_chan_upd_chan [simp]: "upd_chan c f (upd_chan c g w) = upd_chan c (\<lambda>ch. f (g ch)) w"
  by (simp add: upd_chan_def)

lemma upd_chan_same [simp]: "f (w_chans w c) = w_chans w c \<Longrightarrow> upd_chan c f w = w"
  by (simp add: upd_chan_def)

end
