(* ===== verification/Application.thy ===== *)
theory Application
  imports Steps
begin

text \<open>
  The contract of application code, and what follows from it for every operation: handlers,
  done-callbacks and submitted tasks act on the library's state only through runs of
  elementary steps, that is through the library's own methods; then each operation of
  channels and of the event loop is a run of elementary steps too.
\<close>

locale application =
  fixes E :: env
  assumes handler_steps: "steps w (snd (e_handler E c cb th w))"
    and listener_steps: "steps w (snd (e_listener E l f th w))"
    and usertask_steps: "steps w (snd (e_usertask E n th w))"
begin

lemma handler_run [steps_intro]: "steps w0 w \<Longrightarrow> steps w0 (snd (e_handler E c cb th w))"
  by (rule steps_trans[OF _ handler_steps])

lemma listener_run [steps_intro]: "steps w0 w \<Longrightarrow> steps w0 (snd (e_listener E l f th w))"
  by (rule steps_trans[OF _ listener_steps])

lemma usertask_run [steps_intro]: "steps w0 w \<Longrightarrow> steps w0 (snd (e_usertask E n th w))"
  by (rule steps_trans[OF _ usertask_steps])

subsection \<open>Futures, selector, task submission\<close>

lemma run_callbacks_run [steps_intro]: "steps w0 w \<Longrightarrow> steps w0 (snd (run_callbacks E ls f th w))"
  by (induction ls arbitrary: w) (auto intro!: steps_intro)

lemma fut_complete_run:
  assumes "steps w0 w" "st \<noteq> FPending"
  shows "steps w0 (snd (fut_complete E f st th w))"
proof (cases "fut_done w f")
  case False
  with assms have "steps w0 (w\<lparr>w_futs := (w_futs w)(f := st)\<rparr>)"
    by (blast intro: steps_step step.future_completed)
  with False show ?thesis by (auto simp: fut_complete_def intro!: steps_intro)
qed (use assms in \<open>simp add: fut_complete_def\<close>)

lemma futures_run [steps_intro]:
  assumes "steps w0 w"
  shows "steps w0 (snd (fut_set_result E f v th w))" "steps w0 (snd (fut_set_exception E f e th w))"
    "steps w0 (snd (fut_cancel E f th w))" "steps w0 (snd (cf_set E f c th w))"
    "steps w0 (snd (cf_set_exception E f e th w))"
  using assms
  by (simp_all add: fut_set_result_def fut_set_exception_def fut_cancel_def cf_set_def
      cf_set_exception_def fut_complete_run)

lemma cf_add_listener_run [steps_intro]:
  assumes "steps w0 w"
  shows "steps w0 (snd (cf_add_listener E f l th w))"
  using assms unfolding cf_add_listener_def
  by (auto simp del: run_callbacks.simps intro!: run_callbacks_run
      intro: steps_step step.listener_added)

lemma selector_run [steps_intro]:
  assumes "steps w0 w"
  shows "steps w0 (snd (sel_register E fd ev w))" "steps w0 (snd (sel_unregister fd w))"
    "steps w0 (snd (sel_modify E fd ev w))"
proof -
  have "steps w0 ((tick w)\<lparr>w_selector := dict_set fd ev (w_selector w)\<rparr>)"
    "steps w0 ((tick w)\<lparr>w_selector := dict_pop fd (w_selector w)\<rparr>)"
    using steps_dicts(1,2)[OF steps_tick[OF assms]] by simp_all
  with assms show "steps w0 (snd (sel_register E fd ev w))" "steps w0 (snd (sel_unregister fd w))"
    "steps w0 (snd (sel_modify E fd ev w))"
    by (auto simp: sel_register_def sel_unregister_def sel_modify_def intro!: steps_intro
        split: option.splits)
qed

lemma interrupt_run [steps_intro]: "steps w0 w \<Longrightarrow> steps w0 (snd (interrupt w))"
  by (simp add: interrupt_eq steps_intro)

lemma start_run [steps_intro]:
  assumes "steps w0 w"
  shows "steps w0 (snd (start E w))"
proof -
  have "steps w0 ((tick w)\<lparr>w_thread := Some t, w_started := True\<rparr>)"
    if "\<not> w_started w" "\<not> w_stop_polling w" "\<not> w_closed w" for t
    by (rule steps_step[OF steps_tick[OF assms]]) (simp add: step.loop_started that)
  with assms show ?thesis
    by (auto simp: start_def intro!: steps_intro split: pool_res.splits)
qed

lemma submit_task_run [steps_intro]:
  assumes "steps w0 w"
  shows "steps w0 (snd (submit_task E t w))"
proof (cases "w_stop_polling w \<or> w_closed w")
  case False
  have put: "steps w0 (w'\<lparr>w_taskq := w_taskq w' @ [t], w_tasks_submitted := w_tasks_submitted w' + 1\<rparr>)"
    if "start E w = (Ret a, w')" "steps w0 w'" for a w'
    using that False
    by (intro steps_step[OF that(2)] step.task_put)
      (auto simp: start_def split: if_splits pool_res.splits)
  show ?thesis using assms False unfolding submit_task_def
    by (auto intro!: steps_andThen start_run interrupt_run put)
qed (use assms in \<open>simp add: submit_task_def\<close>)

lemma modify_flag_run [steps_intro]: "steps w0 w \<Longrightarrow> steps w0 (snd (modify_flag E th c w))"
  by (auto simp: modify_flag_def Let_def intro!: steps_intro split: outcome.splits exn.splits)

subsection \<open>Channels\<close>

lemma fire_run [steps_intro]:
  assumes "steps w0 w" "cb \<noteq> ChannelActive" "cb \<noteq> ChannelInactive"
  shows "steps w0 (snd (fire E th c cb w))"
  using assms by (auto simp: fire_def fire_exception_caught_def intro!: steps_intro)

lemma fire_body_run:
  "steps w0 (fired c cb w) \<Longrightarrow> steps w0 (snd (fire E th c cb w))"
  by (auto simp: fire_def fire_exception_caught_def intro!: steps_intro)

lemma set_active_run [steps_intro]:
  assumes "steps w0 w"
  shows "steps w0 (snd (set_active E th c active w))"
proof -
  have "steps w0 (fired c ChannelInactive (upd_chan c (\<lambda>ch. ch\<lparr>c_active := False\<rparr>) w))"
    if "c_active (w_chans w c)"
    using steps_step[OF assms step.inactivated[of w c, OF that]] .
  moreover have "steps w0 (fired c ChannelActive
      (upd_chan c (\<lambda>ch. ch\<lparr>c_active := True, c_ever_active := True\<rparr>) w))" if "\<not> c_active (w_chans w c)"
    using steps_step[OF assms step.activated[of w c, OF that]] .
  ultimately show ?thesis using assms
    by (cases active; cases "c_active (w_chans w c)")
      (auto simp: set_active_def Let_def intro!: steps_handling steps_andThen fire_body_run steps_pair)
qed

lemma flags_run [steps_intro]:
  assumes "steps w0 w"
  shows "steps w0 (snd (add_flag E th c flag w))" "steps w0 (snd (remove_flag E th c flag w))"
  using assms by (auto simp: add_flag_def remove_flag_def intro!: steps_intro)

lemma check_writability_run [steps_intro]:
  "steps w0 w \<Longrightarrow> steps w0 (snd (check_writability E th c w))"
  by (auto simp: check_writability_def Let_def intro!: steps_intro)

lemma set_pendings_run [steps_intro]:
  assumes "steps w0 w"
  shows "steps w0 (set_pendings c v w)"
proof (cases v)
  case (Own cks)
  with assms show ?thesis by (auto simp: set_pendings_def intro!: steps_intro)
next
  case (Shared g)
  have "steps w0 (upd_chan c (\<lambda>ch. replace_pendings (c_frozen ch g) ch) w)"
    using assms by (intro steps_chan)
  with assms Shared show ?thesis
    by (cases "g = c_pgen (w_chans w c)") (simp_all add: set_pendings_def upd_chan_def)
qed

lemma fail_loop_run:
  assumes "fail_loop E th c e g i w = Some r" "steps w0 w"
  shows "steps w0 (snd r)"
proof -
  have "E0 = E \<longrightarrow> steps w0 w \<longrightarrow> steps w0 (snd r)"
    if "fail_loop E0 th c e g i w = Some r" for E0 th c e g i w r
  proof (rule fail_loop.raw_induct[where P = "\<lambda>E0 th c e g i w r. E0 = E \<longrightarrow> steps w0 w \<longrightarrow> steps w0 (snd r)", OF _ that],
      goal_cases)
    case (1 f E0 th c e g i w r)
    from 1(2) show ?case
      using futures_run(2)[of w0 w "ck_future (read_list (w_chans w c) g ! i)" e th]
      by (auto split: if_splits prod.splits outcome.splits dest!: 1(1))
  qed
  with assms show ?thesis by blast
qed

lemma fail_pendings_run [steps_intro]:
  assumes "steps w0 w"
  shows "steps w0 (snd (fail_pendings E th c e w))"
proof -
  have "steps w0 (upd_chan c (\<lambda>ch. (replace_pendings [] ch)\<lparr>c_pending_bytes := 0\<rparr>) w')"
    if "steps w0 w'" for w'
    using steps_chan(6)[OF steps_chan(7)[OF that], of c "\<lambda>_. 0" c "\<lambda>_. []"] by simp
  with assms show ?thesis
    by (auto simp: fail_pendings_def intro!: steps_andThen check_writability_run
        dest: fail_loop_run split: option.splits)
qed

lemma add_pending_run [steps_intro]: "steps w0 w \<Longrightarrow> steps w0 (snd (add_pending E th c ck w))"
  by (auto simp: add_pending_def intro!: steps_intro split: option.splits)

lemma set_auto_read_run [steps_intro]: "steps w0 w \<Longrightarrow> steps w0 (snd (set_auto_read E th c b w))"
  by (auto simp: set_auto_read_def Let_def intro!: steps_intro)

lemma closed_socket_sends_nothing:
  "try_send_bytes (\<lambda>_ _. SendError) buf 1 k = Some (rem, k') \<Longrightarrow> rem = buf"
  by (auto simp: try_send_bytes_def try_send_loop.simps split: if_splits option.splits)

lemma try_send_run [steps_intro]:
  assumes "steps w0 w"
  shows "steps w0 (snd (try_send E c buf w))"
proof -
  have "steps w0 (upd_chan c (\<lambda>ch. ch\<lparr>c_wire := c_wire ch @ take (length buf - length rem) buf\<rparr>)
      (w\<lparr>w_kcalls := k\<rparr>))"
    if "try_send_bytes (sock_send E c w) buf 1 (w_kcalls w) = Some (rem, k)" for rem k
  proof (rule steps_step[OF steps_kcalls[OF assms try_send_bytes_calls[OF that]] step.bytes_sent])
    show "take (length buf - length rem) buf = [] \<or> \<not> c_sockfd (w_chans (w\<lparr>w_kcalls := k\<rparr>) c) < 0"
      using that closed_socket_sends_nothing[of buf "w_kcalls w" rem k]
      by (auto simp: sock_send_def)
  qed
  with assms show ?thesis by (auto simp: try_send_def split: option.splits prod.splits)
qed

lemma channel_write_run [steps_intro]: "steps w0 w \<Longrightarrow> steps w0 (snd (channel_write E th c buf cf w))"
  using steps_new_future[of w0 w]
  by (auto simp: channel_write_def intro!: steps_andThen steps_pair submit_task_run try_send_run
      futures_run add_pending_run split: option.splits prod.splits)

lemma receive_run [steps_intro]:
  assumes "steps w0 w"
  shows "steps w0 (snd (channel_recvall E c w))" "steps w0 (snd (channel_acceptall E c w))"
  using assms
  by (auto simp: channel_recvall_def channel_acceptall_def Let_def intro!: steps_intro
      dest: recvall_calls acceptall_calls split: option.splits prod.splits)

subsection \<open>Closing, registering, sending\<close>

lemma unregister_run [steps_intro]: "steps w0 w \<Longrightarrow> steps w0 (snd (unregister E th c cf w))"
  using steps_new_future[of w0 w]
  by (auto simp: unregister_def Let_def intro!: steps_intro split: option.splits prod.splits)

lemma fail_channel_work_run [steps_intro]: "steps w0 w \<Longrightarrow> steps w0 (snd (fail_channel_work E th c e w))"
  by (auto simp: fail_channel_work_def Let_def intro!: steps_intro)

lemma close_channel_internally_run [steps_intro]:
  "steps w0 w \<Longrightarrow> steps w0 (snd (close_channel_internally E th c reason e w))"
  by (auto simp: close_channel_internally_def Let_def intro!: steps_intro)

lemma close_run [steps_intro]:
  assumes "steps w0 w"
  shows "steps w0 (snd (close_forcibly E th c w))" "steps w0 (snd (close_gracefully E th c w))"
    "steps w0 (snd (channel_close E th c force w))"
  using assms
  by (auto simp: close_forcibly_def close_gracefully_def channel_close_def Let_def intro!: steps_intro)

lemma register_run [steps_intro]:
  assumes "steps w0 w"
  shows "steps w0 (snd (register E th c only_write w))"
proof -
  have "steps w0 (w'\<lparr>w_registered := n, w_channels := dict_set fd c (w_channels w')\<rparr>)"
    "steps w0 ((tick (w'\<lparr>w_registered := n, w_channels := dict_set fd c (w_channels w')\<rparr>))
      \<lparr>w_due := dict_set fd m (w_due w')\<rparr>)"
    if "steps w0 w'" for w' n m fd
    using steps_dicts(4)[OF steps_counters(5)[OF that, of n], of fd c]
      steps_dicts(6)[OF steps_tick[OF steps_dicts(4)[OF steps_counters(5)[OF that, of n], of fd c]], of fd m]
    by simp_all
  with assms show ?thesis
    by (auto simp: register_def Let_def intro!: steps_andThen steps_pair start_run submit_task_run
        fire_run selector_run steps_chan)
qed

lemma pop_empty_own_run [steps_intro]: "steps w0 w \<Longrightarrow> steps w0 (snd (pop_empty_own E th cks w))"
  by (induction cks arbitrary: w) (auto intro!: steps_intro)

lemma pop_empty_run [steps_intro]: "steps w0 w \<Longrightarrow> steps w0 (snd (pop_empty E th c v w))"
  by (auto simp: pop_empty_def intro!: steps_intro split: chunks_var.splits list.splits)

lemma complete_batch_run [steps_intro]:
  "steps w0 w \<Longrightarrow> steps w0 (snd (complete_batch E th batch n k w))"
  by (induction batch arbitrary: n k w) (auto intro!: steps_intro)

lemma send_loop_run:
  "E' = E \<Longrightarrow> steps w0 w \<Longrightarrow> steps w0 (snd (send_loop E' th c v w))"
proof (induction E' th c v w rule: send_loop.induct)
  case (1 E' th c v w)
  from 1(2) have E: "E' = E" .
  from 1(3) show ?case unfolding E
    by (subst send_loop.simps)
      (auto simp: Let_def intro!: steps_intro split: prod.splits,
        rule 1(1)[unfolded E], (assumption | rule refl | simp)+)
qed

lemma send_pending_chunks_run [steps_intro]:
  "steps w0 w \<Longrightarrow> steps w0 (snd (send_pending_chunks E th c w))"
  unfolding send_pending_chunks_def by (intro send_loop_run refl)

subsection \<open>The loop\<close>

lemma cleanup_channel_run [steps_intro]: "steps w0 w \<Longrightarrow> steps w0 (snd (cleanup_channel E th reason c w))"
  by (auto simp: cleanup_channel_def Let_def intro!: steps_intro)

lemma cleanup_channels_run [steps_intro]:
  "steps w0 w \<Longrightarrow> steps w0 (snd (cleanup_channels E th reason cs w))"
  by (induction cs arbitrary: w) (auto intro!: steps_intro)

lemma cleanup_resources_run [steps_intro]:
  assumes "steps w0 w"
  shows "steps w0 (snd (cleanup_resources E th reason w))"
proof -
  have "steps w0 ((sel_close w')\<lparr>w_eventfd := eventfd_close (w_eventfd w')\<rparr>)" if "steps w0 w'" for w'
    using steps_eventfd(2)[OF steps_dicts(3)[OF that]] by (simp add: sel_close_def)
  with assms show ?thesis
    by (auto simp: cleanup_resources_def Let_def sel_close_def intro!: steps_intro)
qed

lemma stop_run [steps_intro]: "steps w0 w \<Longrightarrow> steps w0 (snd (stop E th w))"
  by (auto simp: stop_def Let_def intro!: steps_intro)

lemma activate_channel_run [steps_intro]: "steps w0 w \<Longrightarrow> steps w0 (snd (activate_channel E th c w))"
  by (auto simp: activate_channel_def intro!: steps_intro)

lemma set_ssl_handshake_interest_run [steps_intro]:
  "steps w0 w \<Longrightarrow> steps w0 (snd (set_ssl_handshake_interest E th c flag w))"
  by (auto simp: set_ssl_handshake_interest_def intro!: steps_intro)

lemma connect_failed_run [steps_intro]:
  "steps w0 w \<Longrightarrow> steps w0 (snd (connect_failed E th c reason e w))"
  by (auto simp: connect_failed_def intro!: steps_intro)

lemma complete_ssl_handshake_run [steps_intro]:
  "steps w0 w \<Longrightarrow> steps w0 (snd (complete_ssl_handshake E th c w))"
  by (auto simp: complete_ssl_handshake_def intro!: steps_intro split: handshake_res.splits)

lemma check_channel_active_run [steps_intro]:
  "steps w0 w \<Longrightarrow> steps w0 (snd (check_channel_active E th c w))"
  by (auto simp: check_channel_active_def intro!: steps_intro split: sum.splits)

lemma timeout_loop_run [steps_intro]:
  "steps w0 w \<Longrightarrow> steps w0 (snd (timeout_loop E th now dues fds w))"
  by (induction dues arbitrary: fds w) (auto intro!: steps_intro split: option.splits)

lemma process_connection_timeout_run [steps_intro]:
  "steps w0 w \<Longrightarrow> steps w0 (snd (process_connection_timeout E th w))"
  by (auto simp: process_connection_timeout_def intro!: steps_intro)

lemma run_task_run [steps_intro]: "steps w0 w \<Longrightarrow> steps w0 (snd (run_task E th t w))"
  by (auto simp: run_task_def intro!: steps_intro split: task.splits)

lemma run_task_logged_run [steps_intro]: "steps w0 w \<Longrightarrow> steps w0 (snd (run_task_logged E th t w))"
  by (auto simp: run_task_logged_def intro!: steps_intro)

lemma process_task_queue_loop_run:
  assumes "process_task_queue_loop E th w = Some r" "steps w0 w"
  shows "steps w0 (snd r)"
proof -
  have "E0 = E \<longrightarrow> steps w0 w \<longrightarrow> steps w0 (snd r)" if "process_task_queue_loop E0 th w = Some r" for E0 th w r
  proof (rule process_task_queue_loop.raw_induct[where P = "\<lambda>E0 th w r. E0 = E \<longrightarrow> steps w0 w \<longrightarrow> steps w0 (snd r)", OF _ that],
      goal_cases)
    case (1 f E0 th w r)
    have "steps w0 (snd (run_task_logged E th t (w\<lparr>w_taskq := ts\<rparr>)))"
      if "w_taskq w = t # ts" "steps w0 w" for t ts
      using that by (blast intro: run_task_logged_run steps_step step.task_taken)
    then have "steps w0 (snd (run_task_logged E th t (w\<lparr>w_taskq := ts\<rparr>)))"
      "run_task_logged E th t (w\<lparr>w_taskq := ts\<rparr>) = (Ret u, w') \<Longrightarrow>
         steps w0 (w'\<lparr>w_tasks_processed := w_tasks_processed w' + 1\<rparr>)"
      if "w_taskq w = t # ts" "steps w0 w" for t ts u w'
      using that by (metis snd_conv steps_counters(6))+
    with 1(2) show ?case
      by (cases "w_taskq w") (auto split: prod.splits outcome.splits dest!: 1(1))
  qed
  with assms show ?thesis by blast
qed

lemma process_task_queue_run [steps_intro]: "steps w0 w \<Longrightarrow> steps w0 (snd (process_task_queue E th w))"
  by (auto simp: process_task_queue_def dest: process_task_queue_loop_run split: option.splits)

lemma accept_loop_run [steps_intro]: "steps w0 w \<Longrightarrow> steps w0 (snd (accept_loop E th c ss w))"
  by (induction ss arbitrary: w) (auto intro!: steps_intro)

lemma server_event_run [steps_intro]: "steps w0 w \<Longrightarrow> steps w0 (snd (server_event E th c w))"
  by (auto simp: server_event_def intro!: steps_intro)

lemma write_event_run [steps_intro]: "steps w0 w \<Longrightarrow> steps w0 (snd (write_event E th fd c w))"
  by (auto simp: write_event_def intro!: steps_intro)

lemma read_event_run [steps_intro]: "steps w0 w \<Longrightarrow> steps w0 (snd (read_event E th c w))"
  by (auto simp: read_event_def Let_def intro!: steps_intro)

lemma eventfd_drain_run:
  assumes "steps w0 w"
  shows "steps w0 (w\<lparr>w_eventfd := snd (eventfd_unsafe_read (w_eventfd w))\<rparr>)"
proof (cases "ef_pipe (w_eventfd w) \<noteq> [] \<or> ef_write_fd (w_eventfd w) = None")
  case True
  with assms show ?thesis by (blast intro: steps_step step.drained)
next
  case False
  then have "snd (eventfd_unsafe_read (w_eventfd w)) = w_eventfd w"
    by (auto simp: eventfd_unsafe_read_def eventfd_read_def split: option.splits)
  with assms show ?thesis by simp
qed

lemma process_event_run [steps_intro]:
  assumes "steps w0 w"
  shows "steps w0 (snd (process_event E th fd ev w))"
proof (cases "fd = eventfd_fileno (w_eventfd w)")
  case True
  with eventfd_drain_run[OF assms] show ?thesis
    by (auto simp: process_event_def Let_def intro!: steps_intro split: prod.splits)
next
  case False
  with assms show ?thesis
    by (auto simp: process_event_def intro!: steps_intro split: option.splits)
qed

lemma process_events_run [steps_intro]: "steps w0 w \<Longrightarrow> steps w0 (snd (process_events E th evs w))"
proof (induction evs arbitrary: w)
  case (Cons e evs)
  then show ?case by (cases e) (simp add: steps_andThen process_event_run)
qed simp

lemma poll_run [steps_intro]: "steps w0 w \<Longrightarrow> steps w0 (snd (poll E w))"
  by (auto simp: poll_def poll_timeout_def millis_to_wait_for_connect_timeout_def Let_def
      intro!: steps_intro)

lemma loop_iteration_run [steps_intro]: "steps w0 w \<Longrightarrow> steps w0 (snd (loop_iteration E th w))"
  using poll_run[of w0 w]
  by (auto simp: loop_iteration_def intro!: steps_intro split: prod.splits)

lemma start_thread_run:
  assumes "start_thread E th w = Some r" "steps w0 w"
  shows "steps w0 (snd r)"
proof -
  have "E0 = E \<longrightarrow> steps w0 w \<longrightarrow> steps w0 (snd r)" if "start_thread E0 th w = Some r" for E0 th w r
  proof (rule start_thread.raw_induct[where P = "\<lambda>E0 th w r. E0 = E \<longrightarrow> steps w0 w \<longrightarrow> steps w0 (snd r)", OF _ that],
      goal_cases)
    case (1 f E0 th w r)
    from 1(2) show ?case
      using loop_iteration_run[of w0 w th]
      by (auto split: prod.splits outcome.splits if_splits dest!: 1(1))
  qed
  with assms show ?thesis by blast
qed

end

end
