(* ===== verification/Handlers.thy ===== *)
theory Handlers
  imports Application
begin

text \<open>
  \<^verbatim>\<open>py_netty/handler.py\<close> (\<open>ChannelHandlerAdapter\<close>, \<open>EchoChannelHandler\<close>) and, for arbitrary
  application code, handlers, done-callbacks and tasks that are scripts of library calls.
  All of them meet the contract \<open>application\<close>, whose facts therefore hold for them.
\<close>

section \<open>The library's own handlers\<close>

text \<open>Every method of \<open>ChannelHandlerAdapter\<close> is \<open>pass\<close>.\<close>

definition adapter_handler :: "cid \<Rightarrow> callback \<Rightarrow> tid \<Rightarrow> world \<Rightarrow> unit outcome \<times> world" where
  "adapter_handler c cb th w = (Ret (), w)"

text \<open>\<open>EchoChannelHandler\<close> overrides \<open>channel_read\<close>.  A socket is the message of a server
  channel, which has no \<open>write\<close>.\<close>

definition echo_handler :: "env \<Rightarrow> cid \<Rightarrow> callback \<Rightarrow> tid \<Rightarrow> world \<Rightarrow> unit outcome \<times> world" where
  "echo_handler E c cb th w =
     (case cb of
        ChannelReadBytes msg \<Rightarrow> andThen (ctx_write E th c msg w) (\<lambda>_ w. (Ret (), w))
      | ChannelReadSocket _ \<Rightarrow> (Raise AttributeError, w)
      | _ \<Rightarrow> adapter_handler c cb th w)"

text \<open>An application with no code of its own, and one whose channels have the echo handler.\<close>

definition plain_env :: "env \<Rightarrow> env" where
  "plain_env B = B\<lparr>e_handler := adapter_handler, e_listener := (\<lambda>l f th w. (Ret (), w)),
     e_usertask := (\<lambda>n th w. (Ret (), w))\<rparr>"

definition echo_env :: "env \<Rightarrow> env" where
  "echo_env B = (plain_env B)\<lparr>e_handler := echo_handler (plain_env B)\<rparr>"

lemma plain_env_simps [simp]:
  "e_handler (plain_env B) = adapter_handler" "e_listener (plain_env B) l f th w = (Ret (), w)"
  "e_usertask (plain_env B) n th w = (Ret (), w)" "e_kernel (plain_env B) = e_kernel B"
  "e_cfg (plain_env B) = e_cfg B" "e_str (plain_env B) = e_str B"
  by (simp_all add: plain_env_def)

section \<open>Scripts of library calls\<close>

datatype action =
    AWrite cid bytes
  | AClose cid bool
  | ASetAutoRead cid bool
  | AConnect fd                \<comment> \<open>\<open>NioSocketChannel(\<dots>).register()\<close> on this loop\<close>
  | AAddListener fid lid
  | ACancel fid
  | ASubmit nat
  | AStop
  | ARaise exn

record script =
  s_handler :: "cid \<Rightarrow> callback \<Rightarrow> action list"
  s_listener :: "lid \<Rightarrow> action list"
  s_task :: "nat \<Rightarrow> action list"

definition run_action :: "env \<Rightarrow> tid \<Rightarrow> action \<Rightarrow> world \<Rightarrow> unit outcome \<times> world" where
  "run_action E th a w =
     (case a of
        AWrite c buf \<Rightarrow> andThen (ctx_write E th c buf w) (\<lambda>_ w. (Ret (), w))
      | AClose c force \<Rightarrow> channel_close E th c force w
      | ASetAutoRead c b \<Rightarrow> set_auto_read E th c b w
      | AConnect fd \<Rightarrow> andThen (new_socket_channel fd False 3000 False w) (\<lambda>c w.
          andThen (register E th c False w) (\<lambda>_ w. (Ret (), w)))
      | AAddListener f l \<Rightarrow> cf_add_listener E f l th w
      | ACancel f \<Rightarrow> fut_cancel E f th w
      | ASubmit n \<Rightarrow> submit_task E (TUser n) w
      | AStop \<Rightarrow> stop E th w
      | ARaise e \<Rightarrow> (Raise e, w))"

fun run_actions :: "env \<Rightarrow> tid \<Rightarrow> action list \<Rightarrow> world \<Rightarrow> unit outcome \<times> world" where
  "run_actions E th [] w = (Ret (), w)"
| "run_actions E th (a # as) w = andThen (run_action E th a w) (\<lambda>_ w. run_actions E th as w)"

text \<open>Callbacks nest: a script's calls fire further callbacks.  The environment bounds the
  nesting by \<open>n\<close>; a callback nested deeper that would do anything has no result.\<close>

definition callbacks_of :: "env \<Rightarrow> (tid \<Rightarrow> action list \<Rightarrow> world \<Rightarrow> unit outcome \<times> world) \<Rightarrow> script \<Rightarrow> env" where
  "callbacks_of B run S = B\<lparr>e_handler := (\<lambda>c cb th w. run th (s_handler S c cb) w),
     e_listener := (\<lambda>l f th w. run th (s_listener S l) w),
     e_usertask := (\<lambda>n th w. run th (s_task S n) w)\<rparr>"

primrec scripted_env :: "env \<Rightarrow> script \<Rightarrow> nat \<Rightarrow> env" where
  "scripted_env B S 0 = callbacks_of B (\<lambda>th as w. if as = [] then (Ret (), w) else (Diverge, w)) S"
| "scripted_env B S (Suc n) = callbacks_of B (run_actions (scripted_env B S n)) S"

section \<open>They meet the contract\<close>

lemma steps_channel_made:
  assumes "steps w0 w" "0 < c_fileno0 ch"
  shows "steps w0 (w\<lparr>w_chans := (w_chans w)(w_next_cid w := ch), w_next_cid := Suc (w_next_cid w)\<rparr>)"
  by (rule steps_step[OF assms(1) step.channel_made[OF assms(2)]])

lemma steps_two_futures:
  "steps w0 w \<Longrightarrow> steps w0 (snd (new_future (snd (new_future w))))"
  by (intro steps_new_future)

lemma new_socket_channel_eq:
  "new_socket_channel fd ssl timeout hs w =
     (if fd > 0 then
        let w2 = snd (new_future (snd (new_future w))) in
        (Ret (w_next_cid w), w2\<lparr>w_chans := (w_chans w2)(w_next_cid w2 :=
           (base_channel fd (w_next_fid w) (Suc (w_next_fid w)))\<lparr>c_ssl_required := hs \<and> ssl,
              c_ssl_complete := \<not> (hs \<and> ssl), c_connect_timeout := timeout\<rparr>),
           w_next_cid := Suc (w_next_cid w2)\<rparr>)
      else (Raise AssertionError, w))"
  by (simp add: new_socket_channel_def new_abstract_channel_def new_future_def upd_chan_def Let_def
      andThen_def)

context application
begin

lemma ctx_write_run [steps_intro]: "steps w0 w \<Longrightarrow> steps w0 (snd (ctx_write E th c buf w))"
  by (auto simp: ctx_write_def intro!: steps_intro)

lemma new_socket_channel_run [steps_intro]:
  assumes "steps w0 w"
  shows "steps w0 (snd (new_socket_channel fd ssl timeout hs w))"
  using steps_channel_made[OF steps_two_futures[OF assms],
      of "(base_channel fd (w_next_fid w) (Suc (w_next_fid w)))\<lparr>c_ssl_required := hs \<and> ssl,
              c_ssl_complete := \<not> (hs \<and> ssl), c_connect_timeout := timeout\<rparr>"] assms
  by (simp add: new_socket_channel_eq Let_def base_channel_def)

lemma run_action_run [steps_intro]: "steps w0 w \<Longrightarrow> steps w0 (snd (run_action E th a w))"
  by (auto simp: run_action_def intro!: steps_intro split: action.splits)

lemma run_actions_run [steps_intro]: "steps w0 w \<Longrightarrow> steps w0 (snd (run_actions E th as w))"
  by (induction as arbitrary: w) (auto intro!: steps_intro)

end

lemma plain_application: "application (plain_env B)"
  by standard (simp_all add: adapter_handler_def)

interpretation plain: application "plain_env B" for B
  by (rule plain_application)

lemma echo_application: "application (echo_env B)"
  by standard (auto simp: echo_env_def echo_handler_def adapter_handler_def
      intro!: plain.ctx_write_run steps_andThen split: callback.splits)

interpretation echo: application "echo_env B" for B
  by (rule echo_application)

lemma callbacks_of_application:
  assumes "\<And>th as w. steps w (snd (run th as w))"
  shows "application (callbacks_of B run S)"
  by standard (simp_all add: callbacks_of_def assms)

lemma scripted_application: "application (scripted_env B S n)"
  by (induction n) (auto intro!: callbacks_of_application application.run_actions_run)

interpretation scripted: application "scripted_env B S n" for B S n
  by (rule scripted_application)

text \<open>A write fires no callback of a handler, so the echo handler's writes may be taken in
  the environment without it.\<close>

lemma ctx_write_handler_irrelevant:
  "ctx_write (B\<lparr>e_handler := h\<rparr>) th c buf w = ctx_write B th c buf w"
proof -
  let ?E = "B\<lparr>e_handler := h\<rparr>"
  have cb: "run_callbacks ?E ls f th = run_callbacks B ls f th" for ls f
    by (induction ls; rule ext; simp)
  have sub: "submit_task ?E t w = submit_task B t w" for t w
    by (simp add: submit_task_def start_def)
  have mod: "modify_flag ?E th c w = modify_flag B th c w" for w
    by (simp add: modify_flag_def sub sel_register_def sel_modify_def Let_def split: outcome.splits exn.splits)
  have add: "add_flag ?E th c f w = add_flag B th c f w" for f w
    by (simp add: add_flag_def sub mod)
  have pend: "add_pending ?E th c ck w = add_pending B th c ck w" for ck w
    by (simp add: add_pending_def add split: option.split)
  have fut: "fut_set_result ?E f v th w = fut_set_result B f v th w" for f v w
    by (simp add: fut_set_result_def fut_complete_def cb)
  have tsend: "try_send ?E c b w = try_send B c b w" for b w
    by (simp add: try_send_def sock_send_def)
  show ?thesis
    by (simp add: ctx_write_def channel_write_def pend sub fut tsend cong: if_cong split: prod.split)
qed

end
