(* ===== verification/Evolution.thy ===== *)
theory Evolution
  imports Handlers
begin

text \<open>
  What every run of the code preserves, proved once over the elementary steps: how channels,
  futures and the loop's own fields can evolve, the life cycle of a channel as its handler
  sees it, and the well-formedness of the loop's tables.
\<close>

section \<open>Evolution of the state\<close>

text \<open>The identity of a channel is fixed; a closed socket stays closed and takes no more
  bytes, and what the kernel took is only ever extended.\<close>

definition chan_evolves :: "chan \<Rightarrow> chan \<Rightarrow> bool" where
  "chan_evolves ch ch' \<longleftrightarrow>
     (c_fileno0 ch' = c_fileno0 ch \<and> c_server ch' = c_server ch
      \<and> c_close_future ch' = c_close_future ch \<and> c_channel_future ch' = c_channel_future ch
      \<and> c_connect_timeout ch' = c_connect_timeout ch)
     \<and> (c_ever_active ch \<longrightarrow> c_ever_active ch') \<and> (c_ssl_complete ch \<longrightarrow> c_ssl_complete ch')
     \<and> (c_sockfd ch' = c_sockfd ch \<or> c_sockfd ch' = -1)
     \<and> (c_sockfd ch < 0 \<longrightarrow> c_wire ch' = c_wire ch)
     \<and> (\<exists>bs. c_wire ch' = c_wire ch @ bs)"

definition evolves :: "world \<Rightarrow> world \<Rightarrow> bool" where
  "evolves w w' \<longleftrightarrow>
     (w_next_fid w \<le> w_next_fid w' \<and> w_next_cid w \<le> w_next_cid w' \<and> w_kcalls w \<le> w_kcalls w')
     \<and> (w_started w \<longrightarrow> w_started w' \<and> w_thread w' = w_thread w)
     \<and> (w_stop_polling w \<longrightarrow> w_stop_polling w') \<and> (w_closed w \<longrightarrow> w_closed w')
     \<and> (w_selector_open w' \<longrightarrow> w_selector_open w)
     \<and> (\<exists>evs. w_events w' = w_events w @ evs)
     \<and> (\<forall>f < w_next_fid w. w_futs w f \<le> w_futs w' f)
     \<and> (\<forall>c < w_next_cid w. chan_evolves (w_chans w c) (w_chans w' c))"

lemma chan_evolves_refl [simp]: "chan_evolves ch ch"
  by (simp add: chan_evolves_def)

lemma chan_evolves_trans:
  assumes "chan_evolves a b" "chan_evolves b d"
  shows "chan_evolves a d"
proof -
  note ab = assms(1)[unfolded chan_evolves_def] and bd = assms(2)[unfolded chan_evolves_def]
  have "c_sockfd d = c_sockfd a \<or> c_sockfd d = -1" using ab bd by metis
  moreover have "c_wire d = c_wire a" if "c_sockfd a < 0"
  proof -
    have "c_sockfd b < 0" using that ab by (metis neg_less_0_iff_less zero_less_one)
    then show ?thesis using that ab bd by metis
  qed
  moreover have "\<exists>bs. c_wire d = c_wire a @ bs" using ab bd by (metis append.assoc)
  ultimately show ?thesis unfolding chan_evolves_def using ab bd by metis
qed

lemma evolves_refl [simp]: "evolves w w"
  by (simp add: evolves_def)

lemma evolves_trans:
  assumes "evolves a b" "evolves b c"
  shows "evolves a c"
proof -
  note ab = assms(1)[unfolded evolves_def] and bc = assms(2)[unfolded evolves_def]
  have mono: "w_next_fid a \<le> w_next_fid c" "w_next_cid a \<le> w_next_cid c" "w_kcalls a \<le> w_kcalls c"
    using ab bc by linarith+
  have fids: "f < w_next_fid b" if "f < w_next_fid a" for f using that ab by linarith
  have cids: "i < w_next_cid b" if "i < w_next_cid a" for i using that ab by linarith
  have "w_futs a f \<le> w_futs c f" if "f < w_next_fid a" for f
    using that fids ab bc by (blast intro: order_trans)
  moreover have "chan_evolves (w_chans a i) (w_chans c i)" if "i < w_next_cid a" for i
    using that cids ab bc by (blast intro: chan_evolves_trans)
  moreover have "\<exists>evs. w_events c = w_events a @ evs"
    using ab bc by (metis append.assoc)
  moreover have "w_started a \<longrightarrow> w_started c \<and> w_thread c = w_thread a" using ab bc by metis
  ultimately show ?thesis unfolding evolves_def using mono ab bc by blast
qed

lemma evolves_upd_chan:
  "chan_evolves (w_chans w c) (f (w_chans w c)) \<Longrightarrow> evolves w (upd_chan c f w)"
  by (simp add: evolves_def)

lemma pending_le [simp]: "FPending \<le> st"
  by (simp add: less_eq_fstate_def)

lemma step_evolves: "step w w' \<Longrightarrow> evolves w w'"
proof (induction rule: step.induct)
  case (future_made w)
  then show ?case by (simp add: evolves_def new_future_def)
next
  case (future_completed w f st)
  then show ?case by (simp add: evolves_def fut_done_def)
next
  case (activated w c)
  then show ?case by (simp add: evolves_def fired_def chan_evolves_def)
next
  case (inactivated w c)
  then show ?case by (simp add: evolves_def fired_def chan_evolves_def)
next
  case (bytes_sent bs w c)
  then show ?case by (intro evolves_upd_chan) (auto simp: chan_evolves_def)
next
  case (socket_closed w c)
  then show ?case unfolding sock_close_def by (intro evolves_upd_chan) (simp add: chan_evolves_def)
next
  case (pendings_replaced w c x)
  then show ?case by (intro evolves_upd_chan) (simp add: chan_evolves_def replace_pendings_def)
qed (simp_all add: evolves_def chan_evolves_def fired_def sel_close_def)

lemma steps_evolves: "steps w w' \<Longrightarrow> evolves w w'"
  by (erule steps_relation) (blast intro: evolves_refl evolves_trans step_evolves)+

section \<open>The life cycle of a channel\<close>

text \<open>The automaton of \<open>channel_active\<close> and \<open>channel_inactive\<close>: no two in a row are alike.\<close>

fun life :: "cid \<Rightarrow> bool \<Rightarrow> (cid \<times> callback) list \<Rightarrow> bool option" where
  "life c b [] = Some b"
| "life c b ((c', cb) # evs) =
     (if c' = c \<and> cb = ChannelActive then (if b then None else life c True evs)
      else if c' = c \<and> cb = ChannelInactive then (if b then life c False evs else None)
      else life c b evs)"

lemma life_append: "life c b (xs @ ys) = Option.bind (life c b xs) (\<lambda>b. life c b ys)"
  by (induction c b xs rule: life.induct) auto

definition lives :: "cid \<Rightarrow> world \<Rightarrow> world \<Rightarrow> bool" where
  "lives c w w' \<longleftrightarrow> (\<exists>evs. w_events w' = w_events w @ evs
     \<and> (c < w_next_cid w \<longrightarrow> life c (c_active (w_chans w c)) evs = Some (c_active (w_chans w' c))))"

lemma lives_same: "w_events w' = w_events w \<Longrightarrow>
    c < w_next_cid w \<longrightarrow> c_active (w_chans w' c) = c_active (w_chans w c) \<Longrightarrow> lives c w w'"
  by (simp add: lives_def)

lemma step_lives: "step w w' \<Longrightarrow> lives c w w'"
proof (induction rule: step.induct)
  case (callback cb w c')
  then show ?case by (auto simp: lives_def fired_def)
next
  case (activated w c')
  then show ?case by (auto simp: lives_def fired_def)
next
  case (inactivated w c')
  then show ?case by (auto simp: lives_def fired_def)
next
  case (pendings_replaced w c x)
  then show ?case by (intro lives_same) (simp_all add: replace_pendings_def)
qed (rule lives_same; simp add: new_future_def sel_close_def sock_close_def)+

lemma lives_trans:
  assumes "lives c w1 w2" "lives c w2 w3" "w_next_cid w1 \<le> w_next_cid w2"
  shows "lives c w1 w3"
proof -
  obtain e1 e2 where e: "w_events w2 = w_events w1 @ e1" "w_events w3 = w_events w2 @ e2"
    "c < w_next_cid w1 \<longrightarrow> life c (c_active (w_chans w1 c)) e1 = Some (c_active (w_chans w2 c))"
    "c < w_next_cid w2 \<longrightarrow> life c (c_active (w_chans w2 c)) e2 = Some (c_active (w_chans w3 c))"
    using assms(1,2) by (auto simp: lives_def)
  with assms(3) show ?thesis
    unfolding lives_def by (intro exI[of _ "e1 @ e2"]) (auto simp: life_append)
qed

lemma steps_lives:
  assumes "steps w w'"
  shows "lives c w w'"
proof -
  have "lives c w w' \<and> w_next_cid w \<le> w_next_cid w'"
    using assms
  proof (rule steps_relation)
    show "lives c w w \<and> w_next_cid w \<le> w_next_cid w" for w by (simp add: lives_def)
  next
    fix w w' assume "step w w'"
    then show "lives c w w' \<and> w_next_cid w \<le> w_next_cid w'"
      using step_lives step_evolves by (auto simp: evolves_def)
  qed (use lives_trans in force)
  then show ?thesis ..
qed

section \<open>Well-formed tables\<close>

text \<open>The tables have no duplicate keys, the event descriptor holds exactly the pending
  wake-up, the loop's thread is known from the moment the barrier is set, and tasks are only
  ever queued for a loop that was started.\<close>

definition world_ok :: "world \<Rightarrow> bool" where
  "world_ok w \<longleftrightarrow> dict_ok (w_channels w) \<and> dict_ok (w_due w) \<and> dict_ok (w_selector w)
     \<and> eventfd_ok (w_eventfd w) \<and> \<not> ef_flag (w_eventfd w)
     \<and> (w_thread w \<noteq> None \<longleftrightarrow> w_started w) \<and> (w_taskq w \<noteq> [] \<longrightarrow> w_started w)"

lemma eventfd_ok_step:
  assumes "eventfd_ok ef" "\<not> ef_flag ef" "ef_pipe ef \<noteq> [] \<or> ef_write_fd ef = None"
  shows "eventfd_ok (snd (eventfd_unsafe_read ef))"
proof (cases "ef_closed ef")
  case True
  with assms show ?thesis by (simp add: eventfd_unsafe_read_def)
next
  case False
  with assms have "ef_unsafe_counts ef > 0" by (auto simp: eventfd_ok_def)
  with assms(1) show ?thesis by (rule eventfd_ok_unsafe_read)
qed

lemma step_world_ok: "step w w' \<Longrightarrow> world_ok w \<Longrightarrow> world_ok w'"
proof (induction rule: step.induct)
  case (notified w)
  then show ?case by (simp add: world_ok_def eventfd_ok_unsafe_write)
next
  case (drained w)
  then show ?case by (simp add: world_ok_def eventfd_ok_step)
next
  case (eventfd_closed w)
  have "ef_flag (eventfd_close (w_eventfd w)) = ef_flag (w_eventfd w)"
    by (simp add: eventfd_close_def eventfd_close_fds_def)
  with eventfd_closed show ?case by (simp add: world_ok_def eventfd_ok_close)
qed (simp_all add: world_ok_def new_future_def fired_def sel_close_def sock_close_def)

lemma steps_world_ok: "steps w w' \<Longrightarrow> world_ok w \<Longrightarrow> world_ok w'"
  by (rule steps_invariant[OF _ _ step_world_ok])

end
