(* ===== verification/Closing.thy ===== *)
theory Closing
  imports Evolution Sending
begin

text \<open>
  \<open>_close_channel_internally\<close> and what it runs: closing never raises, whatever the
  application's callbacks do; it leaves the channel closed and gone from the loop's tables;
  and everyone who waits on a future of the channel is told.
\<close>

section \<open>Closing raises nothing\<close>

lemma run_callbacks_calm [calm_intro]: "calm (run_callbacks E ls f th w)"
  by (induction ls arbitrary: w) (auto intro!: calm_intro)

lemma fut_complete_calm: "\<not> fut_done w f \<Longrightarrow> calm (fut_complete E f st th w)"
  by (simp add: fut_complete_def run_callbacks_calm)

lemma fut_set_exception_calm: "(Raise x, w') = fut_set_exception E f e th w \<Longrightarrow> fut_done w f"
  using fut_complete_calm[of w f E "FException e" th]
  by (cases "fut_complete E f (FException e) th w") (auto simp: fut_set_exception_def calm_def)

lemma futures_calm [calm_intro]:
  "calm (cf_set E f c th w)" "calm (cf_set_exception E f e th w)" "calm (fut_cancel E f th w)"
  by (simp_all add: cf_set_def cf_set_exception_def fut_cancel_def fut_set_result_def
      fut_set_exception_def fut_complete_calm)

lemma fire_calm [calm_intro]:
  "calm (fire_exception_caught E th c e w)" "calm (fire E th c cb w)"
  by (auto simp: fire_def fire_exception_caught_def intro!: calm_intro)

lemma set_active_calm [calm_intro]: "calm (set_active E th c b w)"
  by (auto simp: set_active_def Let_def intro!: calm_handling)

lemma check_writability_calm [calm_intro]: "calm (check_writability E th c w)"
  by (auto simp: check_writability_def Let_def intro!: calm_intro)

lemma fail_loop_calm:
  assumes "fail_loop E th c e g i w = Some r"
  shows "calm r"
proof (rule fail_loop.raw_induct[where P = "\<lambda>E th c e g i w r. calm r", OF _ assms], goal_cases)
  case (1 f E th c e g i w r)
  obtain o' w' where eq: "fut_set_exception E (ck_future (read_list (w_chans w c) g ! i)) e th w = (o', w')"
    by fastforce
  have raised: "fut_done w (ck_future (read_list (w_chans w c) g ! i))" if "o' = Raise x" for x
    using eq that by (intro fut_set_exception_calm[of x w' E _ e th w]) simp
  from 1(2)[unfolded eq prod.case] raised show ?case
    by (cases o') (auto split: if_splits dest!: 1(1))
qed

lemma fail_channel_work_calm [calm_intro]: "calm (fail_channel_work E th c e w)"
  by (auto simp: fail_channel_work_def fail_pendings_def Let_def intro!: calm_intro
      dest: fail_loop_calm split: option.splits)

lemma unregister_calm: "in_eventloop th w \<Longrightarrow> calm (unregister E th c cf w)"
  by (auto simp: unregister_def new_future_def in_eventloop_def Let_def intro!: calm_intro
      split: option.splits)

lemma evolves_in_eventloop: "evolves w w' \<Longrightarrow> w_started w \<Longrightarrow> in_eventloop th w \<Longrightarrow> in_eventloop th w'"
  by (simp add: evolves_def in_eventloop_def)

lemma evolves_started: "evolves w w' \<Longrightarrow> w_started w \<Longrightarrow> w_started w'"
  by (simp add: evolves_def)

lemma evolves_fut_done: "evolves w w' \<Longrightarrow> f < w_next_fid w \<Longrightarrow> fut_done w f \<Longrightarrow> fut_done w' f"
  unfolding evolves_def fut_done_def by (metis less_eq_fstate_def)

lemma cf_set_done:
  assumes "application E" "cf_set E f c th w = (Ret u, w')" "f < w_next_fid w"
  shows "fut_done w' f"
proof (cases "fut_done w f")
  case True
  with assms show ?thesis by (simp add: cf_set_def)
next
  case False
  let ?w = "w\<lparr>w_futs := (w_futs w)(f := FResult (VChannel c))\<rparr>"
  from False assms(2) have "run_callbacks E (w_listeners w f) f th ?w = (Ret u, w')"
    by (simp add: cf_set_def fut_set_result_def fut_complete_def)
  then have "evolves ?w w'"
    using application.run_callbacks_run[OF assms(1) steps_refl[of ?w]] by (metis snd_conv steps_evolves)
  from evolves_fut_done[OF this, of f] assms(3) show ?thesis by (simp add: fut_done_def)
qed

section \<open>What a close leaves behind\<close>

definition closed_in :: "cid \<Rightarrow> world \<Rightarrow> world \<Rightarrow> bool" where
  "closed_in c w w' \<longleftrightarrow> c_sockfd (w_chans w' c) = -1
     \<and> fut_done w' (c_close_future (w_chans w c))
     \<and> \<not> is_active c w'
     \<and> c_fileno0 (w_chans w c) \<notin> dict_keys (w_channels w')
     \<and> c_fileno0 (w_chans w c) \<notin> dict_keys (w_due w')"

lemma evolves_chan: "evolves w w' \<Longrightarrow> c < w_next_cid w \<Longrightarrow> chan_evolves (w_chans w c) (w_chans w' c)"
  by (simp add: evolves_def)

lemma evolves_next: "evolves w w' \<Longrightarrow> c < w_next_cid w \<Longrightarrow> c < w_next_cid w'"
  "evolves w w' \<Longrightarrow> f < w_next_fid w \<Longrightarrow> f < w_next_fid w'"
  by (simp_all add: evolves_def)

context application
begin

lemma close_channel_internally_calm:
  assumes "in_eventloop th w" "w_started w"
  shows "calm (close_channel_internally E th c reason e w)"
proof -
  have keeps: "in_eventloop th w'" if "steps w w'" for w'
    using evolves_in_eventloop[OF steps_evolves[OF that] assms(2,1)] .
  have run: "steps w (snd (set_active E th c False w2))"
    if "cf_set E f c th (sock_close c w1) = (Ret u2, w2)" "fail_channel_work E th c x w = (Ret u1, w1)"
    for x f u1 u2 w1 w2
    using that set_active_run futures_run(4) steps_chan(8) fail_channel_work_run steps_refl
    by (metis snd_conv)
  have "calm (unregister E th c None w3)"
    if "set_active E th c False w2 = (Ret u3, w3)" "cf_set E f c th (sock_close c w1) = (Ret u2, w2)"
      "fail_channel_work E th c x w = (Ret u1, w1)"
    for x f u1 u2 u3 w1 w2 w3
    using keeps[OF run[OF that(2,3)]] that(1) by (intro unregister_calm) simp
  with assms show ?thesis
    unfolding close_channel_internally_def Let_def
    by (auto intro!: calm_andThen fail_channel_work_calm futures_calm set_active_calm)
qed

lemma close_channel_internally_closes:
  assumes "close_channel_internally E th c reason e w = (Ret u, w')"
    and "c < w_next_cid w" "c_close_future (w_chans w c) < w_next_fid w"
  shows "closed_in c w w'"
proof -
  from assms(1) have loop: "in_eventloop th w"
    by (auto simp: close_channel_internally_def split: if_splits)
  let ?x = "case e of Some e \<Rightarrow> e | None \<Rightarrow> channel_closed_exn reason"
  from assms(1) loop obtain w1 w2 w3 w4 u1 u2 u3 cf where
    1: "fail_channel_work E th c ?x w = (Ret u1, w1)" and
    2: "cf_set E (c_close_future (w_chans (sock_close c w1) c)) c th (sock_close c w1) = (Ret u2, w2)" and
    3: "set_active E th c False w2 = (Ret u3, w3)" and
    4: "unregister E th c None w3 = (Ret cf, w4)" and
    5: "w' = w4\<lparr>w_channels := dict_pop (c_fileno0 (w_chans w4 c)) (w_channels w4),
                  w_due := dict_pop (c_fileno0 (w_chans w4 c)) (w_due w4)\<rparr>"
    unfolding close_channel_internally_def Let_def by (auto elim!: andThen_RetE simp: sock_close_def)
  have ev1: "evolves w w1" using fail_channel_work_run[OF steps_refl] 1 by (metis snd_conv steps_evolves)
  have ev2: "evolves (sock_close c w1) w2" using futures_run(4)[OF steps_refl] 2 by (metis snd_conv steps_evolves)
  have ev4: "evolves w2 w4"
    using unregister_run[OF set_active_run[OF steps_refl]] 3 4 by (metis snd_conv steps_evolves)
  have c1: "c < w_next_cid w1" and f1: "c_close_future (w_chans w c) < w_next_fid w1"
    using evolves_next[OF ev1] assms(2,3) by blast+
  have id1: "c_close_future (w_chans w1 c) = c_close_future (w_chans w c)"
    "c_fileno0 (w_chans w1 c) = c_fileno0 (w_chans w c)"
    using evolves_chan[OF ev1 assms(2)] by (simp_all add: chan_evolves_def)
  have c2: "c < w_next_cid (sock_close c w1)" "c < w_next_cid w2"
    and f2: "c_close_future (w_chans w c) < w_next_fid w2"
    using evolves_next[OF ev2] c1 f1 by (simp_all add: sock_close_def)
  have done2: "fut_done w2 (c_close_future (w_chans w c))"
    using cf_set_done[OF application_axioms 2] f1 id1 by (simp add: sock_close_def)
  have id4: "c_close_future (w_chans w4 c) = c_close_future (w_chans w c)"
    "c_fileno0 (w_chans w4 c) = c_fileno0 (w_chans w c)" "c_sockfd (w_chans w4 c) = -1"
    using evolves_chan[OF ev2 c2(1)] evolves_chan[OF ev4 c2(2)] id1
    by (auto simp: chan_evolves_def sock_close_def)
  have "fut_done w' (c_close_future (w_chans w c))"
    using evolves_fut_done[OF ev4 f2 done2] by (simp add: 5 fut_done_def)
  with id4 show ?thesis by (auto simp: closed_in_def 5 is_active_def fut_done_def)
qed

text \<open>A close is a failing of the channel's work, and steps.\<close>

lemma close_channel_internally_tail:
  assumes "close_channel_internally E th c reason e w = (Ret u, w')"
  shows "\<exists>x w1. fail_channel_work E th c x w = (Ret (), w1) \<and> steps w1 w'"
proof -
  let ?x = "case e of Some e \<Rightarrow> e | None \<Rightarrow> channel_closed_exn reason"
  define k where "k = (\<lambda>(_ :: unit) w. andThen (cf_set E (c_close_future (w_chans w c)) c th (sock_close c w)) (\<lambda>_ w.
        andThen (set_active E th c False w) (\<lambda>_ w.
        andThen (unregister E th c None w) (\<lambda>_ w.
        (Ret (), w\<lparr>w_channels := dict_pop (c_fileno0 (w_chans w c)) (w_channels w),
                  w_due := dict_pop (c_fileno0 (w_chans w c)) (w_due w)\<rparr>)))))"
  have "close_channel_internally E th c reason e w = andThen (fail_channel_work E th c ?x w) k"
    using assms by (auto simp: close_channel_internally_def k_def split: if_splits)
  with assms obtain w1 where 1: "fail_channel_work E th c ?x w = (Ret (), w1)" "k () w1 = (Ret u, w')"
    by (metis andThen_RetE unit.exhaust)
  have "steps w1 (snd (k () w1))"
    unfolding k_def by (auto intro!: steps_intro)
  with 1 show ?thesis by auto
qed

end

section \<open>Closing tells everyone, and returns\<close>

text \<open>When done-callbacks leave the library alone and handlers return, a close returns, and no
  one is left waiting.\<close>

definition responsive :: "env \<Rightarrow> bool" where
  "responsive E \<longleftrightarrow> (\<forall>c cb th w. fst (e_handler E c cb th w) \<noteq> Diverge)"

text \<open>What \<open>fail_pendings\<close> does to the futures: every one that is still pending fails, but the
  one of the close indicator.\<close>

fun fail_futs :: "exn \<Rightarrow> fid \<Rightarrow> chunk list \<Rightarrow> (fid \<Rightarrow> fstate) \<Rightarrow> fid \<Rightarrow> fstate" where
  "fail_futs e cf [] futs = futs"
| "fail_futs e cf (ck # q) futs =
     fail_futs e cf q (if ck_close ck \<and> ck_future ck = cf \<or> futs (ck_future ck) \<noteq> FPending then futs
                       else futs(ck_future ck := FException e))"

lemma fail_futs_mono: "futs f \<noteq> FPending \<Longrightarrow> fail_futs e cf q futs f = futs f"
  by (induction q arbitrary: futs) auto

lemma fail_futs_done:
  "ck \<in> set q \<Longrightarrow> \<not> (ck_close ck \<and> ck_future ck = cf) \<Longrightarrow> fail_futs e cf q futs (ck_future ck) \<noteq> FPending"
  by (induction q arbitrary: futs) (auto simp: fail_futs_mono)

lemma fail_loop_passive:
  assumes "passive_listeners E"
  shows "fail_loop E th c e g i w = Some (Ret (), w\<lparr>w_futs :=
     fail_futs e (c_close_future (w_chans w c)) (drop i (read_list (w_chans w c) g)) (w_futs w)\<rparr>)"
proof (induction "length (read_list (w_chans w c) g) - i" arbitrary: i w)
  case 0
  then show ?case by (simp add: fail_loop.simps)
next
  case (Suc n)
  let ?q = "read_list (w_chans w c) g"
  let ?f = "ck_future (?q ! i)"
  from Suc(2) have i: "i < length ?q" "n = length ?q - Suc i" by simp_all
  from i have drop: "drop i ?q = ?q ! i # drop (Suc i) ?q" by (simp add: Cons_nth_drop_Suc)
  show ?case
  proof (cases "ck_close (?q ! i) \<and> ?f = c_close_future (w_chans w c) \<or> fut_done w ?f")
    case True
    then have "fail_loop E th c e g i w = fail_loop E th c e g (Suc i) w"
      using i(1) by (subst fail_loop.simps) auto
    with True show ?thesis
      unfolding Suc(1)[OF i(2)] drop by (simp add: fut_done_def)
  next
    case False
    let ?w = "w\<lparr>w_futs := (w_futs w)(?f := FException e)\<rparr>"
    from False have "fut_set_exception E ?f e th w = (Ret (), ?w)"
      by (simp add: fut_set_exception_def fut_complete_passive[OF assms])
    with False i(1) have "fail_loop E th c e g i w = fail_loop E th c e g (Suc i) ?w"
      by (subst fail_loop.simps) auto
    moreover have "fail_loop E th c e g (Suc i) ?w = Some (Ret (), ?w\<lparr>w_futs :=
       fail_futs e (c_close_future (w_chans w c)) (drop (Suc i) ?q) (w_futs ?w)\<rparr>)"
      using Suc(1)[of ?w "Suc i"] i(2) by simp
    ultimately show ?thesis using False unfolding drop by (auto simp: fut_done_def)
  qed
qed

lemma fire_returns [returns_intro]: "responsive E \<Longrightarrow> returns (fire E th c cb w)"
  unfolding fire_def fire_exception_caught_def responsive_def by (intro returns_intro) simp_all

lemma check_writability_returns [returns_intro]: "responsive E \<Longrightarrow> returns (check_writability E th c w)"
  by (simp add: check_writability_def Let_def fire_returns)

lemma set_active_returns [returns_intro]:
  assumes "responsive E"
  shows "returns (set_active E th c b w)"
proof -
  have "returns (andThen (if x then fire E th c ChannelInactive w else (Ret (), w))
      (\<lambda>_ w. if y then fire E th c ChannelActive (u w) else (Ret (), w)))" for x y u w
    by (rule returns_andThen) (simp_all add: fire_returns[OF assms])
  then show ?thesis
    unfolding set_active_def Let_def
    by (intro returns_handling returns_not_Diverge) auto
qed

lemma cf_set_passive:
  "passive_listeners E \<Longrightarrow> returns (cf_set E f c th w) \<and> returns (cf_set_exception E f e th w)"
  by (simp add: cf_set_def cf_set_exception_def fut_set_result_def fut_set_exception_def
      fut_complete_passive)

lemma fail_channel_work_returns:
  assumes "passive_listeners E" "responsive E"
  shows "returns (fail_channel_work E th c e w)"
  using assms cf_set_passive[OF assms(1)]
  by (auto simp: fail_channel_work_def fail_pendings_def fail_loop_passive Let_def
      intro!: returns_andThen returns_if check_writability_returns)

text \<open>The futures that a failing of the channel's work completes.\<close>

lemma fail_channel_work_done:
  assumes "application E" "passive_listeners E" "\<not> c_server (w_chans w c)"
    and "fail_channel_work E th c e w = (Ret u, w')"
    and "c_channel_future (w_chans w c) < w_next_fid w"
  shows "fut_done w' (c_channel_future (w_chans w c))"
    and "\<lbrakk>ck \<in> set (c_pendings (w_chans w c)); ck_future ck < w_next_fid w;
      \<not> (ck_close ck \<and> ck_future ck = c_close_future (w_chans w c))\<rbrakk> \<Longrightarrow> fut_done w' (ck_future ck)"
proof -
  let ?ch = "w_chans w c"
  define w1 where "w1 = (if fut_done w (c_channel_future ?ch) then w
    else w\<lparr>w_futs := (w_futs w)(c_channel_future ?ch := FException e)\<rparr>)"
  define w2 where "w2 = w1\<lparr>w_futs := fail_futs e (c_close_future ?ch) (c_pendings ?ch) (w_futs w1)\<rparr>"
  have w1: "w_chans w1 = w_chans w" "w_next_fid w1 = w_next_fid w" "fut_done w1 (c_channel_future ?ch)"
    by (simp_all add: w1_def fut_done_def)
  have q: "read_list ?ch (c_pgen ?ch) = c_pendings ?ch"
    by (simp add: read_list_def)
  have "fail_channel_work E th c e w = fail_pendings E th c e w1"
    using assms(3) by (simp add: fail_channel_work_def w1_def cf_set_exception_def
        fut_set_exception_def fut_complete_passive[OF assms(2)])
  with assms(4) have "(Ret u, w') = check_writability E th c
      (upd_chan c (\<lambda>ch. (replace_pendings [] ch)\<lparr>c_pending_bytes := 0\<rparr>) w2)"
    by (simp add: fail_pendings_def fail_loop_passive[OF assms(2)] q w2_def w1(1))
  then have "evolves (upd_chan c (\<lambda>ch. (replace_pendings [] ch)\<lparr>c_pending_bytes := 0\<rparr>) w2) w'"
    using application.check_writability_run[OF assms(1) steps_refl] by (metis snd_conv steps_evolves)
  then have keep: "fut_done w2 f \<Longrightarrow> fut_done w' f" if "f < w_next_fid w" for f
    using that by (drule_tac f = f in evolves_fut_done) (simp_all add: fut_done_def w2_def w1)
  show "fut_done w' (c_channel_future ?ch)"
    using w1(3) assms(5) by (intro keep) (simp_all add: w2_def fut_done_def fail_futs_mono)
  show "fut_done w' (ck_future ck)" if "ck \<in> set (c_pendings ?ch)" "ck_future ck < w_next_fid w"
    "\<not> (ck_close ck \<and> ck_future ck = c_close_future ?ch)"
    using fail_futs_done[OF that(1,3)] that(2) by (intro keep) (simp_all add: w2_def fut_done_def)
qed

text \<open>Everything that was waiting on the channel is told: its connect future, its close future
  and the future of every chunk still queued.\<close>

definition all_told :: "cid \<Rightarrow> world \<Rightarrow> world \<Rightarrow> bool" where
  "all_told c w w' \<longleftrightarrow> fut_done w' (c_channel_future (w_chans w c))
     \<and> fut_done w' (c_close_future (w_chans w c))
     \<and> (\<forall>ck \<in> set (c_pendings (w_chans w c)). fut_done w' (ck_future ck))"

definition chan_futures :: "chan \<Rightarrow> fid set" where
  "chan_futures ch = {c_channel_future ch, c_close_future ch} \<union> ck_future ` set (c_pendings ch)"

lemma close_channel_internally_returns:
  assumes "application E" "passive_listeners E" "responsive E" "in_eventloop th w" "w_started w"
  shows "returns (close_channel_internally E th c reason e w)"
proof -
  have "returns (unregister E th c None w')" if "in_eventloop th w'" for w'
    using that assms(2,3) cf_set_passive[OF assms(2)]
    by (auto simp: unregister_def new_future_def in_eventloop_def sel_unregister_def Let_def
        intro!: returns_andThen returns_handling returns_not_Diverge returns_if fire_returns)
  moreover have "in_eventloop th w3"
    if "fail_channel_work E th c x w = (Ret u1, w1)" "cf_set E f c th (sock_close c w1) = (Ret u2, w2)"
      "set_active E th c False w2 = (Ret u3, w3)" for x f u1 u2 u3 w1 w2 w3
  proof -
    have "steps w w3"
      using application.set_active_run[OF assms(1) application.futures_run(4)[OF assms(1)
          steps_chan(8)[OF application.fail_channel_work_run[OF assms(1) steps_refl]]]] that
      by (metis snd_conv)
    from evolves_in_eventloop[OF steps_evolves[OF this] assms(5,4)] show ?thesis .
  qed
  ultimately show ?thesis
    using assms cf_set_passive[OF assms(2)]
    unfolding close_channel_internally_def Let_def
    by (auto intro!: returns_andThen fail_channel_work_returns set_active_returns)
qed

lemma close_channel_internally_tells:
  assumes "application E" "passive_listeners E" "\<not> c_server (w_chans w c)"
    and "close_channel_internally E th c reason e w = (Ret u, w')"
    and "c < w_next_cid w" "\<forall>f \<in> chan_futures (w_chans w c). f < w_next_fid w"
  shows "all_told c w w'"
proof -
  have closed: "fut_done w' (c_close_future (w_chans w c))"
    using application.close_channel_internally_closes[OF assms(1,4,5)] assms(6)
    by (simp add: closed_in_def chan_futures_def)
  obtain x w1 where 1: "fail_channel_work E th c x w = (Ret (), w1)" and "steps w1 w'"
    using application.close_channel_internally_tail[OF assms(1,4)] by blast
  then have ev: "evolves w1 w'" by (simp add: steps_evolves)
  have next1: "f < w_next_fid w1" if "f < w_next_fid w" for f
    using evolves_next(2)[OF steps_evolves that] 1 steps_refl
      application.fail_channel_work_run[OF assms(1), of w w] by (metis snd_conv)
  show ?thesis
    unfolding all_told_def
  proof (intro conjI ballI closed)
    have "f < w_next_fid w" if "f \<in> chan_futures (w_chans w c)" for f using assms(6) that by blast
    note lt = this[unfolded chan_futures_def]
    note told = evolves_fut_done[OF ev next1]
    have cf: "c_channel_future (w_chans w c) < w_next_fid w" by (intro lt) simp
    show "fut_done w' (c_channel_future (w_chans w c))"
      by (rule told[OF cf fail_channel_work_done(1)[OF assms(1-3) 1 cf]])
    fix ck assume ck: "ck \<in> set (c_pendings (w_chans w c))"
    then have f: "ck_future ck < w_next_fid w" by (intro lt) simp
    show "fut_done w' (ck_future ck)"
    proof (cases "ck_close ck \<and> ck_future ck = c_close_future (w_chans w c)")
      case True
      with closed show ?thesis by simp
    next
      case False
      from fail_channel_work_done(2)[OF assms(1-3) 1 cf ck f False] show ?thesis
        using told f by simp
    qed
  qed
qed

end
