(* ===== verification/Graceful.thy ===== *)
theory Graceful
  imports Writing Closing
begin

text \<open>
  A graceful close from the call to the closed socket: \<open>close_gracefully\<close> queues the close
  indicator behind the data, and the pass that reaches it has sent the data first.
\<close>

lemma advance_all:
  "advance (length (stream (data_part q))) q =
     (dropWhile (\<lambda>ck. \<not> ck_close ck) q, map ck_future (data_part q))"
  by (induction q) (auto simp: data_part_def)

lemma stream_data_part: "take (length (stream (data_part q))) (stream q) = stream (data_part q)"
  unfolding data_part_def by (induction q) auto

lemma data_part_indicator: "\<forall>ck \<in> set q. \<not> ck_close ck \<Longrightarrow> ck_close ck' \<Longrightarrow> data_part (q @ ck' # q') = q"
  by (induction q) (auto simp: data_part_def)

text \<open>A pass over a queue with a close indicator, to a kernel that refuses nothing, sends all
  the data in front of the indicator and then closes the channel.\<close>

lemma send_until_close:
  assumes "passive_listeners E" "send_ok (k_send (e_kernel E) c)"
    and "queue_ok (w_futs w) (c_pendings (w_chans w c))" "\<not> refuses E c w"
    and "\<exists>ck \<in> set (c_pendings (w_chans w c)). ck_close ck"
  shows "\<exists>k. send_pending_chunks E th c w = close_channel_internally E th c ''chunk with close indicator'' None
      (sent_world c (c_pendings (w_chans w c)) (length (stream (data_part (c_pendings (w_chans w c))))) k w)"
proof -
  let ?q = "c_pendings (w_chans w c)"
  let ?n = "length (stream (data_part ?q))"
  obtain n k where "n \<le> ?n" "n < ?n \<longrightarrow> refuses E c w"
    and r: "sent_result E th c ?q n k w (send_pending_chunks E th c w)"
    using send_pending_chunks_advance[OF assms(1-3), of th] by blast
  with assms(4) have n: "n = ?n" by simp
  have close: "dropWhile (\<lambda>ck. \<not> ck_close ck) ?q \<noteq> []" "ck_close (hd (dropWhile (\<lambda>ck. \<not> ck_close ck) ?q))"
    using assms(5) hd_dropWhile[of "\<lambda>ck. \<not> ck_close ck" ?q] by auto
  then show ?thesis
    using r unfolding sent_result_def Let_def n advance_all fst_conv by auto
qed

text \<open>What such a pass did before it closes.\<close>

lemma sent_all_world:
  assumes "w1 = sent_world c q (length (stream (data_part q))) k w"
  shows "c_wire (w_chans w1 c) = c_wire (w_chans w c) @ stream (data_part q)"
    and "\<forall>ck \<in> set (data_part q). w_futs w1 (ck_future ck) = FResult VTrue"
    and "w_next_fid w1 = w_next_fid w" "w_next_cid w1 = w_next_cid w" "w_started w1 = w_started w"
    "w_thread w1 = w_thread w" "c_close_future (w_chans w1 c) = c_close_future (w_chans w c)"
    "c_fileno0 (w_chans w1 c) = c_fileno0 (w_chans w c)"
  using assms by (simp_all add: sent_world_def stream_data_part advance_all complete_all_def)

definition queued_close :: "fid \<Rightarrow> chunk" where
  "queued_close f = \<lparr>ck_buffer = [], ck_future = f, ck_close = True\<rparr>"

text \<open>The call itself queues the indicator.\<close>

lemma close_gracefully_queues:
  assumes "in_eventloop th w" "is_active c w" "\<not> c_server (w_chans w c)"
  shows "\<exists>x s k. close_gracefully E th c w = (Ret (c_close_future (w_chans w c)),
    upd_chan c (\<lambda>ch. ch\<lparr>c_pendings := c_pendings ch @ [queued_close (c_close_future (w_chans w c))],
       c_pending_bytes := c_pending_bytes ch, c_flag := x\<rparr>) (w\<lparr>w_selector := s, w_kcalls := k\<rparr>))"
proof -
  let ?ck = "queued_close (c_close_future (w_chans w c))"
  have "ck_close ?ck \<or> ck_buffer ?ck \<noteq> []" by (simp add: queued_close_def)
  from add_pending_in_loop[OF assms(1) this, of E c] obtain x s k where
    "add_pending E th c (Some ?ck) w = (Ret (), upd_chan c (\<lambda>ch. ch\<lparr>c_pendings := c_pendings ch @ [?ck],
       c_pending_bytes := c_pending_bytes ch, c_flag := x\<rparr>) (w\<lparr>w_selector := s, w_kcalls := k\<rparr>))"
    by (auto simp: queued_close_def)
  then have "close_gracefully E th c w = (Ret (c_close_future (w_chans w c)),
    upd_chan c (\<lambda>ch. ch\<lparr>c_pendings := c_pendings ch @ [?ck],
       c_pending_bytes := c_pending_bytes ch, c_flag := x\<rparr>) (w\<lparr>w_selector := s, w_kcalls := k\<rparr>))"
    using assms by (simp add: close_gracefully_def queued_close_def Let_def)
  then show ?thesis by blast
qed

lemma graceful_close:
  assumes "application E" "passive_listeners E" "responsive E" "send_ok (k_send (e_kernel E) c)"
    and "io_ok th c w" "is_active c w" "\<not> c_server (w_chans w c)" "\<not> refuses E c w" "w_started w"
    and "c < w_next_cid w" "c_close_future (w_chans w c) < w_next_fid w"
  shows "\<exists>f w1 w2 bs. close_gracefully E th c w = (Ret f, w1) \<and> send_pending_chunks E th c w1 = (Ret (), w2)
    \<and> c_wire (w_chans w2 c) = chan_bytes c w @ bs
    \<and> (\<forall>ck \<in> set (c_pendings (w_chans w c)). w_futs w2 (ck_future ck) = FResult VTrue)
    \<and> closed_in c w w2"
proof -
  let ?q = "c_pendings (w_chans w c)" and ?cf = "c_close_future (w_chans w c)"
  note ok = assms(5)[unfolded io_ok_def]
  have th: "in_eventloop th w" using ok by simp
  obtain x s k where g: "close_gracefully E th c w = (Ret ?cf,
    upd_chan c (\<lambda>ch. ch\<lparr>c_pendings := c_pendings ch @ [queued_close ?cf],
       c_pending_bytes := c_pending_bytes ch, c_flag := x\<rparr>) (w\<lparr>w_selector := s, w_kcalls := k\<rparr>))"
    using close_gracefully_queues[OF th assms(6,7)] by blast
  define w1 where "w1 = snd (close_gracefully E th c w)"
  have w1: "c_pendings (w_chans w1 c) = ?q @ [queued_close ?cf]" "w_futs w1 = w_futs w"
    "c_wire (w_chans w1 c) = c_wire (w_chans w c)" "c_sockfd (w_chans w1 c) = c_sockfd (w_chans w c)"
    "c_close_future (w_chans w1 c) = ?cf" "c_fileno0 (w_chans w1 c) = c_fileno0 (w_chans w c)"
    "w_next_fid w1 = w_next_fid w" "w_next_cid w1 = w_next_cid w" "w_started w1" "w_thread w1 = w_thread w"
    using assms(9) by (simp_all add: w1_def g)
  have data: "data_part (?q @ [queued_close ?cf]) = ?q"
    using ok by (intro data_part_indicator) (auto simp: queued_close_def)
  have "queue_ok (w_futs w1) (c_pendings (w_chans w1 c))" "\<not> refuses E c w1"
    using ok assms(8) by (auto simp: w1 queue_ok_append queued_close_def queue_ok_def refuses_def sock_send_def)
  from send_until_close[OF assms(2,4) this, of th] obtain k' where
    s: "send_pending_chunks E th c w1 = close_channel_internally E th c ''chunk with close indicator'' None
      (sent_world c (?q @ [queued_close ?cf]) (length (stream (data_part (?q @ [queued_close ?cf])))) k' w1)"
    by (auto simp: w1 queued_close_def)
  define w1' where "w1' = sent_world c (?q @ [queued_close ?cf])
    (length (stream (data_part (?q @ [queued_close ?cf])))) k' w1"
  note sent = sent_all_world[OF w1'_def, unfolded data w1]
  have loop: "in_eventloop th w1'" using th by (simp add: in_eventloop_def sent)
  obtain w2 where w2: "close_channel_internally E th c ''chunk with close indicator'' None w1' = (Ret (), w2)"
    using close_channel_internally_returns[OF assms(1-3) loop, of c "''chunk with close indicator''" None]
      sent(5) w1(9) by (auto elim: returnsE)
  have ev: "evolves w1' w2"
    using application.close_channel_internally_run[OF assms(1) steps_refl] w2 by (metis snd_conv steps_evolves)
  have "closed_in c w1' w2"
    using application.close_channel_internally_closes[OF assms(1) w2] sent assms(10,11) by simp
  then have closed: "closed_in c w w2" by (simp add: closed_in_def sent)
  obtain bs where wire: "c_wire (w_chans w2 c) = chan_bytes c w @ bs"
    using evolves_chan[OF ev, of c] assms(10) by (auto simp: sent chan_evolves_def chan_bytes_def)
  have "w_futs w2 (ck_future ck) = FResult VTrue" if "ck \<in> set ?q" for ck
  proof -
    have "ck_future ck < w_next_fid w1'" using that ok by (simp add: sent)
    then have "w_futs w1' (ck_future ck) \<le> w_futs w2 (ck_future ck)" using ev by (simp add: evolves_def)
    with that show ?thesis by (simp add: sent less_eq_fstate_def)
  qed
  moreover have "close_gracefully E th c w = (Ret ?cf, w1)" by (simp add: w1_def g)
  moreover have "send_pending_chunks E th c w1 = (Ret (), w2)" using s w2 unfolding w1'_def by simp
  ultimately show ?thesis using closed wire by blast
qed

end
