(* ===== verification/Wakeup.thy ===== *)
theory Wakeup
  imports Prelude
begin

text \<open>
  Waking the loop, with the threads interleaved: any number of threads in \<open>submit_task\<close> or
  \<open>stop\<close>, and the loop's thread in \<open>_start\<close>, each at its own place in the code, sharing the task
  queue, the stop flag and the event descriptor with its lock.  The other theories take these
  methods as atomic; here a step is one access to the shared state.
\<close>

section \<open>The protocol\<close>

text \<open>Where a submitting thread is: nowhere; past the check of \<open>_stop_polling\<close>; past the \<open>put\<close> (or the
  setting of \<open>_stop_polling\<close>) and about to call \<open>unsafe_write\<close>; holding the lock, past
  \<open>if self._closed\<close>; past \<open>self._write\<close>.\<close>

datatype submitter = Idle | Admitted | Notifying | Locked | Wrote

text \<open>Where the loop's thread is: at the top of the \<open>while\<close>; in \<open>select\<close>; about to read the event
  descriptor, which \<open>select\<close> reported; past the read and before the count goes down; in
  \<open>_process_task_queue\<close>; gone.\<close>

datatype looper = Top | Selecting | Reading | Drained | Tasks | Exited

record wake =
  wk_tasks :: nat            \<comment> \<open>length of \<open>_taskq\<close>\<close>
  wk_stop :: bool            \<comment> \<open>\<open>_stop_polling\<close>\<close>
  wk_pipe :: nat             \<comment> \<open>bytes in the pipe\<close>
  wk_counts :: int           \<comment> \<open>\<open>_unsafe_counts\<close>\<close>
  wk_lock :: "tid option"    \<comment> \<open>\<open>_lock\<close> of the event descriptor\<close>
  wk_at :: "tid \<Rightarrow> submitter"
  wk_loop :: looper

definition move :: "tid \<Rightarrow> submitter \<Rightarrow> wake \<Rightarrow> wake" where
  "move t p s = s\<lparr>wk_at := (wk_at s)(t := p)\<rparr>"

inductive wake_step :: "wake \<Rightarrow> wake \<Rightarrow> bool" where
  submit_check: "wk_at s t = Idle \<Longrightarrow> \<not> wk_stop s \<Longrightarrow> wake_step s (move t Admitted s)"
| submit_put: "wk_at s t = Admitted \<Longrightarrow> wake_step s (move t Notifying (s\<lparr>wk_tasks := Suc (wk_tasks s)\<rparr>))"
| stop_set: "wk_at s t = Idle \<Longrightarrow> \<not> wk_stop s \<Longrightarrow> wake_step s (move t Notifying (s\<lparr>wk_stop := True\<rparr>))"
| write_lock: "wk_at s t = Notifying \<Longrightarrow> wk_lock s = None \<Longrightarrow> wake_step s (move t Locked (s\<lparr>wk_lock := Some t\<rparr>))"
| write_skip: "wk_at s t = Locked \<Longrightarrow> wk_counts s > 0 \<Longrightarrow> wake_step s (move t Idle (s\<lparr>wk_lock := None\<rparr>))"
| write_byte: "wk_at s t = Locked \<Longrightarrow> \<not> wk_counts s > 0 \<Longrightarrow>
    wake_step s (move t Wrote (s\<lparr>wk_pipe := Suc (wk_pipe s)\<rparr>))"
| write_count: "wk_at s t = Wrote \<Longrightarrow>
    wake_step s (move t Idle (s\<lparr>wk_counts := wk_counts s + 1, wk_lock := None\<rparr>))"
| loop_exit: "wk_loop s = Top \<Longrightarrow> wk_stop s \<Longrightarrow> wake_step s (s\<lparr>wk_loop := Exited\<rparr>)"
| loop_select: "wk_loop s = Top \<Longrightarrow> \<not> wk_stop s \<Longrightarrow> wake_step s (s\<lparr>wk_loop := Selecting\<rparr>)"
| select_wakeup: "wk_loop s = Selecting \<Longrightarrow> wk_pipe s > 0 \<Longrightarrow> wake_step s (s\<lparr>wk_loop := Reading\<rparr>)"
| select_other: "wk_loop s = Selecting \<Longrightarrow> wake_step s (s\<lparr>wk_loop := Tasks\<rparr>)"
| read_byte: "wk_loop s = Reading \<Longrightarrow> wk_pipe s > 0 \<Longrightarrow>
    wake_step s (s\<lparr>wk_loop := Drained, wk_pipe := wk_pipe s - 1\<rparr>)"
| read_count: "wk_loop s = Drained \<Longrightarrow> wk_lock s = None \<Longrightarrow>
    wake_step s (s\<lparr>wk_loop := Tasks, wk_counts := wk_counts s - 1\<rparr>)"
| task_run: "wk_loop s = Tasks \<Longrightarrow> wk_tasks s > 0 \<Longrightarrow> wake_step s (s\<lparr>wk_tasks := wk_tasks s - 1\<rparr>)"
| tasks_done: "wk_loop s = Tasks \<Longrightarrow> wk_tasks s = 0 \<Longrightarrow> wake_step s (s\<lparr>wk_loop := Top\<rparr>)"

definition wake_init :: wake where
  "wake_init = \<lparr>wk_tasks = 0, wk_stop = False, wk_pipe = 0, wk_counts = 0, wk_lock = None,
     wk_at = (\<lambda>t. Idle), wk_loop = Top\<rparr>"

inductive wake_reach :: "wake \<Rightarrow> bool" where
  init: "wake_reach wake_init"
| step: "wake_reach s \<Longrightarrow> wake_step s s' \<Longrightarrow> wake_reach s'"

section \<open>Invariants\<close>

text \<open>The lock is held by the thread that is inside \<open>unsafe_write\<close>, and by nobody else.\<close>

definition lock_ok :: "wake \<Rightarrow> bool" where
  "lock_ok s \<longleftrightarrow> (\<forall>t. wk_at s t \<in> {Locked, Wrote} \<longleftrightarrow> wk_lock s = Some t)"

definition writing :: "wake \<Rightarrow> bool" where
  "writing s \<longleftrightarrow> (\<exists>t. wk_at s t = Wrote)"

text \<open>The bytes in the pipe are counted, but for the one a writer has just put there and the one
  the loop has just taken.\<close>

definition counts_ok :: "wake \<Rightarrow> bool" where
  "counts_ok s \<longleftrightarrow>
     int (wk_pipe s) + of_bool (wk_loop s = Drained) = wk_counts s + of_bool (writing s)
     \<and> wk_counts s \<in> {0, 1} \<and> (writing s \<longrightarrow> wk_counts s = 0) \<and> (wk_loop s = Reading \<longrightarrow> wk_pipe s > 0)"

text \<open>Whoever changed what the loop must see is still on the way to wake it, or it is awake, or the
  byte is in the pipe.\<close>

definition notifying :: "wake \<Rightarrow> bool" where
  "notifying s \<longleftrightarrow> (\<exists>t. wk_at s t \<in> {Notifying, Locked, Wrote})"

definition seen_ok :: "wake \<Rightarrow> bool" where
  "seen_ok s \<longleftrightarrow>
     (wk_loop s = Selecting \<and> (wk_tasks s > 0 \<or> wk_stop s) \<longrightarrow> wk_pipe s > 0 \<or> notifying s)
     \<and> (wk_loop s = Top \<and> wk_tasks s > 0 \<longrightarrow> wk_pipe s > 0 \<or> notifying s)"

definition wake_ok :: "wake \<Rightarrow> bool" where
  "wake_ok s \<longleftrightarrow> lock_ok s \<and> counts_ok s \<and> seen_ok s"

lemma move_simps [simp]:
  "wk_at (move t p s) = (wk_at s)(t := p)" "wk_tasks (move t p s) = wk_tasks s"
  "wk_stop (move t p s) = wk_stop s" "wk_pipe (move t p s) = wk_pipe s"
  "wk_counts (move t p s) = wk_counts s" "wk_lock (move t p s) = wk_lock s"
  "wk_loop (move t p s) = wk_loop s"
  by (simp_all add: move_def)

lemma writing_locked: "lock_ok s \<Longrightarrow> wk_lock s = None \<Longrightarrow> \<not> writing s"
  by (auto simp: lock_ok_def writing_def)

lemma writing_move:
  assumes "lock_ok s" "wk_at s t \<in> {Locked, Wrote}"
  shows "writing (move t p s) \<longleftrightarrow> p = Wrote"
proof -
  have "wk_at s t' \<noteq> Wrote" if "t' \<noteq> t" for t'
    using assms that unfolding lock_ok_def by (metis insertI1 insert_commute option.inject)
  then show ?thesis by (auto simp: writing_def)
qed

lemma step_lock_ok: "wake_step s s' \<Longrightarrow> lock_ok s \<Longrightarrow> lock_ok s'"
  by (induction rule: wake_step.induct)
    (auto simp: lock_ok_def split: if_splits, (metis option.inject submitter.distinct)+)

text \<open>Who holds the lock is writing exactly if it is past the write.\<close>

lemma writing_frame:
  "wk_at s t \<notin> {Locked, Wrote} \<Longrightarrow> p \<noteq> Wrote \<Longrightarrow> writing (move t p s) \<longleftrightarrow> writing s"
  "writing (s\<lparr>wk_tasks := n\<rparr>) \<longleftrightarrow> writing s" "writing (s\<lparr>wk_stop := b\<rparr>) \<longleftrightarrow> writing s"
  "writing (s\<lparr>wk_lock := l\<rparr>) \<longleftrightarrow> writing s" "writing (s\<lparr>wk_pipe := n\<rparr>) \<longleftrightarrow> writing s"
  "writing (s\<lparr>wk_counts := i\<rparr>) \<longleftrightarrow> writing s" "writing (s\<lparr>wk_loop := x\<rparr>) \<longleftrightarrow> writing s"
  by (auto simp: writing_def)

lemma move_frame:
  "move t p (s\<lparr>wk_tasks := n\<rparr>) = (move t p s)\<lparr>wk_tasks := n\<rparr>"
  "move t p (s\<lparr>wk_stop := b\<rparr>) = (move t p s)\<lparr>wk_stop := b\<rparr>"
  "move t p (s\<lparr>wk_lock := l\<rparr>) = (move t p s)\<lparr>wk_lock := l\<rparr>"
  "move t p (s\<lparr>wk_pipe := n\<rparr>) = (move t p s)\<lparr>wk_pipe := n\<rparr>"
  "move t p (s\<lparr>wk_counts := i\<rparr>) = (move t p s)\<lparr>wk_counts := i\<rparr>"
  by (simp_all add: move_def)

lemma step_counts_ok:
  assumes "wake_step s s'" "lock_ok s" "counts_ok s"
  shows "counts_ok s'"
  using assms
proof (induction rule: wake_step.induct)
  case (write_byte s t)
  then have "\<not> writing s"
    using writing_move[of s t Locked] by (simp add: move_def fun_upd_idem)
  with write_byte writing_move[of s t Wrote] show ?case by (auto simp: counts_ok_def move_frame writing_frame)
next
  case (write_count s t)
  then have "writing s" by (auto simp: writing_def)
  with write_count writing_move[of s t Idle] show ?case by (auto simp: counts_ok_def move_frame writing_frame)
next
  case (write_skip s t)
  then have "\<not> writing s" by (auto simp: counts_ok_def)
  with write_skip writing_move[of s t Idle] show ?case by (auto simp: counts_ok_def move_frame writing_frame)
next
  case (read_count s)
  then show ?case using writing_locked[of s] by (auto simp: counts_ok_def writing_frame)
qed (auto simp: counts_ok_def move_frame writing_frame)

lemma notifying_frame:
  "notifying (s\<lparr>wk_tasks := n\<rparr>) \<longleftrightarrow> notifying s" "notifying (s\<lparr>wk_stop := b\<rparr>) \<longleftrightarrow> notifying s"
  "notifying (s\<lparr>wk_lock := l\<rparr>) \<longleftrightarrow> notifying s" "notifying (s\<lparr>wk_pipe := n\<rparr>) \<longleftrightarrow> notifying s"
  "notifying (s\<lparr>wk_counts := i\<rparr>) \<longleftrightarrow> notifying s" "notifying (s\<lparr>wk_loop := x\<rparr>) \<longleftrightarrow> notifying s"
  by (auto simp: notifying_def)

lemma notifying_move:
  "p \<in> {Notifying, Locked, Wrote} \<Longrightarrow> notifying (move t p s)"
  "wk_at s t \<notin> {Notifying, Locked, Wrote} \<Longrightarrow> notifying s \<Longrightarrow> notifying (move t p s)"
  by (auto simp: notifying_def)

lemma step_seen_ok:
  assumes "wake_step s s'" "lock_ok s" "counts_ok s" "seen_ok s"
  shows "seen_ok s'"
  using assms
proof (induction rule: wake_step.induct)
  case (write_skip s t)
  then have "\<not> writing s" by (auto simp: counts_ok_def)
  with write_skip show ?case by (auto simp: seen_ok_def counts_ok_def)
next
  case (write_count s t)
  then have "writing s" by (auto simp: writing_def)
  with write_count show ?case by (auto simp: seen_ok_def counts_ok_def)
qed (auto simp: seen_ok_def notifying_frame move_frame notifying_move)

lemma reach_wake_ok: "wake_reach s \<Longrightarrow> wake_ok s"
proof (induction rule: wake_reach.induct)
  case init
  then show ?case
    by (simp add: wake_ok_def wake_init_def lock_ok_def counts_ok_def seen_ok_def writing_def)
next
  case (step s s')
  then show ?case using step_lock_ok step_counts_ok step_seen_ok by (simp add: wake_ok_def)
qed

section \<open>What it guarantees\<close>

text \<open>The loop sleeps: it is in \<open>select\<close> and the event descriptor is not readable.\<close>

definition asleep :: "wake \<Rightarrow> bool" where
  "asleep s \<longleftrightarrow> wk_loop s = Selecting \<and> wk_pipe s = 0"

lemma asleep_nothing_to_do:
  assumes "wake_reach s" "asleep s" "\<not> notifying s"
  shows "wk_tasks s = 0 \<and> \<not> wk_stop s"
  using reach_wake_ok[OF assms(1)] assms(2,3) by (auto simp: wake_ok_def seen_ok_def asleep_def)

text \<open>A thread on its way to wake the loop is never stuck but for the lock, whose holder is not.\<close>

lemma notifier_steps:
  assumes "wake_reach s" "wk_at s t \<in> {Notifying, Locked, Wrote}"
  shows "\<exists>t' s'. wk_at s t' \<in> {Notifying, Locked, Wrote} \<and> wake_step s s' \<and> wk_at s' t' \<noteq> wk_at s t'"
proof -
  have ok: "lock_ok s" using reach_wake_ok[OF assms(1)] by (simp add: wake_ok_def)
  have holder: "\<exists>s'. wake_step s s' \<and> wk_at s' u \<noteq> wk_at s u" if "wk_at s u \<in> {Locked, Wrote}" for u
  proof (cases "wk_at s u = Locked")
    case True
    then show ?thesis
      by (cases "wk_counts s > 0") (force intro: write_skip write_byte)+
  next
    case False
    with that have "wk_at s u = Wrote" by simp
    then show ?thesis by (force intro: write_count)
  qed
  show ?thesis
  proof (cases "wk_lock s")
    case None
    with ok assms(2) have "wk_at s t = Notifying" by (auto simp: lock_ok_def)
    with None have "wake_step s (move t Locked (s\<lparr>wk_lock := Some t\<rparr>))" by (intro write_lock)
    with \<open>wk_at s t = Notifying\<close> show ?thesis by (intro exI[of _ t] exI) auto
  next
    case (Some u)
    then have "wk_at s u \<in> {Locked, Wrote}" using ok by (simp add: lock_ok_def)
    with holder[OF this] show ?thesis by blast
  qed
qed

end
