(* ===== verification/Timeouts.thy ===== *)
theory Timeouts
  imports Closing
begin

text \<open>
  Connect timeouts: how long the loop may sleep, and what \<open>_process_connection_timeout\<close> closes.
  The second part is for handlers that leave the library alone (the adapter and the logging
  handler do), for which the effect of a close is local to its channel.
\<close>

section \<open>Sleeping\<close>

lemma poll_timeout_none:
  assumes "e_debug E \<longrightarrow> 0 \<le> e_debug_interval E"
  shows "fst (poll_timeout E w) = None \<longleftrightarrow> w_due w = [] \<and> \<not> e_debug E"
  using assms by (auto simp: poll_timeout_def millis_to_wait_for_connect_timeout_def Let_def)

lemma poll_timeout_some:
  assumes "fst (poll_timeout E w) = Some t"
  shows "1 \<le> t"
    and "(fd, due) \<in> set (w_due w) \<Longrightarrow>
      k_now (e_kernel E) (w_kcalls w) + 1000 * t \<le> max (k_now (e_kernel E) (w_kcalls w) + 1000) due"
    and "e_debug E \<Longrightarrow> 1000 * t \<le> max 1000 (e_debug_interval E)"
proof -
  let ?now = "k_now (e_kernel E) (w_kcalls w)"
  define m where "m = fst (millis_to_wait_for_connect_timeout E w)"
  define s where "s = (if e_debug E then (if m < 0 then e_debug_interval E else min (e_debug_interval E) m) else m)"
  have t: "t = max 1 (s div 1000)" "0 \<le> s"
    using assms by (auto simp: poll_timeout_def m_def s_def Let_def split: prod.splits if_splits)
  then show "1 \<le> t" by simp
  have "1000 * (s div 1000) \<le> s" by simp
  with t show "1000 * t \<le> max 1000 (e_debug_interval E)" if "e_debug E"
    using that by (auto simp: s_def max_def min_def split: if_splits)
  assume due: "(fd, due) \<in> set (w_due w)"
  then have "w_due w \<noteq> []" by auto
  then have m: "m = max 0 (Min (set (map snd (w_due w))) - ?now)"
    by (simp add: m_def millis_to_wait_for_connect_timeout_def)
  moreover have "Min (set (map snd (w_due w))) \<le> due" using due by (intro Min_le) force+
  ultimately have "m \<le> max 0 (due - ?now)" by linarith
  moreover have "s \<le> m" using m by (auto simp: s_def)
  ultimately show "?now + 1000 * t \<le> max (?now + 1000) due"
    using t \<open>1000 * (s div 1000) \<le> s\<close> by linarith
qed

section \<open>Quiet handlers\<close>

definition quiet :: "env \<Rightarrow> bool" where
  "quiet E \<longleftrightarrow> passive_listeners E
     \<and> (\<forall>c cb th w. snd (e_handler E c cb th w) = w \<and> fst (e_handler E c cb th w) \<noteq> Diverge)"

text \<open>A change local to channel \<open>c\<close>: nothing of other channels, of the loop's tables or of the
  loop's own fields changes, and the channel keeps its identity.\<close>

definition local_to :: "cid \<Rightarrow> world \<Rightarrow> world \<Rightarrow> bool" where
  "local_to c w w' \<longleftrightarrow> w_channels w' = w_channels w \<and> w_due w' = w_due w \<and> w_thread w' = w_thread w
     \<and> w_started w' = w_started w \<and> w_next_cid w' = w_next_cid w \<and> w_next_fid w \<le> w_next_fid w'
     \<and> (\<forall>c'. c' \<noteq> c \<longrightarrow> w_chans w' c' = w_chans w c')
     \<and> c_fileno0 (w_chans w' c) = c_fileno0 (w_chans w c)
     \<and> c_ever_active (w_chans w' c) = c_ever_active (w_chans w c)
     \<and> (c_sockfd (w_chans w c) = -1 \<longrightarrow> c_sockfd (w_chans w' c) = -1)"

lemma local_to_refl [simp]: "local_to c w w"
  by (simp add: local_to_def)

lemma local_to_trans: "local_to c w w' \<Longrightarrow> local_to c w' w'' \<Longrightarrow> local_to c w w''"
  by (auto simp: local_to_def)

named_theorems local_intro \<open>changes local to a channel\<close>

lemma local_andThen [local_intro]:
  "local_to c w (snd r) \<Longrightarrow> (\<And>a s. r = (Ret a, s) \<Longrightarrow> local_to c s (snd (k a s))) \<Longrightarrow> local_to c w (snd (andThen r k))"
  by (cases r; cases "fst r") (auto intro: local_to_trans)

lemma local_handling [local_intro]:
  "local_to c w (snd r) \<Longrightarrow> (\<And>e s. r = (Raise e, s) \<Longrightarrow> local_to c s (snd (h e s))) \<Longrightarrow> local_to c w (snd (handling r h))"
  by (cases r; cases "fst r") (auto intro: local_to_trans)

lemma local_upd: "c_fileno0 (f (w_chans w c)) = c_fileno0 (w_chans w c) \<Longrightarrow>
    c_ever_active (f (w_chans w c)) = c_ever_active (w_chans w c) \<Longrightarrow>
    c_sockfd (f (w_chans w c)) = c_sockfd (w_chans w c) \<or> c_sockfd (f (w_chans w c)) = -1 \<Longrightarrow>
    local_to c w (upd_chan c f w)"
  by (auto simp: local_to_def)

lemma local_then: "local_to c w w1 \<Longrightarrow> local_to c w1 (snd r) \<Longrightarrow> local_to c w (snd r)"
  by (rule local_to_trans)

lemma quiet_passive: "quiet E \<Longrightarrow> passive_listeners E"
  by (simp add: quiet_def)

lemma quiet_responsive: "quiet E \<Longrightarrow> responsive E"
  by (simp add: quiet_def responsive_def)

lemma quiet_handler:
  assumes "quiet E"
  obtains "e_handler E c cb th w = (Ret (), w)" | e where "e_handler E c cb th w = (Raise e, w)"
proof -
  from assms have "snd (e_handler E c cb th w) = w" "fst (e_handler E c cb th w) \<noteq> Diverge"
    by (simp_all add: quiet_def)
  with that show thesis by (cases "e_handler E c cb th w"; cases "fst (e_handler E c cb th w)") auto
qed

text \<open>A callback of a quiet handler leaves a trace in the events and nothing else.\<close>

lemma fire_quiet_events:
  assumes "quiet E"
  shows "\<exists>evs. fire E th c cb w = (Ret (), w\<lparr>w_events := w_events w @ (c, cb) # evs\<rparr>)
    \<and> evs \<in> {[]} \<union> range (\<lambda>e. [(c, ExceptionCaught e)])"
proof (cases rule: quiet_handler[OF assms, of c cb th "fired c cb w"])
  case 1
  then show ?thesis by (auto simp: fire_def fired_def)
next
  case (2 e)
  let ?w = "fired c (ExceptionCaught e) (fired c cb w)"
  have "handling (e_handler E c (ExceptionCaught e) th ?w) (\<lambda>_ w. (Ret (), w)) = (Ret (), ?w)"
    by (cases rule: quiet_handler[OF assms, of c "ExceptionCaught e" th ?w]) simp_all
  with 2 have "fire E th c cb w = (Ret (), ?w)" by (simp add: fire_def fire_exception_caught_def)
  then show ?thesis by (intro exI[of _ "[(c, ExceptionCaught e)]"]) (simp add: fired_def)
qed

lemma fire_quiet:
  assumes "quiet E"
  shows "\<exists>evs. fire E th c cb w = (Ret (), w\<lparr>w_events := w_events w @ (c, cb) # evs\<rparr>)"
  using fire_quiet_events[OF assms] by blast

lemma fire_local [local_intro]: "quiet E \<Longrightarrow> local_to c w (snd (fire E th c cb w))"
  using fire_quiet[of E th c cb w] by (auto simp: local_to_def)

lemma check_writability_local [local_intro]:
  assumes "quiet E"
  shows "local_to c w (snd (check_writability E th c w))"
proof -
  have "local_to c w (snd (fire E th c ChannelWritabilityChanged (upd_chan c (\<lambda>ch. ch\<lparr>c_writable := b\<rparr>) w)))" for b
    by (rule local_then[OF local_upd fire_local[OF assms]]) simp_all
  then show ?thesis by (simp add: check_writability_def Let_def)
qed

lemma cf_local [local_intro]:
  "quiet E \<Longrightarrow> local_to c w (snd (cf_set E f c' th w))"
  "quiet E \<Longrightarrow> local_to c w (snd (cf_set_exception E f e th w))"
  by (simp_all add: cf_set_def cf_set_exception_def fut_set_result_def fut_set_exception_def
      fut_complete_passive quiet_passive local_to_def)

lemma fail_channel_work_local [local_intro]:
  assumes "quiet E"
  shows "local_to c w (snd (fail_channel_work E th c e w))"
proof -
  have "local_to c w' (upd_chan c (\<lambda>ch. (replace_pendings [] ch)\<lparr>c_pending_bytes := 0\<rparr>) (w'\<lparr>w_futs := fu\<rparr>))"
    for w' fu by (simp add: local_to_def replace_pendings_def)
  then have "local_to c w' (snd (fail_pendings E th c e w'))" for w'
    by (simp add: fail_pendings_def fail_loop_passive[OF quiet_passive[OF assms]])
      (blast intro: local_then check_writability_local assms)
  with assms show ?thesis
    by (auto simp: fail_channel_work_def Let_def intro!: local_andThen cf_local)
qed

lemma set_active_local [local_intro]:
  assumes "quiet E"
  shows "local_to c w (snd (set_active E th c False w))"
proof -
  let ?w = "upd_chan c (\<lambda>ch. ch\<lparr>c_active := False\<rparr>) w"
  obtain evs where "fire E th c ChannelInactive ?w = (Ret (), ?w\<lparr>w_events := w_events ?w @ evs\<rparr>)"
    using fire_quiet[OF assms] by metis
  then show ?thesis by (simp add: set_active_def Let_def local_to_def)
qed

lemma sel_unregister_local [local_intro]: "local_to c w (snd (sel_unregister fd w))"
  by (simp add: sel_unregister_def local_to_def)

lemma unregister_quiet:
  assumes "quiet E" "in_eventloop th w"
  shows "\<exists>f w1. unregister E th c None w = (Ret f,
      w1\<lparr>w_channels := dict_pop (c_fileno0 (w_chans w c)) (w_channels w),
        w_due := dict_pop (c_fileno0 (w_chans w c)) (w_due w)\<rparr>) \<and> local_to c w w1"
proof -
  define w0 where "w0 = snd (new_future w)"
  let ?f = "w_next_fid w" and ?fd = "c_fileno0 (w_chans w c)"
  have new: "new_future w = (?f, w0)" by (simp add: w0_def new_future_def)
  have l0: "local_to c w w0" "in_eventloop th w0"
    using assms(2) by (simp_all add: w0_def new_future_def local_to_def in_eventloop_def)
  obtain w5 where w5: "handling (andThen (sel_unregister ?fd w0) (\<lambda>_ w. fire E th c ChannelUnregistered w))
      (\<lambda>_ w. (Ret (), w)) = (Ret (), w5)" "local_to c w0 w5"
  proof (cases "?fd \<in> dict_keys (w_selector w0)")
    case True
    then obtain evs where "handling (andThen (sel_unregister ?fd w0) (\<lambda>_ w. fire E th c ChannelUnregistered w))
      (\<lambda>_ w. (Ret (), w)) = (Ret (), w0\<lparr>w_selector := dict_pop ?fd (w_selector w0),
         w_events := w_events w0 @ (c, ChannelUnregistered) # evs\<rparr>)"
      using fire_quiet[OF assms(1), of th c ChannelUnregistered "w0\<lparr>w_selector := dict_pop ?fd (w_selector w0)\<rparr>"]
      by (auto simp: sel_unregister_def)
    then show thesis using that by (simp add: local_to_def)
  next
    case False
    with that[of w0] show thesis by (simp add: sel_unregister_def)
  qed
  have l5: "local_to c w w5" using local_to_trans[OF l0(1) w5(2)] .
  have id: "c_fileno0 (w_chans w0 c) = ?fd" "w_channels w5 = w_channels w" "w_due w5 = w_due w"
    using l0(1) l5 by (simp_all add: local_to_def)
  let ?p = "w5\<lparr>w_channels := dict_pop ?fd (w_channels w), w_due := dict_pop ?fd (w_due w)\<rparr>"
  define fu where "fu = (if fut_done w5 ?f then w_futs w5 else (w_futs w5)(?f := FResult (VChannel c)))"
  have "cf_set E ?f c th ?p = (Ret (), ?p\<lparr>w_futs := fu\<rparr>)"
    by (simp add: cf_set_def fut_set_result_def fut_complete_passive[OF quiet_passive[OF assms(1)]]
        fu_def fut_done_def)
  then have "unregister E th c None w = (Ret ?f, ?p\<lparr>w_futs := fu\<rparr>)"
    using l0(2) w5(1) id by (simp add: unregister_def new Let_def)
  moreover have "?p\<lparr>w_futs := fu\<rparr> = (w5\<lparr>w_futs := fu\<rparr>)\<lparr>w_channels := dict_pop ?fd (w_channels w),
      w_due := dict_pop ?fd (w_due w)\<rparr>" by simp
  moreover have "local_to c w (w5\<lparr>w_futs := fu\<rparr>)" using l5 by (simp add: local_to_def)
  ultimately show ?thesis by metis
qed

lemma dict_pop_twice [simp]: "dict_pop k (dict_pop k d) = dict_pop k d"
  by (simp add: dict_pop_def AList.delete_eq filter_filter)

text \<open>A close is local to its channel, up to its entries in the two tables.\<close>

lemma close_local:
  assumes "quiet E" "in_eventloop th w"
  shows "\<exists>w1. close_channel_internally E th c reason e w = (Ret (),
      w1\<lparr>w_channels := dict_pop (c_fileno0 (w_chans w c)) (w_channels w),
        w_due := dict_pop (c_fileno0 (w_chans w c)) (w_due w)\<rparr>) \<and> local_to c w w1
    \<and> c_sockfd (w_chans w1 c) = -1"
proof -
  let ?x = "case e of Some e \<Rightarrow> e | None \<Rightarrow> channel_closed_exn reason"
  note cf = cf_set_passive[OF quiet_passive[OF assms(1)]]
  obtain w1 where w1: "fail_channel_work E th c ?x w = (Ret (), w1)"
    using fail_channel_work_returns[OF quiet_passive quiet_responsive] assms(1)
    by (metis returnsE unit.exhaust)
  obtain w2 where w2: "cf_set E (c_close_future (w_chans w1 c)) c th (sock_close c w1) = (Ret (), w2)"
    using cf by (metis returnsE unit.exhaust)
  obtain w3 where w3: "set_active E th c False w2 = (Ret (), w3)"
    using set_active_returns[OF quiet_responsive[OF assms(1)]] by (metis returnsE unit.exhaust)
  have "local_to c w1 (sock_close c w1)" unfolding sock_close_def by (rule local_upd) simp_all
  then have l3: "local_to c w w3"
    using fail_channel_work_local[OF assms(1), of c w th ?x] cf_local(1)[OF assms(1), of c "sock_close c w1"]
      set_active_local[OF assms(1), of c w2 th] w1 w2 w3 local_to_trans by (metis snd_conv)
  with assms(2) have loop: "in_eventloop th w3" by (simp add: local_to_def in_eventloop_def)
  have "local_to c (sock_close c w1) w3"
    using cf_local(1)[OF assms(1), of c "sock_close c w1"] set_active_local[OF assms(1), of c w2 th]
      w2 w3 local_to_trans by (metis snd_conv)
  then have fd3: "c_sockfd (w_chans w3 c) = -1" by (simp add: local_to_def sock_close_def)
  let ?fd = "c_fileno0 (w_chans w c)"
  have id: "c_fileno0 (w_chans w3 c) = ?fd" "w_channels w3 = w_channels w" "w_due w3 = w_due w"
    using l3 by (simp_all add: local_to_def)
  obtain f w4 where w4: "unregister E th c None w3 = (Ret f,
      w4\<lparr>w_channels := dict_pop ?fd (w_channels w), w_due := dict_pop ?fd (w_due w)\<rparr>)" "local_to c w3 w4"
    using unregister_quiet[OF assms(1) loop, of c] unfolding id by blast
  have l4: "local_to c w w4" using local_to_trans[OF l3 w4(2)] .
  have fd4: "c_sockfd (w_chans w4 c) = -1" using w4(2) fd3 by (simp add: local_to_def)
  have "close_channel_internally E th c reason e w = (Ret (),
      w4\<lparr>w_channels := dict_pop ?fd (w_channels w), w_due := dict_pop ?fd (w_due w)\<rparr>)"
    using assms(2) w1 w2 w3 w4(1) l4 by (simp add: close_channel_internally_def local_to_def)
  with l4 fd4 show ?thesis by blast
qed

section \<open>Connect timeouts\<close>

text \<open>Every channel is registered under its own descriptor.\<close>

definition own_fds :: "world \<Rightarrow> bool" where
  "own_fds w \<longleftrightarrow> (\<forall>fd c. dict_get (w_channels w) fd = Some c \<longrightarrow> c_fileno0 (w_chans w c) = fd)"

text \<open>The channel registered under \<open>fd\<close> was never active.\<close>

definition connecting :: "world \<Rightarrow> fd \<Rightarrow> bool" where
  "connecting w fd \<longleftrightarrow> (\<exists>c. dict_get (w_channels w) fd = Some c \<and> \<not> c_ever_active (w_chans w c))"

text \<open>The channels still connecting on the descriptors \<open>F\<close> were closed, and nothing else.\<close>

definition dropped :: "fd set \<Rightarrow> world \<Rightarrow> world \<Rightarrow> bool" where
  "dropped F w w' \<longleftrightarrow> w_thread w' = w_thread w
     \<and> (\<forall>fd. dict_get (w_channels w') fd = (if fd \<in> F \<and> connecting w fd then None else dict_get (w_channels w) fd))
     \<and> (\<forall>c. (\<forall>fd \<in> F. connecting w fd \<longrightarrow> dict_get (w_channels w) fd \<noteq> Some c) \<longrightarrow> w_chans w' c = w_chans w c)
     \<and> (\<forall>c. c_ever_active (w_chans w' c) = c_ever_active (w_chans w c)
            \<and> c_fileno0 (w_chans w' c) = c_fileno0 (w_chans w c))
     \<and> (\<forall>fd \<in> F. \<forall>c. connecting w fd \<and> dict_get (w_channels w) fd = Some c \<longrightarrow> c_sockfd (w_chans w' c) = -1)
     \<and> (\<forall>fd. fd \<notin> F \<longrightarrow> dict_get (w_due w') fd = dict_get (w_due w) fd)"

lemma dropped_none: "dropped {} w w"
  by (simp add: dropped_def)

lemma dropped_connecting:
  assumes "dropped F w w'"
  shows "connecting w' fd \<longleftrightarrow> connecting w fd \<and> fd \<notin> F"
    and "connecting w' fd \<Longrightarrow> dict_get (w_channels w') fd = dict_get (w_channels w) fd"
  using assms by (auto simp: dropped_def connecting_def split: if_splits)

lemma dropped_more:
  assumes "dropped F w w'" "\<not> connecting w' fd"
  shows "dropped (insert fd F) w w'"
proof (cases "fd \<in> F")
  case True
  with assms(1) show ?thesis by (simp add: insert_absorb)
next
  case False
  with assms have "\<not> connecting w fd" by (simp add: dropped_connecting(1)[OF assms(1)])
  with assms(1) show ?thesis unfolding dropped_def by (intro conjI) auto
qed

lemma dropped_close:
  assumes d: "dropped F w w'" and own: "own_fds w" and c: "dict_get (w_channels w') fd = Some c"
    and conn: "connecting w' fd" and l: "local_to c w' w1" and closed: "c_sockfd (w_chans w1 c) = -1"
  shows "dropped (insert fd F) w (w1\<lparr>w_channels := dict_pop fd (w_channels w'), w_due := dict_pop fd (w_due w')\<rparr>)"
proof -
  have fd: "connecting w fd" "fd \<notin> F" "dict_get (w_channels w) fd = Some c"
    using dropped_connecting[OF d, of fd] conn c by auto
  have other: "c' \<noteq> c" if "fd' \<in> F" "dict_get (w_channels w) fd' = Some c'" for fd' c'
    using that fd own by (auto simp: own_fds_def)
  note d' = d[unfolded dropped_def] and l' = l[unfolded local_to_def]
  show ?thesis unfolding dropped_def
  proof (intro conjI allI ballI impI, goal_cases)
    case (3 c')
    then have "c' \<noteq> c" using fd by auto
    with 3 d' l' show ?case by simp
  next
    case (4 c')
    then show ?case using d' l' by (cases "c' = c") simp_all
  next
    case (5 c')
    then show ?case using d' l' by (cases "c' = c") simp_all
  next
    case (6 fd' c')
    then show ?case using d' l' fd closed other by (cases "fd' = fd") auto
  qed (use d' l' fd in auto)
qed

text \<open>The loop over the table closes the channels still connecting on the descriptors whose time
  is over, and reports those descriptors.\<close>

definition over :: "int \<Rightarrow> (fd \<times> int) list \<Rightarrow> fd list" where
  "over now dues = map fst (filter (\<lambda>(fd, due). due \<le> now) dues)"

lemma timeout_loop_quiet:
  assumes "quiet E" "own_fds w0" "dropped F w0 w" "in_eventloop th w"
  shows "\<exists>w'. timeout_loop E th now dues del w = (Ret (del @ over now dues), w')
    \<and> dropped (F \<union> set (over now dues)) w0 w'"
  using assms(3,4)
proof (induction dues arbitrary: F del w)
  case Nil
  then show ?case by (simp add: over_def)
next
  case (Cons p dues)
  obtain fd due where p: "p = (fd, due)" by force
  show ?case
  proof (cases "due \<le> now")
    case False
    with Cons.IH[OF Cons.prems, of del] show ?thesis by (simp add: p over_def)
  next
    case True
    obtain w1 where w1: "(case dict_get (w_channels w) fd of
            Some c \<Rightarrow> (if \<not> c_ever_active (w_chans w c)
              then close_channel_internally E th c ''connect timeout'' None w else (Ret (), w))
          | None \<Rightarrow> (Ret (), w)) = (Ret (), w1)" "dropped (insert fd F) w0 w1" "in_eventloop th w1"
    proof (cases "connecting w fd")
      case False
      with Cons.prems that[of w] dropped_more[OF Cons.prems(1) False] show thesis
        by (auto simp: connecting_def split: option.splits)
    next
      case conn: True
      then obtain c where c: "dict_get (w_channels w) fd = Some c" "\<not> c_ever_active (w_chans w c)"
        by (auto simp: connecting_def)
      have fd: "c_fileno0 (w_chans w c) = fd"
        using dropped_connecting(2)[OF Cons.prems(1) conn] c(1) assms(2) Cons.prems(1)
        by (simp add: own_fds_def dropped_def)
      obtain w1 where r: "close_channel_internally E th c ''connect timeout'' None w = (Ret (),
          w1\<lparr>w_channels := dict_pop fd (w_channels w), w_due := dict_pop fd (w_due w)\<rparr>)"
        "local_to c w w1" "c_sockfd (w_chans w1 c) = -1"
        using close_local[OF assms(1) Cons.prems(2), of c] unfolding fd by blast
      show thesis
        by (rule that[OF _ dropped_close[OF Cons.prems(1) assms(2) c(1) conn r(2,3)]])
          (use r(1,2) c Cons.prems(2) in \<open>simp_all add: in_eventloop_def local_to_def\<close>)
    qed
    from Cons.IH[OF w1(2,3), of "del @ [fd]"] obtain w' where
      "timeout_loop E th now dues (del @ [fd]) w1 = (Ret ((del @ [fd]) @ over now dues), w')"
      "dropped (insert fd F \<union> set (over now dues)) w0 w'" by blast
    with w1(1) True show ?thesis by (auto simp: p over_def)
  qed
qed

lemma dict_get_fold_pop: "dict_get (fold dict_pop fds d) fd = (if fd \<in> set fds then None else dict_get d fd)"
  by (induction fds arbitrary: d) auto

lemma connecting_frame [simp]: "connecting (tick w) = connecting w"
  by (simp add: connecting_def fun_eq_iff)

lemma dropped_frame:
  "dropped F (tick w) w' \<longleftrightarrow> dropped F w w'"
  by (simp add: dropped_def cong: if_cong)

lemma process_connection_timeout_quiet:
  assumes "quiet E" "own_fds w" "in_eventloop th w" "w_due w \<noteq> []"
  shows "\<exists>w'. process_connection_timeout E th w = (Ret (), w')
    \<and> dropped (set (over (k_now (e_kernel E) (w_kcalls w)) (w_due w))) w w'
    \<and> (\<forall>fd. dict_get (w_due w') fd = (if fd \<in> set (over (k_now (e_kernel E) (w_kcalls w)) (w_due w)) then None
                                      else dict_get (w_due w) fd))"
proof -
  let ?now = "k_now (e_kernel E) (w_kcalls w)"
  have "own_fds (tick w)" "in_eventloop th (tick w)"
    using assms by (simp_all add: own_fds_def in_eventloop_def)
  from timeout_loop_quiet[OF assms(1) this(1) dropped_none this(2), of ?now "w_due w" "[]"] obtain w' where
    r: "timeout_loop E th ?now (w_due w) [] (tick w) = (Ret (over ?now (w_due w)), w')"
    and "dropped (set (over ?now (w_due w))) (tick w) w'" by auto
  then have d: "dropped (set (over ?now (w_due w))) w w'" by (simp add: dropped_frame)
  let ?w' = "w'\<lparr>w_due := fold dict_pop (over ?now (w_due w)) (w_due w')\<rparr>"
  have "dropped (set (over ?now (w_due w))) w ?w'"
    using d by (simp add: dropped_def dict_get_fold_pop cong: if_cong)
  moreover have "process_connection_timeout E th w = (Ret (), ?w')"
    using assms(4) r by (simp add: process_connection_timeout_def)
  moreover have "dict_get (w_due ?w') fd = (if fd \<in> set (over ?now (w_due w)) then None else dict_get (w_due w) fd)"
    for fd using d by (simp add: dict_get_fold_pop dropped_def)
  ultimately show ?thesis by blast
qed

end
