(* ===== verification/Interest.thy ===== *)
theory Interest
  imports Timeouts Writing
begin

text \<open>
  Registration and interest: what \<open>register\<close> leaves in the loop's tables, and that the interest
  flags of a registered channel and the selector's map stay in step.
\<close>

section \<open>Registering\<close>

definition accepting :: "env \<Rightarrow> bool" where
  "accepting E \<longleftrightarrow> (\<forall>k fd. k_sel_register (e_kernel E) k fd) \<and> (\<forall>k fd. k_sel_modify (e_kernel E) k fd)"

definition registered :: "env \<Rightarrow> cid \<Rightarrow> world \<Rightarrow> world \<Rightarrow> bool" where
  "registered E c w w' \<longleftrightarrow>
     dict_get (w_selector w') (c_sockfd (w_chans w c)) = Some (EVENT_READ OR EVENT_WRITE)
     \<and> dict_get (w_channels w') (c_sockfd (w_chans w c)) = Some c
     \<and> c_flag (w_chans w' c) = (EVENT_READ OR EVENT_WRITE)
     \<and> (c_server (w_chans w c) \<longrightarrow> w_due w' = w_due w)
     \<and> (\<not> c_server (w_chans w c) \<longrightarrow> (\<exists>k. dict_get (w_due w') (c_sockfd (w_chans w c))
            = Some (k_now (e_kernel E) k + c_connect_timeout (w_chans w c))))
     \<and> (\<exists>evs. w_events w' = w_events w @ (c, ChannelRegistered) # evs)
     \<and> w_registered w' = w_registered w + 1"

lemma flag_bits [simp]: "EVENT_READ OR EVENT_WRITE = 3" "(3::int) AND NOT 3 = 0"
  by (simp_all add: EVENT_READ_def EVENT_WRITE_def)

lemma register_in_loop:
  assumes "quiet E" "accepting E" "in_eventloop th w" "w_started w" "\<not> w_stop_polling w" "\<not> w_closed w"
    and "c_sockfd (w_chans w c) \<ge> 0" "c_sockfd (w_chans w c) \<notin> dict_keys (w_selector w)" "w_selector_open w"
  shows "\<exists>w'. register E th c False w = (Ret (c_channel_future (w_chans w c)), w') \<and> registered E c w w'"
proof -
  let ?fd = "c_sockfd (w_chans w c)"
  let ?w1 = "upd_chan c (\<lambda>ch. ch\<lparr>c_flag := 3\<rparr>) w"
  let ?w2 = "(tick ?w1)\<lparr>w_selector := dict_set ?fd 3 (w_selector w)\<rparr>"
  have sel: "sel_register E ?fd 3 ?w1 = (Ret (), ?w2)"
    using assms by (simp add: sel_register_def accepting_def)
  obtain evs where f: "fire E th c ChannelRegistered ?w2 =
      (Ret (), ?w2\<lparr>w_events := w_events ?w2 @ (c, ChannelRegistered) # evs\<rparr>)"
    using fire_quiet[OF assms(1)] by blast
  show ?thesis
    using assms(3-7) sel f
    by (auto simp: register_def Let_def registered_def in_eventloop_def)
qed

text \<open>A descriptor that the selector still has is refused: the channel does not get into the loop's
  tables, and its future stays as it is.\<close>

lemma register_refused:
  assumes "in_eventloop th w" "w_started w" "\<not> w_stop_polling w" "\<not> w_closed w"
    and "c_sockfd (w_chans w c) \<ge> 0" "c_sockfd (w_chans w c) \<in> dict_keys (w_selector w)"
  shows "register E th c False w = (Raise KeyError, upd_chan c (\<lambda>ch. ch\<lparr>c_flag := 3\<rparr>) w)"
  using assms by (auto simp: register_def Let_def sel_register_def in_eventloop_def)

section \<open>Flags and selector in step\<close>

definition synced :: "cid \<Rightarrow> world \<Rightarrow> bool" where
  "synced c w \<longleftrightarrow> w_selector_open w \<and> c_sockfd (w_chans w c) = c_fileno0 (w_chans w c)
     \<and> 0 \<le> c_fileno0 (w_chans w c) \<and> c_flag (w_chans w c) \<in> {0, 1, 2, 3}
     \<and> dict_get (w_selector w) (c_fileno0 (w_chans w c)) =
         (if c_flag (w_chans w c) = 0 then None else Some (c_flag (w_chans w c)))"

lemma flag_values:
  "x \<in> {0, 1, 2, 3 :: int} \<Longrightarrow> fl \<in> {EVENT_READ, EVENT_WRITE} \<Longrightarrow>
     x OR fl \<in> {1, 2, 3} \<and> x AND NOT fl \<in> {0, 1, 2, 3}
     \<and> (x AND fl \<noteq> 0 \<longrightarrow> x OR fl = x \<and> x \<noteq> 0) \<and> (x AND fl = 0 \<longrightarrow> x AND NOT fl = x)"
  by (auto simp: EVENT_READ_def EVENT_WRITE_def)

lemma sel_flag_ok: "x \<in> {1, 2, 3 :: int} \<Longrightarrow> x AND NOT 3 = 0"
  by auto

lemma modify_flag_synced:
  assumes "accepting E" "in_eventloop th w" "w_selector_open w"
    and "c_sockfd (w_chans w c) = c_fileno0 (w_chans w c)" "0 \<le> c_fileno0 (w_chans w c)"
    and "c_flag (w_chans w c) \<in> {0, 1, 2, 3}"
    and "c_flag (w_chans w c) = 0 \<longrightarrow> c_fileno0 (w_chans w c) \<in> dict_keys (w_selector w)"
  shows "\<exists>s k. modify_flag E th c w = (Ret (), w\<lparr>w_selector := s, w_kcalls := k\<rparr>)
    \<and> dict_get s (c_fileno0 (w_chans w c)) =
        (if c_flag (w_chans w c) = 0 then None else Some (c_flag (w_chans w c)))"
proof -
  let ?fd = "c_fileno0 (w_chans w c)" and ?fl = "c_flag (w_chans w c)"
  have result: ?thesis
    if "modify_flag E th c w = (Ret (), w\<lparr>w_selector := s, w_kcalls := k\<rparr>)"
      "dict_get s ?fd = (if ?fl = 0 then None else Some ?fl)" for s k
    using that by blast
  show ?thesis
  proof (cases "?fl = 0")
    case True
    with assms have "modify_flag E th c w =
        (Ret (), w\<lparr>w_selector := dict_pop ?fd (w_selector w), w_kcalls := w_kcalls w\<rparr>)"
      by (simp add: modify_flag_def sel_unregister_def Let_def)
    from result[OF this] True show ?thesis by simp
  next
    case fl: False
    with assms(6) have bits: "?fl AND NOT 3 = 0" by (intro sel_flag_ok) auto
    show ?thesis
    proof (cases "dict_get (w_selector w) ?fd")
      case None
      then have "?fd \<notin> dict_keys (w_selector w)" by (simp add: dict.keys_get)
      with None fl assms bits have "modify_flag E th c w =
          (Ret (), w\<lparr>w_selector := dict_set ?fd ?fl (w_selector w), w_kcalls := Suc (w_kcalls w)\<rparr>)"
        by (simp add: modify_flag_def sel_get_key_def sel_register_def accepting_def tick_def Let_def)
      from result[OF this] fl show ?thesis by simp
    next
      case (Some ev)
      show ?thesis
      proof (cases "ev = ?fl")
        case True
        with Some fl assms have "modify_flag E th c w =
            (Ret (), w\<lparr>w_selector := w_selector w, w_kcalls := w_kcalls w\<rparr>)"
          by (simp add: modify_flag_def sel_get_key_def Let_def)
        from result[OF this] True Some fl show ?thesis by simp
      next
        case False
        with Some fl assms have "modify_flag E th c w =
            (Ret (), w\<lparr>w_selector := dict_set ?fd ?fl (w_selector w), w_kcalls := Suc (w_kcalls w)\<rparr>)"
          by (auto simp: modify_flag_def sel_get_key_def sel_modify_def accepting_def tick_def Let_def)
        from result[OF this] fl show ?thesis by simp
      qed
    qed
  qed
qed

lemma flags_synced:
  assumes "accepting E" "in_eventloop th w" "synced c w" "fl \<in> {EVENT_READ, EVENT_WRITE}"
  shows "\<exists>w'. add_flag E th c fl w = (Ret (), w') \<and> synced c w'
      \<and> c_flag (w_chans w' c) = c_flag (w_chans w c) OR fl"
    and "\<exists>w'. remove_flag E th c fl w = (Ret (), w') \<and> synced c w'
      \<and> c_flag (w_chans w' c) = c_flag (w_chans w c) AND NOT fl"
proof -
  let ?x = "c_flag (w_chans w c)"
  note s = assms(3)[unfolded synced_def]
  have vals: "?x OR fl \<in> {1, 2, 3}" "?x AND NOT fl \<in> {0, 1, 2, 3}"
    "?x AND fl \<noteq> 0 \<Longrightarrow> ?x OR fl = ?x \<and> ?x \<noteq> 0" "?x AND fl = 0 \<Longrightarrow> ?x AND NOT fl = ?x"
    using flag_values[of ?x fl] s assms(4) by blast+
  have mod: "\<exists>w'. handling (modify_flag E th c (upd_chan c (\<lambda>ch. ch\<lparr>c_flag := g (c_flag ch)\<rparr>) w)) (\<lambda>_ w. (Ret (), w))
      = (Ret (), w') \<and> synced c w' \<and> c_flag (w_chans w' c) = g ?x"
    if g: "g ?x \<in> {0, 1, 2, 3}" "g ?x = 0 \<longrightarrow> ?x \<noteq> 0" for g
  proof -
    let ?w = "upd_chan c (\<lambda>ch. ch\<lparr>c_flag := g (c_flag ch)\<rparr>) w"
    have loop: "in_eventloop th ?w" using assms(2) by (simp add: in_eventloop_def)
    have "g ?x = 0 \<longrightarrow> c_fileno0 (w_chans w c) \<in> dict_keys (w_selector w)"
      using s g(2) by (auto simp: dict.keys_get split: if_splits)
    then have p: "w_selector_open ?w" "c_sockfd (w_chans ?w c) = c_fileno0 (w_chans ?w c)"
      "0 \<le> c_fileno0 (w_chans ?w c)" "c_flag (w_chans ?w c) \<in> {0, 1, 2, 3}"
      "c_flag (w_chans ?w c) = 0 \<longrightarrow> c_fileno0 (w_chans ?w c) \<in> dict_keys (w_selector ?w)"
      using s g(1) by simp_all
    obtain sl k where "modify_flag E th c ?w = (Ret (), ?w\<lparr>w_selector := sl, w_kcalls := k\<rparr>)"
      "dict_get sl (c_fileno0 (w_chans ?w c)) =
         (if c_flag (w_chans ?w c) = 0 then None else Some (c_flag (w_chans ?w c)))"
      using modify_flag_synced[OF assms(1) loop p] by blast
    with s g(1) show ?thesis by (simp add: synced_def)
  qed
  show "\<exists>w'. add_flag E th c fl w = (Ret (), w') \<and> synced c w' \<and> c_flag (w_chans w' c) = ?x OR fl"
  proof (cases "?x AND fl = 0")
    case True
    have "?x OR fl \<in> {0, 1, 2, 3}" "?x OR fl = 0 \<longrightarrow> ?x \<noteq> 0" using vals(1) by auto
    from mod[of "\<lambda>x. x OR fl", OF this] True assms(2) show ?thesis by (simp add: add_flag_def)
  next
    case False
    with vals(3) assms(2,3) show ?thesis by (simp add: add_flag_def)
  qed
  show "\<exists>w'. remove_flag E th c fl w = (Ret (), w') \<and> synced c w' \<and> c_flag (w_chans w' c) = ?x AND NOT fl"
  proof (cases "?x AND fl = 0")
    case True
    with vals(4) assms(2,3) show ?thesis by (simp add: remove_flag_def)
  next
    case False
    then have "?x AND NOT fl = 0 \<longrightarrow> ?x \<noteq> 0" by auto
    from mod[of "\<lambda>x. x AND NOT fl", OF vals(2) this] False assms(2) show ?thesis by (simp add: remove_flag_def)
  qed
qed

section \<open>Pausing and resuming reads\<close>

text \<open>\<open>set_auto_read\<close> in the loop's thread keeps the read interest equal to the setting.\<close>

definition reading_as_set :: "cid \<Rightarrow> world \<Rightarrow> bool" where
  "reading_as_set c w \<longleftrightarrow> (c_flag (w_chans w c) AND EVENT_READ \<noteq> 0) = c_auto_read (w_chans w c)"

lemma read_bit:
  "x \<in> {0, 1, 2, 3 :: int} \<Longrightarrow> (x OR EVENT_READ) AND EVENT_READ \<noteq> 0 \<and> (x AND NOT EVENT_READ) AND EVENT_READ = 0"
  by (auto simp: EVENT_READ_def)

lemma set_auto_read_synced:
  assumes "accepting E" "in_eventloop th w" "synced c w" "reading_as_set c w"
  shows "\<exists>w'. set_auto_read E th c b w = (Ret (), w') \<and> synced c w' \<and> reading_as_set c w'
    \<and> c_auto_read (w_chans w' c) = b"
proof (cases "c_auto_read (w_chans w c) = b")
  case True
  with assms show ?thesis by (simp add: set_auto_read_def)
next
  case False
  let ?w = "upd_chan c (\<lambda>ch. ch\<lparr>c_auto_read := b\<rparr>) w"
  have w: "in_eventloop th ?w" "synced c ?w" "EVENT_READ \<in> {EVENT_READ, EVENT_WRITE}"
    using assms(2,3) by (simp_all add: in_eventloop_def synced_def)
  have "c_flag (w_chans w c) \<in> {0, 1, 2, 3}" using assms(3) by (simp add: synced_def)
  note bits = read_bit[OF this]
  obtain x s k where a: "add_flag E th c EVENT_READ ?w =
      (Ret (), upd_chan c (\<lambda>ch. ch\<lparr>c_flag := x\<rparr>) (?w\<lparr>w_selector := s, w_kcalls := k\<rparr>))"
    using flags_in_loop(1)[OF w(1)] by blast
  obtain x' s' k' where r: "remove_flag E th c EVENT_READ ?w =
      (Ret (), upd_chan c (\<lambda>ch. ch\<lparr>c_flag := x'\<rparr>) (?w\<lparr>w_selector := s', w_kcalls := k'\<rparr>))"
    using flags_in_loop(2)[OF w(1)] by blast
  show ?thesis
    using flags_synced[OF assms(1) w] False a r bits
    by (cases b) (auto simp: set_auto_read_def reading_as_set_def)
qed

end
