(* ===== verification/Activation.thy ===== *)
theory Activation
  imports Interest
begin

text \<open>
  A connecting channel becomes active or fails: the branches of \<open>_check_channel_active\<close> and
  \<open>_complete_ssl_handshake\<close>.
\<close>

section \<open>Success\<close>

definition activated_in :: "cid \<Rightarrow> world \<Rightarrow> world \<Rightarrow> bool" where
  "activated_in c w w' \<longleftrightarrow> c_active (w_chans w' c) \<and> c_ever_active (w_chans w' c)
     \<and> w_futs w' (c_channel_future (w_chans w c)) = FResult (VChannel c)
     \<and> c_sockfd (w_chans w c) \<notin> dict_keys (w_due w')
     \<and> (\<exists>evs. w_events w' = w_events w @ (c, ChannelActive) # evs)"

lemma set_active_quiet:
  assumes "quiet E" "\<not> c_active (w_chans w c)"
  shows "\<exists>evs. set_active E th c True w = (Ret (),
    (upd_chan c (\<lambda>ch. ch\<lparr>c_active := True, c_ever_active := True\<rparr>) w)
      \<lparr>w_events := w_events w @ (c, ChannelActive) # evs\<rparr>)"
proof -
  let ?w = "upd_chan c (\<lambda>ch. ch\<lparr>c_active := True, c_ever_active := True\<rparr>) w"
  obtain evs where "fire E th c ChannelActive ?w = (Ret (), ?w\<lparr>w_events := w_events ?w @ (c, ChannelActive) # evs\<rparr>)"
    using fire_quiet[OF assms(1)] by blast
  then have "set_active E th c True w = (Ret (), ?w\<lparr>w_events := w_events w @ (c, ChannelActive) # evs\<rparr>)"
    using assms(2) by (simp add: set_active_def Let_def)
  then show ?thesis by blast
qed

lemma activate_quiet:
  assumes "quiet E" "\<not> c_active (w_chans w c)" "w_futs w (c_channel_future (w_chans w c)) = FPending"
  shows "\<exists>w'. activate_channel E th c w = (Ret (), w') \<and> activated_in c w w'"
proof -
  let ?cf = "c_channel_future (w_chans w c)"
  define w1 where "w1 = snd (set_active E th c True w)"
  obtain evs where s: "set_active E th c True w = (Ret (), w1)" and
    w1: "w1 = (upd_chan c (\<lambda>ch. ch\<lparr>c_active := True, c_ever_active := True\<rparr>) w)
      \<lparr>w_events := w_events w @ (c, ChannelActive) # evs\<rparr>"
    using set_active_quiet[OF assms(1,2), of th] unfolding w1_def by auto
  define w2 where "w2 = w1\<lparr>w_futs := (w_futs w1)(?cf := FResult (VChannel c))\<rparr>"
  have "cf_set E ?cf c th w1 = (Ret (), w2)"
    using assms(3) by (simp add: w2_def w1 cf_set_def fut_set_result_def fut_done_def
        fut_complete_passive[OF quiet_passive[OF assms(1)]])
  moreover have "c_channel_future (w_chans w1 c) = ?cf" by (simp add: w1)
  ultimately have "activate_channel E th c w =
      (Ret (), w2\<lparr>w_due := dict_pop (c_sockfd (w_chans w2 c)) (w_due w2)\<rparr>)"
    by (simp add: activate_channel_def s)
  moreover have "activated_in c w (w2\<lparr>w_due := dict_pop (c_sockfd (w_chans w2 c)) (w_due w2)\<rparr>)"
    by (simp add: activated_in_def w2_def w1)
  ultimately show ?thesis by blast
qed

lemma check_active_success:
  assumes "quiet E" "\<not> c_active (w_chans w c)" "\<not> c_ever_active (w_chans w c)"
    and "w_futs w (c_channel_future (w_chans w c)) = FPending"
    and "sock_so_error E c w = Inr 0" "\<not> needs_ssl_handshake c w"
  shows "\<exists>w'. check_channel_active E th c w = (Ret True, w') \<and> activated_in c w w'"
proof -
  have "\<not> needs_ssl_handshake c (tick w)" using assms(6) by (simp add: needs_ssl_handshake_def)
  moreover obtain w' where "activate_channel E th c (tick w) = (Ret (), w')" "activated_in c (tick w) w'"
    using activate_quiet[of E "tick w" c th] assms by auto
  ultimately show ?thesis
    using assms(3,5) by (simp add: check_channel_active_def activated_in_def)
qed

section \<open>Failure\<close>

definition connect_error :: "int + int \<Rightarrow> int option" where
  "connect_error r = (case r of Inl errno \<Rightarrow> Some errno | Inr err \<Rightarrow> if err = 0 then None else Some err)"

lemma connect_failed_reports:
  assumes "application E" "passive_listeners E" "responsive E" "in_eventloop th w" "w_started w"
    and "c < w_next_cid w" "c_close_future (w_chans w c) < w_next_fid w"
    and "c_channel_future (w_chans w c) < w_next_fid w"
    and "w_futs w (c_channel_future (w_chans w c)) = FPending"
  shows "\<exists>w'. connect_failed E th c reason e w = (Ret False, w')
    \<and> w_futs w' (c_channel_future (w_chans w c)) = FException e \<and> closed_in c w w'"
proof -
  let ?cf = "c_channel_future (w_chans w c)"
  let ?w = "w\<lparr>w_futs := (w_futs w)(?cf := FException e), w_due := dict_pop (c_fileno0 (w_chans w c)) (w_due w)\<rparr>"
  have loop: "in_eventloop th ?w" "w_started ?w" using assms(4,5) by (simp_all add: in_eventloop_def)
  obtain w' where close: "close_channel_internally E th c (reason @ e_str E e) None ?w = (Ret (), w')"
    using close_channel_internally_returns[OF assms(1-3) loop, of c "reason @ e_str E e" None]
    by (auto elim: returnsE)
  have ev: "evolves ?w w'"
    using application.close_channel_internally_run[OF assms(1) steps_refl[of ?w]] close
    by (metis snd_conv steps_evolves)
  have "closed_in c ?w w'"
    using application.close_channel_internally_closes[OF assms(1) close] assms(6,7) by simp
  then have "closed_in c w w'" by (simp add: closed_in_def)
  moreover have "w_futs ?w f \<le> w_futs w' f" if "f < w_next_fid ?w" for f
    using ev that unfolding evolves_def by blast
  from this[of ?cf] have "w_futs w' ?cf = FException e" using assms(8) by (simp add: less_eq_fstate_def)
  moreover have "connect_failed E th c reason e w = (Ret False, w')"
    using assms(9) close by (simp add: connect_failed_def cf_set_exception_def fut_set_exception_def
        fut_complete_passive[OF assms(2)] fut_done_def)
  ultimately show ?thesis by blast
qed

lemma check_active_failure:
  assumes "application E" "passive_listeners E" "responsive E" "in_eventloop th w" "w_started w"
    and "c < w_next_cid w" "c_close_future (w_chans w c) < w_next_fid w"
    and "c_channel_future (w_chans w c) < w_next_fid w"
    and "w_futs w (c_channel_future (w_chans w c)) = FPending"
    and "\<not> c_ever_active (w_chans w c)" "connect_error (sock_so_error E c w) = Some err"
  shows "\<exists>w'. check_channel_active E th c w = (Ret False, w')
    \<and> w_futs w' (c_channel_future (w_chans w c)) = FException (OSError err) \<and> closed_in c w w'"
proof -
  have t: "in_eventloop th (tick w)" "w_started (tick w)" "c < w_next_cid (tick w)"
    "c_close_future (w_chans (tick w) c) < w_next_fid (tick w)"
    "c_channel_future (w_chans (tick w) c) < w_next_fid (tick w)"
    "w_futs (tick w) (c_channel_future (w_chans (tick w) c)) = FPending"
    using assms(4-9) by (simp_all add: in_eventloop_def)
  have "\<exists>reason. check_channel_active E th c w = connect_failed E th c reason (OSError err) (tick w)"
    using assms(10,11)
    by (auto simp: check_channel_active_def connect_error_def split: sum.splits if_splits)
  then obtain reason where "check_channel_active E th c w = connect_failed E th c reason (OSError err) (tick w)" ..
  with connect_failed_reports[OF assms(1-3) t, of reason "OSError err"] show ?thesis
    by (simp add: closed_in_def)
qed

section \<open>A handshake in progress\<close>

text \<open>While the TLS handshake waits for the peer, the channel is not active, its future stays
  pending, and the loop waits for what the handshake asked for.\<close>

lemma handshake_waits:
  assumes "accepting E" "in_eventloop th w" "synced c w" "\<not> c_ever_active (w_chans w c)"
    and "sock_so_error E c w = Inr 0" "needs_ssl_handshake c w"
    and "sock_handshake E c (tick w) = (if want_read then HsWantRead else HsWantWrite)"
  shows "\<exists>w'. check_channel_active E th c w = (Ret False, w') \<and> synced c w'
    \<and> (if want_read then c_flag (w_chans w' c) = (c_flag (w_chans w c) OR EVENT_READ) AND NOT EVENT_WRITE
       else c_flag (w_chans w' c) = c_flag (w_chans w c) OR EVENT_WRITE)"
proof -
  let ?w = "tick (tick w)"
  have w: "in_eventloop th ?w" "synced c ?w" "needs_ssl_handshake c (tick w)"
    using assms(2,3,6) by (simp_all add: in_eventloop_def synced_def needs_ssl_handshake_def)
  have rw: "EVENT_READ \<in> {EVENT_READ, EVENT_WRITE}" "EVENT_WRITE \<in> {EVENT_READ, EVENT_WRITE}" by simp_all
  show ?thesis
  proof (cases want_read)
    case True
    obtain w1 where w1: "add_flag E th c EVENT_READ ?w = (Ret (), w1)" "synced c w1"
      "c_flag (w_chans w1 c) = c_flag (w_chans ?w c) OR EVENT_READ"
      using flags_synced(1)[OF assms(1) w(1,2) rw(1)] by blast
    obtain x s k where "add_flag E th c EVENT_READ ?w =
      (Ret (), upd_chan c (\<lambda>ch. ch\<lparr>c_flag := x\<rparr>) (?w\<lparr>w_selector := s, w_kcalls := k\<rparr>))"
      using flags_in_loop(1)[OF w(1)] by blast
    with w1(1) w(1) have "in_eventloop th w1" by (auto simp: in_eventloop_def)
    from flags_synced(2)[OF assms(1) this w1(2) rw(2)] obtain w2 where
      "remove_flag E th c EVENT_WRITE w1 = (Ret (), w2)" "synced c w2"
      "c_flag (w_chans w2 c) = c_flag (w_chans w1 c) AND NOT EVENT_WRITE" by blast
    with True w1 w(3) assms(4,5,7) show ?thesis
      by (simp add: check_channel_active_def complete_ssl_handshake_def set_ssl_handshake_interest_def)
  next
    case False
    obtain w1 where "add_flag E th c EVENT_WRITE ?w = (Ret (), w1)" "synced c w1"
      "c_flag (w_chans w1 c) = c_flag (w_chans ?w c) OR EVENT_WRITE"
      using flags_synced(1)[OF assms(1) w(1,2) rw(2)] by blast
    moreover have "EVENT_WRITE \<noteq> EVENT_READ" by (simp add: EVENT_WRITE_def EVENT_READ_def)
    ultimately show ?thesis using False w(3) assms(4,5,7)
      by (simp add: check_channel_active_def complete_ssl_handshake_def set_ssl_handshake_interest_def)
  qed
qed

end
