(* ===== verification/Backpressure.thy ===== *)
theory Backpressure
  imports Timeouts
begin

text \<open>
  Writability: \<open>_check_writability\<close> over any sequence of queue sizes is a hysteresis between
  the two water marks, and the handler hears of each change once.
\<close>

definition hysteresis :: "config \<Rightarrow> bool \<Rightarrow> int \<Rightarrow> bool" where
  "hysteresis cfg b n = (if n \<ge> cfg_high cfg then False else if n \<le> cfg_low cfg then True else b)"

text \<open>The changes along a sequence of sizes.\<close>

fun flips :: "config \<Rightarrow> bool \<Rightarrow> int list \<Rightarrow> bool list" where
  "flips cfg b [] = []"
| "flips cfg b (n # ns) =
     (if hysteresis cfg b n \<noteq> b then [hysteresis cfg b n] else []) @ flips cfg (hysteresis cfg b n) ns"

text \<open>The checks the loop makes, with the number of pending bytes at each.\<close>

fun check_all :: "env \<Rightarrow> tid \<Rightarrow> cid \<Rightarrow> int list \<Rightarrow> world \<Rightarrow> unit outcome \<times> world" where
  "check_all E th c [] w = (Ret (), w)"
| "check_all E th c (n # ns) w =
     andThen (check_writability E th c (upd_chan c (\<lambda>ch. ch\<lparr>c_pending_bytes := n\<rparr>) w)) (\<lambda>_ w.
       check_all E th c ns w)"

definition changes :: "cid \<Rightarrow> (cid \<times> callback) list \<Rightarrow> nat" where
  "changes c evs = length (filter (\<lambda>p. p = (c, ChannelWritabilityChanged)) evs)"

lemma check_writability_quiet:
  assumes "quiet E"
  shows "\<exists>evs w'. check_writability E th c w = (Ret (), w') \<and> w_events w' = w_events w @ evs
    \<and> c_writable (w_chans w' c) = hysteresis (e_cfg E) (c_writable (w_chans w c)) (c_pending_bytes (w_chans w c))
    \<and> changes c evs = (if c_writable (w_chans w' c) = c_writable (w_chans w c) then 0 else 1)"
proof -
  define b where "b = hysteresis (e_cfg E) (c_writable (w_chans w c)) (c_pending_bytes (w_chans w c))"
  define w1 where "w1 = upd_chan c (\<lambda>ch. ch\<lparr>c_writable := b\<rparr>) w"
  have eq: "check_writability E th c w =
      (if c_writable (w_chans w c) \<noteq> b then fire E th c ChannelWritabilityChanged w1 else (Ret (), w))"
    by (simp add: check_writability_def hysteresis_def b_def w1_def Let_def)
  show ?thesis unfolding b_def[symmetric]
  proof (cases "c_writable (w_chans w c) = b")
    case True
    with eq show "\<exists>evs w'. check_writability E th c w = (Ret (), w') \<and> w_events w' = w_events w @ evs
      \<and> c_writable (w_chans w' c) = b
      \<and> changes c evs = (if c_writable (w_chans w' c) = c_writable (w_chans w c) then 0 else 1)"
      by (intro exI[of _ "[]"] exI[of _ w]) (simp add: changes_def)
  next
    case False
    obtain evs where f: "fire E th c ChannelWritabilityChanged w1 =
        (Ret (), w1\<lparr>w_events := w_events w1 @ (c, ChannelWritabilityChanged) # evs\<rparr>)"
      and "evs \<in> {[]} \<union> range (\<lambda>e. [(c, ExceptionCaught e)])"
      using fire_quiet_events[OF assms] by blast
    then have "changes c ((c, ChannelWritabilityChanged) # evs) = 1" by (auto simp: changes_def)
    moreover have "w_events w1 = w_events w" "c_writable (w_chans w1 c) = b" by (simp_all add: w1_def)
    ultimately show "\<exists>evs w'. check_writability E th c w = (Ret (), w') \<and> w_events w' = w_events w @ evs
      \<and> c_writable (w_chans w' c) = b
      \<and> changes c evs = (if c_writable (w_chans w' c) = c_writable (w_chans w c) then 0 else 1)"
      using False eq f
      by (intro exI[of _ "(c, ChannelWritabilityChanged) # evs"]
          exI[of _ "w1\<lparr>w_events := w_events w1 @ (c, ChannelWritabilityChanged) # evs\<rparr>"]) auto
  qed
qed

lemma check_all_quiet:
  assumes "quiet E"
  shows "\<exists>evs w'. check_all E th c ns w = (Ret (), w') \<and> w_events w' = w_events w @ evs
    \<and> c_writable (w_chans w' c) = foldl (hysteresis (e_cfg E)) (c_writable (w_chans w c)) ns
    \<and> changes c evs = length (flips (e_cfg E) (c_writable (w_chans w c)) ns)"
proof (induction ns arbitrary: w)
  case Nil
  then show ?case by (intro exI[of _ "[]"] exI[of _ w]) (simp add: changes_def)
next
  case (Cons n ns)
  let ?w = "upd_chan c (\<lambda>ch. ch\<lparr>c_pending_bytes := n\<rparr>) w"
  obtain evs1 w1 where 1: "check_writability E th c ?w = (Ret (), w1)" "w_events w1 = w_events w @ evs1"
    "c_writable (w_chans w1 c) = hysteresis (e_cfg E) (c_writable (w_chans w c)) n"
    "changes c evs1 = (if c_writable (w_chans w1 c) = c_writable (w_chans w c) then 0 else 1)"
    using check_writability_quiet[OF assms, of th c ?w] by auto
  obtain evs2 w2 where 2: "check_all E th c ns w1 = (Ret (), w2)" "w_events w2 = w_events w1 @ evs2"
    "c_writable (w_chans w2 c) = foldl (hysteresis (e_cfg E)) (c_writable (w_chans w1 c)) ns"
    "changes c evs2 = length (flips (e_cfg E) (c_writable (w_chans w1 c)) ns)"
    using Cons.IH by blast
  have "changes c (evs1 @ evs2) = length (flips (e_cfg E) (c_writable (w_chans w c)) (n # ns))"
    using 1(3,4) 2(4) by (simp add: changes_def)
  with 1 2 show ?case by (intro exI[of _ "evs1 @ evs2"] exI[of _ w2]) simp
qed

text \<open>The flag never contradicts the marks, and two changes in the same direction cannot follow
  each other.\<close>

lemma hysteresis_marks:
  "cfg_high cfg \<le> n \<Longrightarrow> \<not> hysteresis cfg b n"
  "n < cfg_high cfg \<Longrightarrow> n \<le> cfg_low cfg \<Longrightarrow> hysteresis cfg b n"
  "cfg_low cfg < n \<Longrightarrow> n < cfg_high cfg \<Longrightarrow> hysteresis cfg b n = b"
  by (simp_all add: hysteresis_def)

end
