(* ===== verification/Tasks.thy ===== *)
theory Tasks
  imports Application
begin

text \<open>
  The task queue: tasks run in the order they were submitted, each exactly once, and one that
  raises does not keep the others from running.
\<close>

text \<open>The reference: the tasks one after the other, each with the rest of the queue behind it.\<close>

fun in_order :: "env \<Rightarrow> tid \<Rightarrow> task list \<Rightarrow> world \<Rightarrow> world" where
  "in_order E th [] w = w"
| "in_order E th (t # ts) w =
     (let w' = snd (run_task E th t (w\<lparr>w_taskq := ts\<rparr>)) in
      in_order E th ts ((if \<exists>e. fst (run_task E th t (w\<lparr>w_taskq := ts\<rparr>)) = Raise e then tick w' else w')
        \<lparr>w_tasks_processed := w_tasks_processed w' + 1\<rparr>))"

text \<open>Tasks that end, and submit no further ones.\<close>

definition plain_task :: "env \<Rightarrow> tid \<Rightarrow> task \<Rightarrow> bool" where
  "plain_task E th t \<longleftrightarrow> (\<forall>w. fst (run_task E th t w) \<noteq> Diverge \<and> w_taskq (snd (run_task E th t w)) = w_taskq w)"

lemma run_task_logged_plain:
  assumes "plain_task E th t" "\<forall>k. k_getsource (e_kernel E) k"
  shows "run_task_logged E th t w = (Ret (),
    if \<exists>e. fst (run_task E th t w) = Raise e then tick (snd (run_task E th t w)) else snd (run_task E th t w))"
  using assms by (cases "run_task E th t w"; cases "fst (run_task E th t w)")
    (auto simp: run_task_logged_def plain_task_def dest: spec[of _ w])

lemma process_task_queue_loop_in_order:
  assumes "\<forall>t \<in> set ts. plain_task E th t" "\<forall>k. k_getsource (e_kernel E) k" "w_taskq w = ts"
  shows "process_task_queue_loop E th w = Some (Ret (), in_order E th ts w)
    \<and> w_taskq (in_order E th ts w) = []"
  using assms(1,3)
proof (induction ts arbitrary: w)
  case Nil
  then show ?case by (simp add: process_task_queue_loop.simps)
next
  case (Cons t ts)
  let ?w = "w\<lparr>w_taskq := ts\<rparr>"
  define w1 where "w1 = (if \<exists>e. fst (run_task E th t ?w) = Raise e then tick (snd (run_task E th t ?w))
    else snd (run_task E th t ?w))"
  have run: "run_task_logged E th t ?w = (Ret (), w1)"
    using run_task_logged_plain[OF _ assms(2)] Cons.prems(1) by (simp add: w1_def)
  have "w_taskq w1 = ts" using Cons.prems(1) by (simp add: w1_def plain_task_def)
  then have "w_taskq (w1\<lparr>w_tasks_processed := w_tasks_processed w1 + 1\<rparr>) = ts" by simp
  from Cons.IH[OF _ this] Cons.prems(1) have
    "process_task_queue_loop E th (w1\<lparr>w_tasks_processed := w_tasks_processed w1 + 1\<rparr>) =
       Some (Ret (), in_order E th ts (w1\<lparr>w_tasks_processed := w_tasks_processed w1 + 1\<rparr>))
     \<and> w_taskq (in_order E th ts (w1\<lparr>w_tasks_processed := w_tasks_processed w1 + 1\<rparr>)) = []" by simp
  moreover have "in_order E th (t # ts) w = in_order E th ts (w1\<lparr>w_tasks_processed := w_tasks_processed w1 + 1\<rparr>)"
    by (simp add: w1_def Let_def)
  ultimately show ?case
    using Cons.prems(2) run by (subst process_task_queue_loop.simps) simp
qed

end
