(* ===== verification/Bootstrap.thy ===== *)
theory Bootstrap
  imports Handlers Closing "HOL-Library.Multiset"
begin

text \<open>
  \<^verbatim>\<open>py_netty/bootstrap.py\<close> and \<open>EventLoopGroup\<close>: the choice of a loop, connecting to the first
  address that works, binding a server, the handler that turns accepted sockets into channels,
  and leaving a group.
\<close>

section \<open>Groups of event loops\<close>

text \<open>\<open>itertools.cycle\<close> over the loops \<open>0, \<dots>, g_loops - 1\<close>, with the number of calls so far.\<close>

record eventloop_group =
  g_loops :: nat
  g_calls :: nat

definition new_group :: "nat \<Rightarrow> eventloop_group" where
  "new_group num = \<lparr>g_loops = num, g_calls = 0\<rparr>"

definition get_eventloop :: "eventloop_group \<Rightarrow> nat \<times> eventloop_group" where
  "get_eventloop g = (g_calls g mod g_loops g, g\<lparr>g_calls := Suc (g_calls g)\<rparr>)"

fun get_eventloops :: "nat \<Rightarrow> eventloop_group \<Rightarrow> nat list \<times> eventloop_group" where
  "get_eventloops 0 g = ([], g)"
| "get_eventloops (Suc n) g =
     (let (l, g) = get_eventloop g; (ls, g) = get_eventloops n g in (l # ls, g))"

lemma get_eventloops_eq:
  "get_eventloops n g = (map (\<lambda>i. (g_calls g + i) mod g_loops g) [0..<n], g\<lparr>g_calls := g_calls g + n\<rparr>)"
proof (induction n arbitrary: g)
  case (Suc n)
  have "map (\<lambda>i. (g_calls g + i) mod g_loops g) [0..<Suc n] =
      g_calls g mod g_loops g # map (\<lambda>i. (Suc (g_calls g) + i) mod g_loops g) [0..<n]"
    by (simp add: map_upt_Suc del: upt_Suc)
  with Suc.IH[of "g\<lparr>g_calls := Suc (g_calls g)\<rparr>"] show ?case by (simp add: get_eventloop_def)
qed simp

text \<open>Any \<open>num\<close> calls in a row serve every loop exactly once.\<close>

lemma round_robin:
  assumes "g_loops g = n"
  shows "mset (fst (get_eventloops n g)) = mset [0..<n]"
proof (cases "n = 0")
  case False
  let ?f = "\<lambda>i. (g_calls g + i) mod n"
  have inj: "inj_on ?f {0..<n}"
  proof (rule linorder_inj_onI)
    fix i j assume ij: "i < j" "i \<in> {0..<n}" "j \<in> {0..<n}"
    show "?f i \<noteq> ?f j"
    proof
      assume "?f i = ?f j"
      then have "n dvd (g_calls g + j) - (g_calls g + i)"
        using ij by (subst mod_eq_dvd_iff_nat[symmetric]) simp_all
      then have "n dvd j - i" by simp
      with ij show False by (simp add: nat_dvd_not_less)
    qed
  qed auto
  have "?f ` {0..<n} = {0..<n}"
    using inj False by (intro endo_inj_surj) auto
  then have "image_mset ?f (mset_set {0..<n}) = mset_set {0..<n}"
    using image_mset_mset_set[OF inj] by simp
  then show ?thesis
    by (simp add: get_eventloops_eq assms flip: mset_upt)
qed simp

section \<open>Leaving a group\<close>

text \<open>\<open>__exit__\<close>: \<open>stop\<close> on every loop, from the thread \<open>th\<close> (\<open>pool.shutdown\<close> then waits for the
  loops' threads).\<close>

fun group_stop :: "env \<Rightarrow> tid \<Rightarrow> world list \<Rightarrow> unit outcome \<times> world list" where
  "group_stop E th [] = (Ret (), [])"
| "group_stop E th (w # ws) =
     (case stop E th w of
        (Ret _, w') \<Rightarrow> (case group_stop E th ws of (r, ws') \<Rightarrow> (r, w' # ws'))
      | (Raise e, w') \<Rightarrow> (Raise e, w' # ws)
      | (Diverge, w') \<Rightarrow> (Diverge, w' # ws))"

lemma interrupt_returns: "returns (interrupt w)"
  by (simp add: interrupt_eq)

lemma cleanup_channel_calm: "calm (cleanup_channel E th reason c w)"
  unfolding cleanup_channel_def by (intro calm_handling) simp

lemma cleanup_channels_calm: "calm (cleanup_channels E th reason cs w)"
  by (induction cs arbitrary: w) (auto intro!: calm_andThen cleanup_channel_calm)

lemma stop_calm [calm_intro]: "calm (stop E th w)"
  by (auto simp: stop_def Let_def cleanup_resources_def interrupt_eq
      intro!: calm_andThen cleanup_channels_calm)

lemma stop_stops:
  assumes "application E"
  shows "w_stop_polling (snd (stop E th w)) \<or> w_closed (snd (stop E th w))"
proof (cases "w_closed w \<or> w_stop_polling w")
  case True
  then show ?thesis by (auto simp: stop_def)
next
  case False
  let ?w = "w\<lparr>w_stop_polling := True\<rparr>"
  have "evolves ?w (snd (cleanup_resources E th r ?w))" for r
    using application.cleanup_resources_run[OF assms steps_refl, where w = ?w] by (rule steps_evolves)
  then show ?thesis using False by (auto simp: stop_def Let_def evolves_def interrupt_eq)
qed

lemma group_stop_stops:
  assumes "application E" "group_stop E th ws = (Ret u, ws')"
  shows "length ws' = length ws \<and> (\<forall>w \<in> set ws'. w_stop_polling w \<or> w_closed w)"
  using assms(2)
proof (induction ws arbitrary: ws')
  case (Cons w ws)
  obtain o' w' where s: "stop E th w = (o', w')" by fastforce
  obtain r ws1 where g: "group_stop E th ws = (r, ws1)" by fastforce
  from Cons.prems have "o' = Ret ()" "r = Ret u" "ws' = w' # ws1"
    by (auto simp: s g split: outcome.splits)
  with Cons.IH[of ws1] g stop_stops[OF assms(1), of th w] s show ?case by auto
qed simp

lemma group_stop_calm: "fst (group_stop E th ws) \<noteq> Raise e"
proof (induction ws)
  case (Cons w ws)
  have "fst (stop E th w) \<noteq> Raise x" for x using stop_calm by (simp add: calm_def)
  with Cons show ?case by (cases "stop E th w") (auto split: outcome.splits prod.splits)
qed simp

section \<open>Connecting\<close>

text \<open>The socket calls of \<open>connect\<close>, per address \<open>'a\<close>: creating a socket, \<open>connect\<close>, \<open>connect_ex\<close>
  (whose error number is ignored), \<open>setblocking\<close> and wrapping for TLS, each with the exception
  it may raise.\<close>

record 'a net =
  n_socket :: "'a \<Rightarrow> exn + fd"
  n_connect :: "fd \<Rightarrow> 'a \<Rightarrow> exn option"
  n_connect_ex :: "fd \<Rightarrow> 'a \<Rightarrow> exn option"
  n_setblocking :: "fd \<Rightarrow> exn option"
  n_wrap :: "fd \<Rightarrow> exn + fd"

text \<open>The body of the \<open>try\<close>: the socket it leaves in \<open>sock\<close>, and the exception if it raised.\<close>

definition tls_wrap :: "'a net \<Rightarrow> bool \<Rightarrow> fd \<Rightarrow> exn option \<times> fd" where
  "tls_wrap N tls sock =
     (if tls then (case n_wrap N sock of Inl e \<Rightarrow> (Some e, sock) | Inr s \<Rightarrow> (None, s)) else (None, sock))"

definition try_address :: "'a net \<Rightarrow> bool \<Rightarrow> bool \<Rightarrow> 'a \<Rightarrow> fd \<Rightarrow> exn option \<times> fd" where
  "try_address N ensure_connected tls a sock =
     (if ensure_connected
      then case n_connect N sock a of
          Some e \<Rightarrow> (Some e, sock)
        | None \<Rightarrow> (case tls_wrap N tls sock of
              (Some e, sock) \<Rightarrow> (Some e, sock)
            | (None, sock) \<Rightarrow> (n_setblocking N sock, sock))
      else case n_setblocking N sock of
          Some e \<Rightarrow> (Some e, sock)
        | None \<Rightarrow> (case tls_wrap N tls sock of
              (Some e, sock) \<Rightarrow> (Some e, sock)
            | (None, sock) \<Rightarrow> (n_connect_ex N sock a, sock)))"

text \<open>The loop over the resolved addresses: the connected socket or the exception raised, and
  the sockets closed on the way.  The exception of an empty resolution has no error number.\<close>

definition unresolved :: exn where "unresolved = OSError (-1)"

fun connect_loop :: "'a net \<Rightarrow> bool \<Rightarrow> bool \<Rightarrow> 'a list \<Rightarrow> exn option \<Rightarrow> (exn + fd) \<times> fd list" where
  "connect_loop N ensure tls [] last_error =
     (Inl (case last_error of Some e \<Rightarrow> e | None \<Rightarrow> unresolved), [])"
| "connect_loop N ensure tls (a # addrs) last_error =
     (case n_socket N a of
        Inl e \<Rightarrow> (Inl e, [])
      | Inr sock \<Rightarrow>
          (case try_address N ensure tls a sock of
             (None, sock) \<Rightarrow> (Inr sock, [])
           | (Some e, sock) \<Rightarrow>
               (let (r, closed) = connect_loop N ensure tls addrs (Some e) in (r, sock # closed))))"

definition bootstrap_connect ::
    "env \<Rightarrow> tid \<Rightarrow> 'a net \<Rightarrow> bool \<Rightarrow> bool \<Rightarrow> 'a list \<Rightarrow> world \<Rightarrow> fid outcome \<times> world" where
  "bootstrap_connect E th N ensure_connected tls resolved_addresses w =
     (case fst (connect_loop N ensure_connected tls resolved_addresses None) of
        Inl e \<Rightarrow> (Raise e, w)
      | Inr sock \<Rightarrow>
          andThen (new_socket_channel sock tls 3000 tls w) (\<lambda>c w. register E th c False w))"

text \<open>An address is usable, or fails after its socket was made.\<close>

definition usable :: "'a net \<Rightarrow> bool \<Rightarrow> bool \<Rightarrow> 'a \<Rightarrow> fd \<Rightarrow> bool" where
  "usable N ensure tls a sock \<longleftrightarrow> (\<exists>s. n_socket N a = Inr s \<and> try_address N ensure tls a s = (None, sock))"

definition fails :: "'a net \<Rightarrow> bool \<Rightarrow> bool \<Rightarrow> 'a \<Rightarrow> exn \<Rightarrow> fd \<Rightarrow> bool" where
  "fails N ensure tls a e sock \<longleftrightarrow> (\<exists>s. n_socket N a = Inr s \<and> try_address N ensure tls a s = (Some e, sock))"

lemma connect_loop_first:
  assumes "list_all2 (\<lambda>a (e, sock). fails N ensure tls a e sock) bad es" "usable N ensure tls a sock"
  shows "connect_loop N ensure tls (bad @ a # rest) le = (Inr sock, map snd es)"
  using assms(1)
proof (induction bad es arbitrary: le rule: list_all2_induct)
  case Nil
  with assms(2) show ?case by (auto simp: usable_def)
next
  case (Cons a' bad p es)
  then show ?case by (cases p) (auto simp: fails_def)
qed

lemma connect_loop_none:
  assumes "list_all2 (\<lambda>a (e, sock). fails N ensure tls a e sock) bad es"
  shows "connect_loop N ensure tls bad le =
    (Inl (case es of [] \<Rightarrow> (case le of Some e \<Rightarrow> e | None \<Rightarrow> unresolved) | _ \<Rightarrow> fst (List.last es)), map snd es)"
  using assms
proof (induction bad es arbitrary: le rule: list_all2_induct)
  case (Cons a' bad p es)
  then show ?case by (cases p; cases es) (auto simp: fails_def)
qed simp

section \<open>Serving\<close>

text \<open>\<open>bind\<close>, with the listening socket the system made or the exception raised on the way.\<close>

definition server_bind ::
    "env \<Rightarrow> tid \<Rightarrow> string option \<Rightarrow> string option \<Rightarrow> int \<Rightarrow> exn + fd \<Rightarrow> world \<Rightarrow> fid outcome \<times> world" where
  "server_bind E th certfile keyfile port server_socket w =
     (if \<not> port > 0 then (Raise AssertionError, w)
      else if (certfile \<noteq> None) \<noteq> (keyfile \<noteq> None) then (Raise AssertionError, w)
      else case server_socket of
          Inl e \<Rightarrow> (Raise e, w)
        | Inr fileno \<Rightarrow>
            andThen (new_server_channel fileno w) (\<lambda>c w. register E th c False w))"

text \<open>\<open>_ChannelInitializer.channel_read\<close> on the loop that the child group hands out: it makes a
  channel of the accepted socket (named by its descriptor; \<open>wrap\<close> is the TLS wrapping, if the
  server has a certificate) and registers it there, from the thread \<open>th\<close> of the server's loop.\<close>

definition child_channel ::
    "env \<Rightarrow> (fd \<Rightarrow> exn + fd) option \<Rightarrow> tid \<Rightarrow> nat \<Rightarrow> world \<Rightarrow> unit outcome \<times> world" where
  "child_channel E wrap th client_socket w =
     (case (case wrap of None \<Rightarrow> Inr (int client_socket) | Some f \<Rightarrow> f (int client_socket)) of
        Inl e \<Rightarrow> (Raise e, w)
      | Inr sock \<Rightarrow>
          andThen (new_socket_channel sock (wrap \<noteq> None) 3000 (wrap \<noteq> None) w) (\<lambda>c w.
          andThen (register E th c False w) (\<lambda>_ w. (Ret (), w))))"

text \<open>\<open>_ChannelInitializer\<close> when the child group has just the server's own loop; its other methods
  are the adapter's.  Other groups are in \<^verbatim>\<open>Serving.thy\<close>.\<close>

definition initializer_handler ::
    "env \<Rightarrow> (fd \<Rightarrow> exn + fd) option \<Rightarrow> cid \<Rightarrow> callback \<Rightarrow> tid \<Rightarrow> world \<Rightarrow> unit outcome \<times> world" where
  "initializer_handler E wrap c cb th w =
     (case cb of
        ChannelReadSocket client_socket \<Rightarrow> child_channel E wrap th client_socket w
      | _ \<Rightarrow> adapter_handler c cb th w)"

text \<open>The handlers of a server: the initializer for the listening channel, the echo handler (the
  default) for the others.\<close>

definition server_env :: "env \<Rightarrow> (fd \<Rightarrow> exn + fd) option \<Rightarrow> env" where
  "server_env B wrap = (plain_env B)\<lparr>e_handler := (\<lambda>c cb th w.
     if c_server (w_chans w c) then initializer_handler (echo_env B) wrap c cb th w
     else echo_handler (plain_env B) c cb th w)\<rparr>"

lemma initializer_run: "application E \<Longrightarrow> steps w (snd (initializer_handler E wrap c cb th w))"
  by (auto simp: initializer_handler_def child_channel_def adapter_handler_def split: callback.split option.split sum.split
      intro!: steps_andThen application.new_socket_channel_run application.register_run)

lemma server_application: "application (server_env B wrap)"
proof
  show "steps w (snd (e_handler (server_env B wrap) c cb th w))" for c cb th w
    using initializer_run[OF echo_application] application.handler_steps[OF echo_application, of w B c cb th]
    by (auto simp: server_env_def echo_env_def)
qed (simp_all add: server_env_def)

interpretation server: application "server_env B wrap" for B wrap
  by (rule server_application)

end
