(* ===== verification/Echo.thy ===== *)
theory Echo
  imports Writing Handlers
begin

text \<open>
  The echo handler in the loop: what a read event brings is written back, in order.
\<close>

lemma plain_passive: "passive_listeners (plain_env B)"
  by (simp add: passive_listeners_def)

text \<open>A write of the application returns its new future, and is the step of \<open>io_run\<close>.\<close>

lemma channel_write_returns:
  assumes "passive_listeners E" "send_ok (k_send (e_kernel E) c)" "in_eventloop th w"
  shows "\<exists>f w'. channel_write E th c buf None w = (Ret f, w') \<and> w_received w' = w_received w
    \<and> c_server (w_chans w' c) = c_server (w_chans w c)"
proof -
  obtain f w1 where nf: "new_future w = (f, w1)" by (cases "new_future w")
  then have w1: "in_eventloop th w1" "w_futs w1 f = FPending" "w_received w1 = w_received w" "w_chans w1 = w_chans w"
    using assms(3) by (auto simp: new_future_def in_eventloop_def)
  have "channel_write E th c buf None w = channel_write E th c buf (Some f) w1"
    by (simp add: channel_write_def nf)
  with channel_write_in_loop[OF assms(1,2) w1(1,2), of buf] w1(3,4) show ?thesis
    by (auto simp: written_def)
qed

lemma read_event_echoes:
  assumes "send_ok (k_send (e_kernel B) c)" "io_ok th c w" "is_active c w" "\<not> c_server (w_chans w c)"
    and "channel_recvall (echo_env B) c w = (Ret (buf, eof), w1)" "buf \<noteq> []"
  shows "\<exists>w'. read_event (echo_env B) th c w = (Ret (), w') \<and> io_ok th c w'
    \<and> chan_bytes c w' = chan_bytes c w @ buf \<and> w_received w' = w_received w + int (length buf)"
proof -
  obtain k where w1: "w1 = w\<lparr>w_kcalls := k\<rparr>"
    using assms(5) by (auto simp: channel_recvall_def Let_def split: option.splits)
  define w2 where "w2 = fired c (ChannelReadBytes buf) (w1\<lparr>w_received := w_received w + int (length buf)\<rparr>)"
  have w2: "io_ok th c w2" "chan_bytes c w2 = chan_bytes c w" "w_received w2 = w_received w + int (length buf)"
    "\<not> c_server (w_chans w2 c)"
    using assms(2,4) by (simp_all add: w2_def w1 fired_def io_ok_def in_eventloop_def chan_bytes_def accounted_def)
  have s: "send_ok (k_send (e_kernel (plain_env B)) c)" using assms(1) by simp
  have loop: "in_eventloop th w2" using w2(1) by (simp add: io_ok_def)
  obtain f w3 where wr: "channel_write (plain_env B) th c buf None w2 = (Ret f, w3)" "w_received w3 = w_received w2"
    using channel_write_returns[OF plain_passive s loop] by blast
  have w3: "w3 = io_step (plain_env B) th c (IoWrite buf) w2" by (simp add: wr)
  have "e_handler (echo_env B) c (ChannelReadBytes buf) th w2 = (Ret (), w3)"
    using wr(1) w2(4) by (simp add: echo_env_def echo_handler_def ctx_write_def)
  then have "read_event (echo_env B) th c w = (Ret (), w3)"
    using assms(3,5,6) by (simp add: read_event_def fire_def w2_def w1)
  moreover have "io_ok th c w3" "chan_bytes c w3 = chan_bytes c w2 @ buf"
    unfolding w3 by (rule io_write_ok[OF plain_passive s w2(1)])+
  ultimately show ?thesis using w2 wr(2) by simp
qed

end
