(* ===== verification/Demo.thy ===== *)
theory Demo
  imports Activation Backpressure Tasks Bootstrap Echo
begin

text \<open>
  A small running program for concrete instances: an operating system that takes everything
  it is given, an event loop in thread 1 with its event descriptor 3, and one active
  connection, channel 0 on descriptor 5.
\<close>

definition demo_kernel :: kernel where
  "demo_kernel = \<lparr>k_send = (\<lambda>c k d. Sent (length d)),
     k_recv = (\<lambda>c. \<lparr>rk_recv = (\<lambda>k n. RecvError (Some 11)), rk_peek = (\<lambda>k. RecvError (Some 11)),
       rk_perf = (\<lambda>k. 0)\<rparr>),
     k_accept = (\<lambda>c k. AcceptError), k_so_error = (\<lambda>c k. Inr 0), k_handshake = (\<lambda>c k. HsOk),
     k_now = (\<lambda>k. 1000), k_select = (\<lambda>k t. []), k_sel_register = (\<lambda>k fd. True),
     k_sel_modify = (\<lambda>k fd. True), k_pool = (\<lambda>k. PoolThread 1), k_getsource = (\<lambda>k. True)\<rparr>"

definition demo_base :: env where
  "demo_base = \<lparr>e_cfg = config_of_env (\<lambda>_. None), e_kernel = demo_kernel,
     e_handler = adapter_handler, e_listener = (\<lambda>l f th w. (Ret (), w)),
     e_usertask = (\<lambda>n th w. (Ret (), w)), e_str = (\<lambda>_. ''''), e_debug = False,
     e_debug_interval = 60000\<rparr>"

definition demo_env :: env where
  "demo_env = plain_env demo_base"

definition demo_chan :: chan where
  "demo_chan = (base_channel 5 0 1)\<lparr>c_active := True, c_ever_active := True, c_flag := 1\<rparr>"

definition demo_world :: world where
  "demo_world = (eventloop_init True 3 4)\<lparr>w_thread := Some 1, w_started := True,
     w_channels := [(5, 0)], w_selector := [(3, 1), (5, 1)],
     w_chans := (\<lambda>_. base_channel 0 0 0)(0 := demo_chan), w_next_cid := 1, w_next_fid := 2\<rparr>"

lemma demo_kernel_simps [simp]:
  "k_send demo_kernel c k d = Sent (length d)" "k_so_error demo_kernel c k = Inr 0"
  "k_now demo_kernel k = 1000" "k_select demo_kernel k t = []" "k_sel_register demo_kernel k fd"
  "k_sel_modify demo_kernel k fd" "k_pool demo_kernel k = PoolThread 1" "k_getsource demo_kernel k"
  "k_accept demo_kernel c k = AcceptError" "k_handshake demo_kernel c k = HsOk"
  by (simp_all add: demo_kernel_def)

lemma demo_env_simps [simp]:
  "e_kernel demo_env = demo_kernel" "e_handler demo_env = adapter_handler"
  "e_listener demo_env l f th w = (Ret (), w)" "e_usertask demo_env n th w = (Ret (), w)"
  "e_cfg demo_env = config_of_env (\<lambda>_. None)" "e_debug demo_env \<longleftrightarrow> False"
  by (simp_all add: demo_env_def demo_base_def plain_env_def)

lemma demo_application: "application demo_env"
  unfolding demo_env_def by (rule plain_application)

lemma demo_passive: "passive_listeners demo_env"
  by (simp add: passive_listeners_def)

lemma demo_responsive: "responsive demo_env"
  by (simp add: responsive_def adapter_handler_def)

lemma demo_send_ok: "send_ok (k_send demo_kernel c)"
  by (simp add: send_ok_def)

lemma demo_loop [simp]: "in_eventloop t demo_world \<longleftrightarrow> t = 1"
  by (auto simp: in_eventloop_def demo_world_def)

lemma demo_world_simps [simp]:
  "w_chans demo_world 0 = demo_chan" "w_next_cid demo_world = 1" "w_next_fid demo_world = 2"
  "w_started demo_world" "w_futs demo_world f = FPending" "w_channels demo_world = [(5, 0)]"
  "w_due demo_world = []" "w_taskq demo_world = []" "\<not> w_stop_polling demo_world" "\<not> w_closed demo_world"
  "w_selector demo_world = [(3, 1), (5, 1)]" "w_events demo_world = []" "w_selector_open demo_world"
  "w_eventfd demo_world = eventfd_new True 3 4" "w_thread demo_world = Some 1"
  by (simp_all add: demo_world_def eventloop_init_def)

lemma demo_chan_simps [simp]:
  "c_pendings demo_chan = []" "c_close_future demo_chan = 0" "c_channel_future demo_chan = 1"
  "c_fileno0 demo_chan = 5" "c_sockfd demo_chan = 5" "\<not> c_server demo_chan" "c_active demo_chan"
  "c_ever_active demo_chan" "c_wire demo_chan = []" "c_pending_bytes demo_chan = 0" "c_writable demo_chan"
  "c_flag demo_chan = 1" "c_pgen demo_chan = 0"
  by (simp_all add: demo_chan_def base_channel_def)

lemma demo_world_ok: "world_ok demo_world"
  by (simp add: world_ok_def dict_ok_def eventfd_ok_new) (simp add: eventfd_new_def pipe_eventfd_def base_eventfd_def)

lemma demo_io_ok: "io_ok 1 0 demo_world"
  by (simp add: io_ok_def demo_loop queue_ok_def accounted_def)

text \<open>The same connection with a chunk of two bytes queued, whose future is 2.\<close>

definition demo_queued :: world where
  "demo_queued = upd_chan 0 (\<lambda>ch. ch\<lparr>c_pendings := [\<lparr>ck_buffer = [7, 8], ck_future = 2, ck_close = False\<rparr>],
     c_pending_bytes := 2, c_flag := 3\<rparr>) (demo_world\<lparr>w_next_fid := 3, w_selector := [(3, 1), (5, 3)]\<rparr>)"

lemma demo_queued_simps [simp]:
  "c_pendings (w_chans demo_queued 0) = [\<lparr>ck_buffer = [7, 8], ck_future = 2, ck_close = False\<rparr>]"
  "c_wire (w_chans demo_queued 0) = []" "\<not> c_server (w_chans demo_queued 0)"
  "c_close_future (w_chans demo_queued 0) = 0" "c_channel_future (w_chans demo_queued 0) = 1"
  "w_next_cid demo_queued = 1" "w_next_fid demo_queued = 3" "w_started demo_queued"
  "w_futs demo_queued f = FPending" "in_eventloop t demo_queued \<longleftrightarrow> t = 1" "is_active 0 demo_queued"
  "\<not> refuses demo_env 0 demo_queued"
  by (auto simp: demo_queued_def in_eventloop_def is_active_def fut_done_def refuses_def sock_send_def)

lemma demo_queued_ok:
  "io_ok (Suc 0) 0 demo_queued" "queue_ok (w_futs demo_queued) [\<lparr>ck_buffer = [7, 8], ck_future = 2, ck_close = False\<rparr>]"
  "data_part [\<lparr>ck_buffer = [7, 8], ck_future = 2, ck_close = False\<rparr>] =
     [\<lparr>ck_buffer = [7, 8], ck_future = 2, ck_close = False\<rparr>]"
  by (simp_all add: io_ok_def queue_ok_def accounted_def data_part_def) (simp add: demo_queued_def)

text \<open>The hypotheses of the properties, for these worlds.\<close>

lemma demo_hyps:
  "send_ok (k_send (e_kernel demo_env) c)" "in_eventloop 1 demo_world" "w_futs demo_world f = FPending"
  "queue_ok (w_futs demo_queued) (c_pendings (w_chans demo_queued 0))" "io_ok 1 0 demo_queued"
  "io_ok 1 0 demo_world" "length (stream (data_part (c_pendings (w_chans demo_queued 0)))) = 2"
  "chan_bytes 0 demo_queued = [7, 8]" "0 < w_next_cid demo_queued"
  "c_close_future (w_chans demo_queued 0) < w_next_fid demo_queued"
  using demo_queued_ok demo_io_ok demo_send_ok by (simp_all add: chan_bytes_def)

text \<open>A socket with one answer of two bytes, then nothing.\<close>

definition demo_reader :: rkernel where
  "demo_reader = \<lparr>rk_recv = (\<lambda>k n. if k \<le> 1 then Received [1, 2] else RecvError (Some 11)),
     rk_peek = (\<lambda>k. RecvError (Some 11)), rk_perf = (\<lambda>k. 0)\<rparr>"

lemma demo_stop_returns:
  "\<exists>r. start_thread demo_env 1 (demo_world\<lparr>w_stop_polling := True\<rparr>) = Some r"
proof -
  let ?w = "demo_world\<lparr>w_stop_polling := True\<rparr>"
  have "\<exists>o' w'. loop_iteration demo_env 1 ?w = (o', w') \<and> o' \<noteq> Ret True"
    by (cases "cleanup_resources demo_env 1 ''event loop stopped'' ?w";
        cases "fst (cleanup_resources demo_env 1 ''event loop stopped'' ?w)")
      (auto simp: loop_iteration_def)
  then obtain o' w' where "loop_iteration demo_env 1 ?w = (o', w')" "o' \<noteq> Ret True" by blast
  then show ?thesis by (subst start_thread.simps) (cases o'; simp)
qed

text \<open>More worlds: the channel before it is registered, while it connects (with a connect timeout
  that is due), and with a TLS handshake to do.\<close>

definition demo_fresh :: world where
  "demo_fresh = upd_chan 0 (\<lambda>ch. ch\<lparr>c_active := False, c_ever_active := False, c_flag := 0\<rparr>)
     (demo_world\<lparr>w_channels := [], w_selector := [(3, 1)]\<rparr>)"

definition demo_connecting :: world where
  "demo_connecting = upd_chan 0 (\<lambda>ch. ch\<lparr>c_active := False, c_ever_active := False, c_flag := 3\<rparr>)
     (demo_world\<lparr>w_selector := [(3, 1), (5, 3)], w_due := [(5, 500), (9, 2000)]\<rparr>)"

definition demo_tls :: world where
  "demo_tls = upd_chan 0 (\<lambda>ch. ch\<lparr>c_ssl_required := True, c_ssl_complete := False\<rparr>) demo_connecting"

definition demo_tls_env :: env where
  "demo_tls_env = demo_env\<lparr>e_kernel := demo_kernel\<lparr>k_handshake := (\<lambda>c k. HsWantRead)\<rparr>\<rparr>"

definition demo_failing_env :: env where
  "demo_failing_env = plain_env (demo_base\<lparr>e_kernel := demo_kernel\<lparr>k_so_error := (\<lambda>c k. Inr 111)\<rparr>\<rparr>)"

lemmas demo_more_defs = demo_fresh_def demo_connecting_def demo_tls_def

lemma demo_quiet: "quiet demo_env"
  by (simp add: quiet_def demo_passive adapter_handler_def)

lemma demo_accepting: "accepting demo_env" "accepting demo_tls_env"
  by (simp_all add: accepting_def demo_tls_env_def)

lemma demo_fresh_hyps:
  "in_eventloop 1 demo_fresh" "w_started demo_fresh" "\<not> w_stop_polling demo_fresh" "\<not> w_closed demo_fresh"
  "c_sockfd (w_chans demo_fresh 0) = 5" "5 \<notin> dict_keys (w_selector demo_fresh)" "w_selector_open demo_fresh"
  "c_channel_future (w_chans demo_fresh 0) = 1"
  by (simp_all add: demo_fresh_def in_eventloop_def) (simp_all add: dict_keys_def)

lemma demo_connecting_hyps:
  "own_fds demo_connecting" "in_eventloop 1 demo_connecting" "w_due demo_connecting \<noteq> []"
  "w_due demo_connecting = [(5, 500), (9, 2000)]" "w_started demo_connecting"
  "\<not> c_active (w_chans demo_connecting 0)" "\<not> c_ever_active (w_chans demo_connecting 0)"
  "c_channel_future (w_chans demo_connecting 0) = 1" "w_futs demo_connecting f = FPending"
  "c_close_future (w_chans demo_connecting 0) = 0" "w_next_cid demo_connecting = 1" "w_next_fid demo_connecting = 2"
  "\<not> needs_ssl_handshake 0 demo_connecting" "sock_so_error demo_env 0 demo_connecting = Inr 0"
  "connecting demo_connecting 5"
  by (simp_all add: demo_connecting_def own_fds_def in_eventloop_def dict_get_def
      needs_ssl_handshake_def sock_so_error_def connecting_def)
    (simp_all add: demo_chan_def base_channel_def)

lemma demo_synced:
  "synced 0 demo_connecting" "synced 0 demo_tls" "synced 0 demo_world" "reading_as_set 0 demo_world"
  by (simp_all add: synced_def reading_as_set_def demo_more_defs dict_get_def EVENT_READ_def)
    (simp add: demo_chan_def base_channel_def)

lemma demo_tls_hyps:
  "in_eventloop 1 demo_tls" "\<not> c_ever_active (w_chans demo_tls 0)" "needs_ssl_handshake 0 demo_tls"
  "sock_so_error demo_tls_env 0 demo_tls = Inr 0" "sock_handshake demo_tls_env 0 (tick demo_tls) = HsWantRead"
  "c_flag (w_chans demo_tls 0) = 3"
  by (simp_all add: demo_more_defs in_eventloop_def needs_ssl_handshake_def sock_so_error_def
      sock_handshake_def demo_tls_env_def)

lemma demo_failing_hyps:
  "application demo_failing_env" "passive_listeners demo_failing_env" "responsive demo_failing_env"
  "sock_so_error demo_failing_env 0 demo_connecting = Inr 111"
  using plain_application[of "demo_base\<lparr>e_kernel := demo_kernel\<lparr>k_so_error := (\<lambda>c k. Inr 111)\<rparr>\<rparr>"]
  by (simp_all add: demo_failing_env_def passive_listeners_def responsive_def adapter_handler_def
      sock_so_error_def demo_connecting_def)

text \<open>The connection with two bytes to read.\<close>

definition demo_reading :: env where
  "demo_reading = demo_base\<lparr>e_kernel := demo_kernel\<lparr>k_recv := (\<lambda>c. demo_reader)\<rparr>\<rparr>"

lemma demo_reading_simps:
  "send_ok (k_send (e_kernel demo_reading) c)" "k_recv (e_kernel (echo_env demo_reading)) = (\<lambda>c. demo_reader)"
  "e_cfg (echo_env demo_reading) = config_of_env (\<lambda>_. None)" "w_kcalls demo_world = 0"
  by (simp_all add: demo_reading_def echo_env_def demo_base_def send_ok_def demo_world_def eventloop_init_def)

end
