(* ===== verification/Findings.thy ===== *)
theory Findings
  imports Demo Wakeup Graceful
begin

text \<open>
  Behaviour of the code that surprises, each on a concrete run: what done-callbacks and handlers
  can do to the loop by ordinary calls of the library, and what a stop loses.
\<close>

section \<open>Environments and worlds\<close>

text \<open>An application whose only code are done-callbacks, or only a handler.\<close>

definition listener_script :: "action list \<Rightarrow> script" where
  "listener_script as = \<lparr>s_handler = (\<lambda>c cb. []), s_listener = (\<lambda>l. as), s_task = (\<lambda>n. [])\<rparr>"

definition handler_script :: "callback \<Rightarrow> action list \<Rightarrow> script" where
  "handler_script cb0 as =
     \<lparr>s_handler = (\<lambda>c cb. if cb = cb0 then as else []), s_listener = (\<lambda>l. []), s_task = (\<lambda>n. [])\<rparr>"

text \<open>Two chunks queued on the connection of \<open>demo_world\<close>, with futures 2 and 3; the second variant
  has a done-callback on future \<open>f\<close>.\<close>

definition two_chunks :: world where
  "two_chunks = upd_chan 0 (\<lambda>ch. ch\<lparr>c_pendings := [\<lparr>ck_buffer = [7, 8], ck_future = 2, ck_close = False\<rparr>,
       \<lparr>ck_buffer = [5, 6], ck_future = 3, ck_close = False\<rparr>], c_pending_bytes := 4, c_flag := 3\<rparr>)
     (demo_world\<lparr>w_next_fid := 4, w_selector := [(3, 1), (5, 3)]\<rparr>)"

definition listened :: "fid \<Rightarrow> world" where
  "listened f = two_chunks\<lparr>w_listeners := (\<lambda>_. [])(f := [0])\<rparr>"

section \<open>Done-callbacks of writes\<close>

text \<open>With a high water mark of 2 bytes the two chunks go out as two batches; the callback of the
  second writes.\<close>

definition rewriting_env :: env where
  "rewriting_env = scripted_env (demo_base\<lparr>e_cfg := (e_cfg demo_base)\<lparr>cfg_high := 2\<rparr>\<rparr>)
     (listener_script [AWrite 0 [9]]) 1"

text \<open>What the callback wrote was queued, and is then overwritten by the pass it ran in: the byte is
  neither sent nor queued, its future stays pending, and the count of pending bytes stays off.\<close>

lemma callback_write_is_lost:
  "(let (r, w) = send_pending_chunks rewriting_env 1 0 (listened 3) in
    r = Ret () \<and> c_wire (w_chans w 0) = [7, 8, 5, 6] \<and> c_pendings (w_chans w 0) = []
    \<and> c_pending_bytes (w_chans w 0) = 1 \<and> w_next_fid w = 5 \<and> w_futs w 4 = FPending)"
  by code_simp

text \<open>The callback of the first chunk of a batch closes the channel, which fails the future of the
  second; completing it then raises, and the loop's thread ends without releasing anything, while
  the loop still takes tasks.\<close>

definition closing_env :: env where
  "closing_env = scripted_env (demo_base\<lparr>e_kernel := demo_kernel\<lparr>k_select := (\<lambda>k t. [(5, 2)])\<rparr>\<rparr>)
     (listener_script [AClose 0 True]) 1"

lemma callback_close_kills_loop:
  "fst (loop_iteration closing_env 1 (listened 2)) = Raise InvalidStateError
   \<and> (case start_thread closing_env 1 (listened 2) of
        None \<Rightarrow> False
      | Some (r, w) \<Rightarrow> r = Ret () \<and> \<not> w_stop_polling w \<and> \<not> w_closed w \<and> w_selector_open w
          \<and> fst (submit_task closing_env (TUser 0) w) = Ret ())"
  by code_simp

text \<open>A future that the application cancels does the same.\<close>

definition cancelled :: world where
  "cancelled = two_chunks\<lparr>w_futs := (\<lambda>_. FPending)(2 := FCancelled)\<rparr>"

lemma cancelled_write_kills_loop:
  "fst (loop_iteration closing_env 1 cancelled) = Raise InvalidStateError"
  by code_simp

section \<open>Handlers that close or connect\<close>

text \<open>A handler that closes in \<open>channel_handshake_complete\<close> is told afterwards that the closed channel
  is active.\<close>

lemma closed_in_handshake_is_activated:
  "(let (r, w) = check_channel_active (scripted_env demo_base
       (handler_script ChannelHandshakeComplete [AClose 0 True]) 1) 1 0 demo_tls in
    r = Ret True \<and> c_sockfd (w_chans w 0) = -1 \<and> c_active (w_chans w 0)
    \<and> (0, ChannelActive) \<in> set (w_events w))"
  by code_simp

text \<open>One that closes in \<open>channel_registered\<close> leaves the closed channel in the loop's tables, under the
  descriptor \<open>-1\<close>.\<close>

lemma closed_in_registered_stays:
  "(let (r, w) = register (scripted_env demo_base (handler_script ChannelRegistered [AClose 0 True]) 1)
       1 0 False demo_fresh in
    c_sockfd (w_chans w 0) = -1 \<and> dict_get (w_channels w) (-1) = Some 0 \<and> -1 \<in> dict_keys (w_due w))"
  by code_simp

text \<open>Reconnecting in \<open>channel_inactive\<close>, where the system gives the new socket the descriptor just
  closed: the selector still has it, and the registration raises in the handler.\<close>

definition seen :: "world \<Rightarrow> callback list \<times> nat \<times> (fd \<times> cid) list" where
  "seen w = (map snd (w_events w), w_next_cid w, w_channels w)"

lemma reconnect_in_inactive_is_refused:
  "seen (snd (close_channel_internally (scripted_env demo_base (handler_script ChannelInactive [AConnect 5]) 1)
     1 0 [] None demo_world)) = ([ChannelInactive, ExceptionCaught KeyError, ChannelUnregistered], 2, [])"
  by code_simp

text \<open>A channel with no interest left (reads paused, nothing to write) is not in the selector: when it
  closes, its handler never hears \<open>channel_unregistered\<close>.\<close>

lemma paused_channel_is_not_unregistered:
  "(let (r, w) = set_auto_read demo_env 1 0 False demo_world;
        (r', w') = close_channel_internally demo_env 1 0 [] None w in
    r = Ret () \<and> r' = Ret () \<and> w_channels w' = [] \<and> (0, ChannelUnregistered) \<notin> set (w_events w'))"
  by code_simp

section \<open>Closing too early, writing too late\<close>

text \<open>A graceful close of a channel that is still connecting does nothing.\<close>

lemma early_graceful_close_ignored:
  "close_gracefully demo_env 1 0 demo_connecting = (Ret 0, demo_connecting)"
  using demo_connecting_hyps(6,10)
  by (simp add: close_gracefully_def in_eventloop_def is_active_def demo_connecting_hyps(2)[unfolded in_eventloop_def])

text \<open>A write to a closed channel is queued for ever: its future is never completed.\<close>

lemma late_write_never_completes:
  "(let (r, w) = close_channel_internally demo_env 1 0 [] None demo_world;
        (r', w') = channel_write demo_env 1 0 [1] None w in
    r' = Ret 3 \<and> w_futs w' 3 = FPending \<and> length (c_pendings (w_chans w' 0)) = 1
    \<and> 5 \<notin> dict_keys (w_selector w') \<and> w_channels w' = [])"
  by code_simp

section \<open>The tuning limit\<close>

text \<open>One receive error that is followed by readable data, in the round of the limit, and the limit is
  never met again: here 39 buffers are read where the limit is 16.\<close>

definition glitch_reader :: rkernel where
  "glitch_reader = \<lparr>rk_recv = (\<lambda>k n. if k = 46 then RecvError (Some 11) else if k < 120 then Received [1] else Received []),
     rk_peek = (\<lambda>k. Received [1]), rk_perf = (\<lambda>k. 0)\<rparr>"

lemma limit_is_missed:
  "recvall (config_of_env (\<lambda>_. None)) glitch_reader 0 = Some (replicate 39 1, True, 123)"
  by code_simp

section \<open>Stopping\<close>

text \<open>A task accepted before the stop may never run.\<close>

lemma stop_drops_a_task: "\<exists>s. wake_reach s \<and> wk_loop s = Exited \<and> wk_tasks s > 0"
proof -
  define s1 where "s1 = move 1 Admitted wake_init"
  define s2 where "s2 = move 2 Notifying (s1\<lparr>wk_stop := True\<rparr>)"
  define s3 where "s3 = move 1 Notifying (s2\<lparr>wk_tasks := Suc (wk_tasks s2)\<rparr>)"
  have "wake_reach s1" unfolding s1_def
    by (rule wake_reach.step[OF wake_reach.init submit_check]) (simp_all add: wake_init_def)
  then have "wake_reach s2" unfolding s2_def
    by (rule wake_reach.step[OF _ stop_set]) (simp_all add: s1_def wake_init_def)
  then have "wake_reach s3" unfolding s3_def
    by (rule wake_reach.step[OF _ submit_put]) (simp add: s2_def s1_def wake_init_def)
  then have "wake_reach (s3\<lparr>wk_loop := Exited\<rparr>)"
    by (rule wake_reach.step[OF _ loop_exit]) (simp_all add: s3_def s2_def s1_def wake_init_def)
  moreover have "wk_tasks (s3\<lparr>wk_loop := Exited\<rparr>) > 0" by (simp add: s3_def)
  ultimately show ?thesis by (intro exI[of _ "s3\<lparr>wk_loop := Exited\<rparr>"]) simp
qed

text \<open>An error while making a socket, unlike one while connecting it, keeps the addresses after it
  from being tried.\<close>

lemma socket_error_ends_the_search:
  "n_socket N a = Inl e \<Longrightarrow> connect_loop N ensure tls (a # addrs) le = (Inl e, [])"
  by simp

end
