(* ===== verification/Serving.thy ===== *)
theory Serving
  imports Bootstrap Interest Tasks
begin

text \<open>
  A server with a child group of its own: the accepting loop hands each accepted socket to the
  next loop of the group, from its own thread, and that loop registers it when it gets to its
  tasks.  The loops are separate worlds.
\<close>

section \<open>Several loops\<close>

record system =
  sy_parent :: world
  sy_group :: eventloop_group
  sy_loops :: "nat \<Rightarrow> world"

text \<open>The loop over the accepted sockets in \<open>_start\<close>, with the \<open>channel_read\<close> of
  \<open>_ChannelInitializer\<close>: what that raises goes to \<open>exception_caught\<close>, which the adapter ignores.\<close>

fun accept_children ::
    "env \<Rightarrow> (fd \<Rightarrow> exn + fd) option \<Rightarrow> tid \<Rightarrow> cid \<Rightarrow> nat list \<Rightarrow> system \<Rightarrow> unit outcome \<times> system" where
  "accept_children E wrap th c [] S = (Ret (), S)"
| "accept_children E wrap th c (client_sock # rest) S =
     (let parent = fired c (ChannelReadSocket client_sock)
            ((sy_parent S)\<lparr>w_accepted := w_accepted (sy_parent S) + 1\<rparr>);
          (l, group) = get_eventloop (sy_group S);
          (r, w) = child_channel E wrap th client_sock (sy_loops S l);
          loops = (sy_loops S)(l := w) in
      (case r of
         Ret _ \<Rightarrow> accept_children E wrap th c rest \<lparr>sy_parent = parent, sy_group = group, sy_loops = loops\<rparr>
       | Raise e \<Rightarrow> accept_children E wrap th c rest
           \<lparr>sy_parent = fired c (ExceptionCaught e) parent, sy_group = group, sy_loops = loops\<rparr>
       | Diverge \<Rightarrow> (Diverge, \<lparr>sy_parent = parent, sy_group = group, sy_loops = loops\<rparr>)))"

section \<open>Handing over a socket\<close>

text \<open>A running loop, seen from another thread.\<close>

definition running_elsewhere :: "tid \<Rightarrow> world \<Rightarrow> bool" where
  "running_elsewhere th w \<longleftrightarrow> w_started w \<and> \<not> w_stop_polling w \<and> \<not> w_closed w \<and> \<not> in_eventloop th w"

definition child_of :: "fd \<Rightarrow> bool \<Rightarrow> fid \<Rightarrow> chan" where
  "child_of sock tls f = (base_channel sock f (Suc f))\<lparr>c_ssl_required := tls, c_ssl_complete := \<not> tls,
     c_connect_timeout := 3000\<rparr>"

text \<open>What a hand-over leaves: the new channel and its two futures, the task, and the event descriptor
  written.\<close>

definition handed_over :: "bool \<Rightarrow> fd \<Rightarrow> world \<Rightarrow> world" where
  "handed_over tls sock w =
     (let w2 = snd (new_future (snd (new_future w))) in
      w2\<lparr>w_chans := (w_chans w)(w_next_cid w := child_of sock tls (w_next_fid w)),
         w_next_cid := Suc (w_next_cid w),
         w_taskq := w_taskq w @ [TRegister (w_next_cid w) False],
         w_tasks_submitted := w_tasks_submitted w + 1,
         w_eventfd := snd (eventfd_unsafe_write (w_eventfd w))\<rparr>)"

definition wrapped :: "(fd \<Rightarrow> exn + fd) option \<Rightarrow> nat \<Rightarrow> exn + fd" where
  "wrapped wrap s = (case wrap of None \<Rightarrow> Inr (int s) | Some f \<Rightarrow> f (int s))"

lemma child_channel_hands_over:
  assumes "running_elsewhere th w" "wrapped wrap s = Inr sock" "0 < sock"
  shows "child_channel E wrap th s w = (Ret (), handed_over (wrap \<noteq> None) sock w)"
proof -
  define c w1 where "c = w_next_cid w"
    and "w1 = snd (new_socket_channel sock (wrap \<noteq> None) 3000 (wrap \<noteq> None) w)"
  have new: "new_socket_channel sock (wrap \<noteq> None) 3000 (wrap \<noteq> None) w = (Ret c, w1)"
    using assms(3) by (simp add: c_def w1_def new_socket_channel_eq Let_def)
  have run: "w_started w1" "\<not> w_stop_polling w1" "\<not> w_closed w1" "\<not> in_eventloop th w1"
    using assms(1,3)
    by (simp_all add: w1_def new_socket_channel_eq Let_def running_elsewhere_def in_eventloop_def new_future_def)
  then have "register E th c False w1 = (Ret (c_channel_future (w_chans w1 c)),
      w1\<lparr>w_taskq := w_taskq w1 @ [TRegister c False], w_tasks_submitted := w_tasks_submitted w1 + 1,
        w_eventfd := snd (eventfd_unsafe_write (w_eventfd w1))\<rparr>)"
    by (simp add: register_def Let_def submit_task_running)
  moreover have "w1\<lparr>w_taskq := w_taskq w1 @ [TRegister c False], w_tasks_submitted := w_tasks_submitted w1 + 1,
        w_eventfd := snd (eventfd_unsafe_write (w_eventfd w1))\<rparr> = handed_over (wrap \<noteq> None) sock w"
    using assms(3)
    by (simp add: w1_def c_def new_socket_channel_eq handed_over_def child_of_def new_future_def Let_def)
  ultimately show ?thesis using assms(2) new by (simp add: child_channel_def wrapped_def)
qed

lemma handed_over_running [simp]: "running_elsewhere th (handed_over tls sock w) = running_elsewhere th w"
  by (simp add: running_elsewhere_def handed_over_def new_future_def in_eventloop_def Let_def)

text \<open>The sockets a loop of the group gets: every \<open>n\<close>th one, from where the group stands.\<close>

fun share :: "nat \<Rightarrow> nat \<Rightarrow> nat \<Rightarrow> 'a list \<Rightarrow> 'a list" where
  "share n k l [] = []"
| "share n k l (x # xs) = (if k mod n = l then [x] else []) @ share n (Suc k) l xs"

lemma accept_children_shares:
  assumes "\<forall>l. l < g_loops (sy_group S) \<longrightarrow> running_elsewhere th (sy_loops S l)" "0 < g_loops (sy_group S)"
    and "\<forall>s \<in> set ss. wrapped wrap s = Inr (sock s) \<and> 0 < sock s"
  shows "\<exists>S'. accept_children E wrap th c ss S = (Ret (), S')
    \<and> (\<forall>l. sy_loops S' l = fold (handed_over (wrap \<noteq> None))
         (map sock (share (g_loops (sy_group S)) (g_calls (sy_group S)) l ss)) (sy_loops S l))
    \<and> w_accepted (sy_parent S') = w_accepted (sy_parent S) + int (length ss)
    \<and> w_events (sy_parent S') = w_events (sy_parent S) @ map (\<lambda>s. (c, ChannelReadSocket s)) ss"
  using assms
proof (induction ss arbitrary: S)
  case (Cons s ss)
  define n k where "n = g_loops (sy_group S)" and "k = g_calls (sy_group S)"
  define l where "l = k mod n"
  have l: "l < n" using Cons.prems(2) by (simp add: l_def n_def)
  define S1 where "S1 = \<lparr>sy_parent = fired c (ChannelReadSocket s)
      ((sy_parent S)\<lparr>w_accepted := w_accepted (sy_parent S) + 1\<rparr>),
    sy_group = (sy_group S)\<lparr>g_calls := Suc k\<rparr>,
    sy_loops = (sy_loops S)(l := handed_over (wrap \<noteq> None) (sock s) (sy_loops S l))\<rparr>"
  have "running_elsewhere th (sy_loops S l)" "wrapped wrap s = Inr (sock s)" "0 < sock s"
    using Cons.prems(1,3) l by (simp_all add: n_def)
  note child_channel_hands_over[OF this]
  then have step: "accept_children E wrap th c (s # ss) S = accept_children E wrap th c ss S1"
    by (simp add: get_eventloop_def Let_def S1_def l_def n_def k_def)
  have "\<forall>l. l < g_loops (sy_group S1) \<longrightarrow> running_elsewhere th (sy_loops S1 l)" "0 < g_loops (sy_group S1)"
    "\<forall>s \<in> set ss. wrapped wrap s = Inr (sock s) \<and> 0 < sock s"
    using Cons.prems by (auto simp: S1_def)
  from Cons.IH[OF this] obtain S' where S': "accept_children E wrap th c ss S1 = (Ret (), S')"
      "\<forall>l'. sy_loops S' l' = fold (handed_over (wrap \<noteq> None)) (map sock (share n (Suc k) l' ss)) (sy_loops S1 l')"
      "w_accepted (sy_parent S') = w_accepted (sy_parent S1) + int (length ss)"
      "w_events (sy_parent S') = w_events (sy_parent S1) @ map (\<lambda>s. (c, ChannelReadSocket s)) ss"
    by (auto simp: S1_def n_def)
  show ?case
    unfolding step n_def[symmetric] k_def[symmetric]
    using S' by (intro exI[of _ S']) (auto simp: S1_def l_def fired_def)
qed simp

section \<open>The loop registers what it was handed\<close>

lemma register_eq:
  assumes "quiet E" "accepting E" "in_eventloop th w" "w_started w" "\<not> w_stop_polling w" "\<not> w_closed w"
    and "c_sockfd (w_chans w c) \<ge> 0" "c_sockfd (w_chans w c) \<notin> dict_keys (w_selector w)" "w_selector_open w"
    and "\<not> c_server (w_chans w c)"
  shows "\<exists>f evs k due. register E th c False w = (Ret f,
    (upd_chan c (\<lambda>ch. ch\<lparr>c_flag := 3\<rparr>) w)\<lparr>
      w_selector := dict_set (c_sockfd (w_chans w c)) 3 (w_selector w), w_kcalls := k,
      w_events := w_events w @ (c, ChannelRegistered) # evs, w_registered := w_registered w + 1,
      w_channels := dict_set (c_sockfd (w_chans w c)) c (w_channels w),
      w_due := dict_set (c_sockfd (w_chans w c)) due (w_due w)\<rparr>)"
proof -
  let ?fd = "c_sockfd (w_chans w c)"
  let ?w1 = "upd_chan c (\<lambda>ch. ch\<lparr>c_flag := 3\<rparr>) w"
  let ?w2 = "(tick ?w1)\<lparr>w_selector := dict_set ?fd 3 (w_selector w)\<rparr>"
  have sel: "sel_register E ?fd 3 ?w1 = (Ret (), ?w2)"
    using assms by (simp add: sel_register_def accepting_def)
  obtain evs where f: "fire E th c ChannelRegistered ?w2 =
      (Ret (), ?w2\<lparr>w_events := w_events ?w2 @ (c, ChannelRegistered) # evs\<rparr>)"
    using fire_quiet[OF assms(1)] by blast
  show ?thesis
    using assms(3-7,10) sel f
    by (intro exI[of _ "c_channel_future (w_chans w c)"] exI[of _ evs] exI[of _ "Suc (Suc (w_kcalls w))"]
        exI[of _ "k_now (e_kernel E) (Suc (w_kcalls w)) + c_connect_timeout (w_chans w c)"])
      (auto simp: register_def Let_def in_eventloop_def tick_def)
qed

text \<open>The queue holds the registrations of the channels \<open>c\<close>, \<open>c + 1\<close>, \<dots> on the descriptors \<open>fds\<close>, none of
  which the selector has.\<close>

definition awaiting :: "cid \<Rightarrow> fd list \<Rightarrow> world \<Rightarrow> bool" where
  "awaiting c fds w \<longleftrightarrow> w_taskq w = map (\<lambda>i. TRegister (c + i) False) [0..<length fds]
     \<and> (\<forall>i < length fds. c_sockfd (w_chans w (c + i)) = fds ! i \<and> \<not> c_server (w_chans w (c + i)))
     \<and> distinct fds \<and> (\<forall>fd \<in> set fds. 0 < fd \<and> fd \<notin> dict_keys (w_selector w))"

definition loop_running :: "tid \<Rightarrow> world \<Rightarrow> bool" where
  "loop_running th w \<longleftrightarrow> in_eventloop th w \<and> w_started w \<and> \<not> w_stop_polling w \<and> \<not> w_closed w \<and> w_selector_open w"

text \<open>All of \<open>fds\<close> are registered, and what else was in the loop's tables still is.\<close>

definition all_registered :: "cid \<Rightarrow> fd list \<Rightarrow> world \<Rightarrow> world \<Rightarrow> bool" where
  "all_registered c fds w w' \<longleftrightarrow> w_taskq w' = []
     \<and> (\<forall>i < length fds. dict_get (w_channels w') (fds ! i) = Some (c + i)
          \<and> dict_get (w_selector w') (fds ! i) = Some (EVENT_READ OR EVENT_WRITE)
          \<and> fds ! i \<in> dict_keys (w_due w') \<and> (c + i, ChannelRegistered) \<in> set (w_events w'))
     \<and> (\<forall>fd. fd \<notin> set fds \<longrightarrow> dict_get (w_channels w') fd = dict_get (w_channels w) fd
          \<and> dict_get (w_selector w') fd = dict_get (w_selector w) fd)
     \<and> set (w_events w) \<subseteq> set (w_events w') \<and> dict_keys (w_due w) \<subseteq> dict_keys (w_due w')"

lemma awaiting_Cons:
  assumes "awaiting c (fd # fds) w"
  shows "w_taskq w = TRegister c False # map (\<lambda>i. TRegister (Suc c + i) False) [0..<length fds]"
    "c_sockfd (w_chans w c) = fd" "\<not> c_server (w_chans w c)" "0 < fd" "fd \<notin> dict_keys (w_selector w)"
    "fd \<notin> set fds"
    "\<forall>i < length fds. c_sockfd (w_chans w (Suc c + i)) = fds ! i \<and> \<not> c_server (w_chans w (Suc c + i))"
proof -
  show "w_taskq w = TRegister c False # map (\<lambda>i. TRegister (Suc c + i) False) [0..<length fds]"
    using assms by (simp add: awaiting_def map_upt_Suc del: upt_Suc)
  show "\<forall>i < length fds. c_sockfd (w_chans w (Suc c + i)) = fds ! i \<and> \<not> c_server (w_chans w (Suc c + i))"
    using assms by (auto simp: awaiting_def dest: spec[of _ "Suc _"])
qed (use assms in \<open>auto simp: awaiting_def dest: spec[of _ 0]\<close>)

lemma process_registrations:
  assumes "quiet E" "accepting E" "loop_running th w" "awaiting c fds w"
  shows "\<exists>w'. process_task_queue_loop E th w = Some (Ret (), w') \<and> all_registered c fds w w'"
  using assms(3,4)
proof (induction fds arbitrary: c w)
  case Nil
  then show ?case by (simp add: process_task_queue_loop.simps awaiting_def all_registered_def)
next
  case (Cons fd fds)
  define q where "q = map (\<lambda>i. TRegister (Suc c + i) False) [0..<length fds]"
  note a = awaiting_Cons[OF Cons.prems(2), folded q_def]
  let ?w = "w\<lparr>w_taskq := q\<rparr>"
  have run: "in_eventloop th ?w" "w_started ?w" "\<not> w_stop_polling ?w" "\<not> w_closed ?w" "w_selector_open ?w"
    using Cons.prems(1) by (simp_all add: loop_running_def in_eventloop_def)
  obtain f evs k due where r: "register E th c False ?w = (Ret f,
    (upd_chan c (\<lambda>ch. ch\<lparr>c_flag := 3\<rparr>) ?w)\<lparr>
      w_selector := dict_set fd 3 (w_selector w), w_kcalls := k,
      w_events := w_events w @ (c, ChannelRegistered) # evs, w_registered := w_registered w + 1,
      w_channels := dict_set fd c (w_channels w), w_due := dict_set fd due (w_due w)\<rparr>)" (is "_ = (_, ?r)")
    using register_eq[OF assms(1,2) run(1-4), of c] a run(5) by auto
  define w1 where "w1 = ?r\<lparr>w_tasks_processed := w_tasks_processed ?r + 1\<rparr>"
  have step: "process_task_queue_loop E th w = process_task_queue_loop E th w1"
    by (subst process_task_queue_loop.simps) (simp add: a(1) run_task_logged_def run_task_def r w1_def)
  have "loop_running th w1" using Cons.prems(1) by (simp add: w1_def loop_running_def in_eventloop_def)
  moreover have "awaiting (Suc c) fds w1"
    using Cons.prems(2) a(6,7) by (auto simp: awaiting_def w1_def q_def)
  ultimately obtain w' where w': "process_task_queue_loop E th w1 = Some (Ret (), w')" "all_registered (Suc c) fds w1 w'"
    using Cons.IH by blast
  have "all_registered c (fd # fds) w w'"
    using w'(2) a(6) by (auto simp: all_registered_def w1_def nth_Cons split: nat.split)
  with w'(1) step show ?case by auto
qed

text \<open>A loop that was idle has been handed the sockets \<open>fds\<close>.\<close>

lemma handed_over_awaiting:
  assumes "w_taskq w = map (\<lambda>i. TRegister (c + i) False) [0..<length pre]"
    "\<forall>i < length pre. c_sockfd (w_chans w (c + i)) = pre ! i \<and> \<not> c_server (w_chans w (c + i))"
    "w_next_cid w = c + length pre"
    "distinct (pre @ fds)" "\<forall>fd \<in> set (pre @ fds). 0 < fd \<and> fd \<notin> dict_keys (w_selector w)"
  shows "awaiting c (pre @ fds) (fold (handed_over tls) fds w)"
  using assms
proof (induction fds arbitrary: pre w)
  case Nil
  then show ?case by (simp add: awaiting_def)
next
  case (Cons fd fds)
  have "awaiting c ((pre @ [fd]) @ fds) (fold (handed_over tls) fds (handed_over tls fd w))"
    by (rule Cons.IH)
      (use Cons.prems in \<open>auto simp: handed_over_def new_future_def Let_def nth_append child_of_def base_channel_def less_Suc_eq\<close>)
  then show ?case by simp
qed

lemma handed_over_frame:
  "in_eventloop th (handed_over tls fd w) = in_eventloop th w" "loop_running th (handed_over tls fd w) = loop_running th w"
  "w_channels (handed_over tls fd w) = w_channels w" "w_selector (handed_over tls fd w) = w_selector w"
  "w_events (handed_over tls fd w) = w_events w"
  by (simp_all add: handed_over_def new_future_def Let_def in_eventloop_def loop_running_def)

lemma handed_overs_frame:
  "loop_running th (fold (handed_over tls) fds w) = loop_running th w"
  "w_channels (fold (handed_over tls) fds w) = w_channels w" "w_selector (fold (handed_over tls) fds w) = w_selector w"
  "w_events (fold (handed_over tls) fds w) = w_events w"
  by (induction fds arbitrary: w) (simp_all add: handed_over_frame)

lemma share_subset: "set (share n k l xs) \<subseteq> set xs"
  by (induction xs arbitrary: k) auto

lemma distinct_share: "distinct xs \<Longrightarrow> distinct (share n k l xs)"
  by (induction xs arbitrary: k) (use share_subset in \<open>fastforce+\<close>)

lemma share_total: "0 < n \<Longrightarrow> (\<Sum>l<n. length (share n k l xs)) = length xs"
proof (induction xs arbitrary: k)
  case (Cons x xs)
  have "length (share n k l (x # xs)) = of_bool (k mod n = l) + length (share n (Suc k) l xs)" for l
    by simp
  then have "(\<Sum>l<n. length (share n k l (x # xs))) = (\<Sum>l<n. of_bool (k mod n = l)) + length xs"
    using Cons by (simp only: sum.distrib)
  also have "(\<Sum>l<n. of_bool (k mod n = l)) = (1 :: nat)"
    using Cons.prems by (simp add: of_bool_def sum.delta')
  finally show ?case by simp
qed simp


section \<open>From the backlog to the loops\<close>

lemma awaiting_to_registered:
  assumes "quiet E" "accepting E" "loop_running th w" "w_taskq w = []"
    and "distinct fds" "\<forall>fd \<in> set fds. 0 < fd \<and> fd \<notin> dict_keys (w_selector w)"
  shows "\<exists>w'. process_task_queue E th (fold (handed_over tls) fds w) = (Ret (), w')
    \<and> all_registered (w_next_cid w) fds w w'"
proof -
  let ?w = "fold (handed_over tls) fds w"
  have "awaiting (w_next_cid w) ([] @ fds) ?w" using assms(4-6) by (intro handed_over_awaiting) simp_all
  moreover have "loop_running th ?w" using assms(3) by (simp add: handed_overs_frame)
  ultimately obtain w' where "process_task_queue_loop E th ?w = Some (Ret (), w')"
      "all_registered (w_next_cid w) fds ?w w'"
    using process_registrations[OF assms(1,2), of th ?w "w_next_cid w" fds] by auto
  moreover have "dict_keys (w_due ?w) = dict_keys (w_due w)"
    by (induction fds arbitrary: w) (simp_all add: handed_over_def new_future_def Let_def)
  ultimately show ?thesis
    by (simp add: process_task_queue_def all_registered_def handed_overs_frame)
qed

lemma accepted_are_registered:
  fixes S :: system
  defines "n \<equiv> g_loops (sy_group S)" and "k \<equiv> g_calls (sy_group S)"
  assumes "quiet E" "accepting E" "0 < n"
    and "\<forall>l<n. loop_running (t l) (sy_loops S l) \<and> t l \<noteq> th \<and> w_taskq (sy_loops S l) = []"
    and "\<forall>s \<in> set ss. wrapped wrap s = Inr (sock s) \<and> 0 < sock s" "distinct (map sock ss)"
    and "\<forall>s \<in> set ss. \<forall>l<n. sock s \<notin> dict_keys (w_selector (sy_loops S l))"
  shows "\<exists>S'. accept_children E wrap th c ss S = (Ret (), S')
    \<and> w_accepted (sy_parent S') = w_accepted (sy_parent S) + int (length ss)
    \<and> (\<forall>l<n. \<exists>w'. process_task_queue E (t l) (sy_loops S' l) = (Ret (), w')
         \<and> all_registered (w_next_cid (sy_loops S l)) (map sock (share n k l ss)) (sy_loops S l) w')"
proof -
  have "\<forall>l. l < n \<longrightarrow> running_elsewhere th (sy_loops S l)"
    using assms(6) by (auto simp: loop_running_def running_elsewhere_def in_eventloop_def)
  from accept_children_shares[OF this[unfolded n_def] assms(5)[unfolded n_def] assms(7)] obtain S' where
    S': "accept_children E wrap th c ss S = (Ret (), S')"
      "\<forall>l. sy_loops S' l = fold (handed_over (wrap \<noteq> None)) (map sock (share n k l ss)) (sy_loops S l)"
      "w_accepted (sy_parent S') = w_accepted (sy_parent S) + int (length ss)"
    unfolding n_def k_def by blast
  have "\<exists>w'. process_task_queue E (t l) (sy_loops S' l) = (Ret (), w')
      \<and> all_registered (w_next_cid (sy_loops S l)) (map sock (share n k l ss)) (sy_loops S l) w'" if "l < n" for l
  proof -
    have inj: "inj_on sock (set ss)" "distinct ss" using assms(8) by (simp_all add: distinct_map)
    have "distinct (map sock (share n k l ss))"
      using distinct_share[OF inj(2)] inj_on_subset[OF inj(1) share_subset] by (simp add: distinct_map)
    moreover have "\<forall>fd \<in> set (map sock (share n k l ss)). 0 < fd \<and> fd \<notin> dict_keys (w_selector (sy_loops S l))"
      using assms(7,9) share_subset[of n k l ss] that by auto
    ultimately show ?thesis
      using awaiting_to_registered[OF assms(3,4), of "t l" "sy_loops S l"] assms(6) that S'(2) by simp
  qed
  with S'(1,3) show ?thesis by blast
qed

end
