(* ===== verification/Tls.thy ===== *)
theory Tls
  imports Bootstrap
begin

text \<open>
  The TLS side of \<^verbatim>\<open>py_netty/bootstrap.py\<close>: the two cached factories of SSL contexts, the callback that
  configures a context, wrapping a socket, and what is resolved for an address.  A context is an object of
  the module \<open>ssl\<close> with settings of a type \<open>'s\<close>; the objects live in a store, since they are shared.
\<close>

section \<open>The module ssl\<close>

record 's ssl_lib =
  sl_default :: "exn + 's"                          \<comment> \<open>\<open>create_default_context\<close>\<close>
  sl_unverified :: "exn + 's"                       \<comment> \<open>\<open>_create_unverified_context\<close>\<close>
  sl_minimum_version :: "string \<Rightarrow> 's \<Rightarrow> 's"
  sl_set_ciphers :: "string \<Rightarrow> 's \<Rightarrow> exn + 's"
  sl_server :: "exn + 's"                           \<comment> \<open>\<open>SSLContext(PROTOCOL_TLS_SERVER)\<close>\<close>
  sl_load_cert_chain :: "string \<Rightarrow> string \<Rightarrow> 's \<Rightarrow> exn + 's"
  sl_wrap :: "'s \<Rightarrow> fd \<Rightarrow> string \<Rightarrow> exn + fd"

record 's contexts =
  cx_store :: "nat \<Rightarrow> 's"
  cx_next :: nat
  cx_client :: "(bool \<times> nat) list"                  \<comment> \<open>the cache of \<open>_client_ssl_context\<close>, most recent first\<close>
  cx_server :: "((string \<times> string) \<times> nat) list"

definition no_contexts :: "'s contexts" where
  "no_contexts = \<lparr>cx_store = (\<lambda>_. undefined), cx_next = 0, cx_client = [], cx_server = []\<rparr>"

section \<open>Cached factories\<close>

text \<open>\<open>lru_cache(maxsize=8)\<close>: a hit becomes the most recent entry, a miss drops the oldest one of a full
  cache; a factory that raises leaves the cache alone.\<close>

definition lru_hit :: "'k \<Rightarrow> ('k \<times> 'v) list \<Rightarrow> 'v \<Rightarrow> ('k \<times> 'v) list" where
  "lru_hit k cache v = (k, v) # filter (\<lambda>p. fst p \<noteq> k) cache"

definition lru_miss :: "'k \<Rightarrow> ('k \<times> 'v) list \<Rightarrow> 'v \<Rightarrow> ('k \<times> 'v) list" where
  "lru_miss k cache v = take 8 ((k, v) # cache)"

definition lru_call ::
    "'k \<Rightarrow> (exn + 's) \<Rightarrow> ('k \<times> nat) list \<Rightarrow> 's contexts \<Rightarrow> (exn + nat) \<times> ('k \<times> nat) list \<times> 's contexts" where
  "lru_call k made cache X =
     (case map_of cache k of
        Some c \<Rightarrow> (Inr c, lru_hit k cache c, X)
      | None \<Rightarrow>
          (case made of
             Inl e \<Rightarrow> (Inl e, cache, X)
           | Inr s \<Rightarrow> (Inr (cx_next X), lru_miss k cache (cx_next X),
               X\<lparr>cx_store := (cx_store X)(cx_next X := s), cx_next := Suc (cx_next X)\<rparr>)))"

definition make_client_context :: "'s ssl_lib \<Rightarrow> bool \<Rightarrow> exn + 's" where
  "make_client_context L verify =
     (if verify then sl_default L
      else case sl_unverified L of
          Inl e \<Rightarrow> Inl e
        | Inr s \<Rightarrow> sl_set_ciphers L ''ALL'' (sl_minimum_version L ''TLSv1_2'' s))"

definition client_ssl_context :: "'s ssl_lib \<Rightarrow> bool \<Rightarrow> 's contexts \<Rightarrow> (exn + nat) \<times> 's contexts" where
  "client_ssl_context L verify X =
     (case lru_call verify (make_client_context L verify) (cx_client X) X of
        (r, cache, X) \<Rightarrow> (r, X\<lparr>cx_client := cache\<rparr>))"

definition make_server_context :: "'s ssl_lib \<Rightarrow> string \<Rightarrow> string \<Rightarrow> exn + 's" where
  "make_server_context L certfile keyfile =
     (case sl_server L of Inl e \<Rightarrow> Inl e | Inr s \<Rightarrow> sl_load_cert_chain L certfile keyfile s)"

definition server_ssl_context ::
    "'s ssl_lib \<Rightarrow> string \<Rightarrow> string \<Rightarrow> 's contexts \<Rightarrow> (exn + nat) \<times> 's contexts" where
  "server_ssl_context L certfile keyfile X =
     (case lru_call (certfile, keyfile) (make_server_context L certfile keyfile) (cx_server X) X of
        (r, cache, X) \<Rightarrow> (r, X\<lparr>cx_server := cache\<rparr>))"

text \<open>A callback changes the context object in place; what it raises is logged, and what it did before
  stays done.\<close>

definition apply_context_cb :: "('s \<Rightarrow> exn option \<times> 's) option \<Rightarrow> nat \<Rightarrow> 's contexts \<Rightarrow> 's contexts" where
  "apply_context_cb cb c X =
     (case cb of
        None \<Rightarrow> X
      | Some f \<Rightarrow> X\<lparr>cx_store := (cx_store X)(c := snd (f (cx_store X c)))\<rparr>)"

definition create_ssl_context ::
    "'s ssl_lib \<Rightarrow> bool \<Rightarrow> ('s \<Rightarrow> exn option \<times> 's) option \<Rightarrow> 's contexts \<Rightarrow> (exn + nat) \<times> 's contexts" where
  "create_ssl_context L verify cb X =
     (case client_ssl_context L verify X of
        (Inl e, X) \<Rightarrow> (Inl e, X)
      | (Inr c, X) \<Rightarrow> (Inr c, apply_context_cb cb c X))"

definition wrap_ssl_socket ::
    "'s ssl_lib \<Rightarrow> bool \<Rightarrow> ('s \<Rightarrow> exn option \<times> 's) option \<Rightarrow> fd \<Rightarrow> string \<Rightarrow> string option \<Rightarrow> 's contexts
      \<Rightarrow> (exn + fd) \<times> 's contexts" where
  "wrap_ssl_socket L verify cb sock host sni X =
     (case create_ssl_context L verify cb X of
        (Inl e, X) \<Rightarrow> (Inl e, X)
      | (Inr c, X) \<Rightarrow>
          (sl_wrap L (cx_store X c) sock (case sni of Some s \<Rightarrow> (if s \<noteq> [] then s else host) | None \<Rightarrow> host), X))"

text \<open>The context of a server, if it has a certificate (\<open>bind\<close> has checked that it has both files or none;
  an empty name is false).\<close>

definition server_context ::
    "'s ssl_lib \<Rightarrow> string option \<Rightarrow> string option \<Rightarrow> ('s \<Rightarrow> exn option \<times> 's) option \<Rightarrow> 's contexts
      \<Rightarrow> (exn + nat option) \<times> 's contexts" where
  "server_context L certfile keyfile cb X =
     (case (certfile, keyfile) of
        (Some cf, Some kf) \<Rightarrow>
          if cf \<noteq> [] \<and> kf \<noteq> []
          then (case server_ssl_context L cf kf X of
                  (Inl e, X) \<Rightarrow> (Inl e, X)
                | (Inr c, X) \<Rightarrow> (Inr (Some c), apply_context_cb cb c X))
          else (Inr None, X)
      | _ \<Rightarrow> (Inr None, X))"

section \<open>What is resolved\<close>

text \<open>Through a SOCKS proxy a name is left to the proxy; only an IPv6 address is resolved here.  \<open>getaddrinfo\<close>
  and \<open>inet_pton\<close> are parameters.\<close>

definition resolved_addresses ::
    "(string \<Rightarrow> bool) \<Rightarrow> (string \<Rightarrow> int \<Rightarrow> exn + (string \<times> string \<times> int) list) \<Rightarrow> bool \<Rightarrow> string \<Rightarrow> int
      \<Rightarrow> exn + (string \<times> string \<times> int) list" where
  "resolved_addresses is_ipv6 getaddrinfo use_socksocket address port =
     (if use_socksocket \<and> \<not> is_ipv6 address then Inr [(''AF_INET'', address, port)]
      else getaddrinfo address port)"

text \<open>\<open>_is_ipv6_address\<close>: \<open>inet_pton\<close> raises an \<open>OSError\<close> for what is no such address, a \<open>TypeError\<close> for what is no
  text; a zero byte in the text is a \<open>ValueError\<close>, which is not caught.\<close>

definition is_ipv6_address :: "(string \<Rightarrow> exn + bytes) \<Rightarrow> string \<Rightarrow> exn + bool" where
  "is_ipv6_address inet_pton address =
     (case inet_pton address of
        Inr _ \<Rightarrow> Inr True
      | Inl (OSError _) \<Rightarrow> Inr False
      | Inl TypeError \<Rightarrow> Inr False
      | Inl e \<Rightarrow> Inl e)"

text \<open>\<open>_resolve_tcp_address\<close>, the address a server binds to.\<close>

definition resolve_tcp_address :: "(string \<Rightarrow> int \<Rightarrow> 'f \<Rightarrow> exn + 'a list) \<Rightarrow> string \<Rightarrow> int \<Rightarrow> 'f \<Rightarrow> exn + 'a" where
  "resolve_tcp_address getaddrinfo address port flags =
     (case getaddrinfo address port flags of
        Inl e \<Rightarrow> Inl e
      | Inr [] \<Rightarrow> Inl IndexError
      | Inr (a # _) \<Rightarrow> Inr a)"

section \<open>Lemmas\<close>

text \<open>The caches hold contexts that exist, each of one cache and key only.\<close>

definition contexts_ok :: "'s contexts \<Rightarrow> bool" where
  "contexts_ok X \<longleftrightarrow> distinct (map snd (cx_client X) @ map snd (cx_server X))
     \<and> distinct (map fst (cx_client X)) \<and> distinct (map fst (cx_server X))
     \<and> (\<forall>c \<in> set (map snd (cx_client X) @ map snd (cx_server X)). c < cx_next X)
     \<and> length (cx_server X) \<le> 8"

lemma lru_hit_facts:
  assumes "map_of cache k = Some v" "distinct (map fst cache)" "distinct (map snd cache)"
  shows "set (lru_hit k cache v) = set cache" "distinct (map fst (lru_hit k cache v))"
    "distinct (map snd (lru_hit k cache v))" "length (lru_hit k cache v) = length cache"
    "map_of (lru_hit k cache v) = map_of cache"
proof -
  have kv: "(k, v) \<in> set cache" using assms(1) by (rule map_of_SomeD)
  show s: "set (lru_hit k cache v) = set cache"
    using kv assms(2) by (auto simp: lru_hit_def dest: eq_key_imp_eq_value)
  show df: "distinct (map fst (lru_hit k cache v))"
    using assms(2) by (auto simp: lru_hit_def distinct_map inj_on_def)
  then show l: "length (lru_hit k cache v) = length cache"
    using s assms(2) by (metis distinct_card length_map list.set_map)
  show "distinct (map snd (lru_hit k cache v))"
    using s l assms(3) by (metis card_distinct distinct_card length_map list.set_map)
  show "map_of (lru_hit k cache v) = map_of cache"
    using s df assms(2) by (simp add: map_of_inject_set)
qed

lemma lru_miss_facts:
  assumes "map_of cache k = None" "distinct (map fst cache)" "distinct (map snd cache)" "v \<notin> set (map snd cache)"
  shows "distinct (map fst (lru_miss k cache v))" "distinct (map snd (lru_miss k cache v))"
    "length (lru_miss k cache v) \<le> 8" "set (lru_miss k cache v) \<subseteq> insert (k, v) (set cache)"
    "length cache < 8 \<Longrightarrow> lru_miss k cache v = (k, v) # cache"
proof -
  have "distinct (map fst ((k, v) # cache))" "distinct (map snd ((k, v) # cache))"
    using assms by (auto simp: map_of_eq_None_iff)
  then show "distinct (map fst (lru_miss k cache v))" "distinct (map snd (lru_miss k cache v))"
    by (simp_all only: lru_miss_def take_map[symmetric] distinct_take)
  show "set (lru_miss k cache v) \<subseteq> insert (k, v) (set cache)"
    unfolding lru_miss_def by (rule order_trans[OF set_take_subset]) simp
qed (simp_all add: lru_miss_def)

text \<open>The client cache, whose keys are the two values of \<open>verify\<close>, never drops a context.\<close>

lemma bool_keys: "distinct (map fst (cache :: (bool \<times> nat) list)) \<Longrightarrow> length cache \<le> 2"
  using card_mono[of "UNIV :: bool set" "set (map fst cache)"] distinct_card[of "map fst cache"] by simp

lemma client_ssl_context_ok:
  assumes "contexts_ok X" "client_ssl_context L v X = (Inr c, X')"
  shows "contexts_ok X'" "map_of (cx_client X') v = Some c"
    "\<And>v' c'. map_of (cx_client X) v' = Some c' \<Longrightarrow> map_of (cx_client X') v' = Some c'"
    "\<And>c'. c' < cx_next X \<Longrightarrow> cx_store X' c' = cx_store X c'" "cx_next X \<le> cx_next X'"
proof -
  note ok = assms(1)[unfolded contexts_ok_def]
  have all: "contexts_ok X' \<and> map_of (cx_client X') v = Some c
    \<and> (\<forall>v' c'. map_of (cx_client X) v' = Some c' \<longrightarrow> map_of (cx_client X') v' = Some c')
    \<and> (\<forall>c'. c' < cx_next X \<longrightarrow> cx_store X' c' = cx_store X c') \<and> cx_next X \<le> cx_next X'"
  proof (cases "map_of (cx_client X) v")
    case (Some d)
    have "distinct (map fst (cx_client X))" "distinct (map snd (cx_client X))" using ok by simp_all
    note f = lru_hit_facts[OF Some this] ok
    have X': "X' = X\<lparr>cx_client := lru_hit v (cx_client X) d\<rparr>" "c = d"
      using assms(2) Some by (auto simp: client_ssl_context_def lru_call_def)
    have "set (map snd (lru_hit v (cx_client X) d)) = set (map snd (cx_client X))" using f by (simp only: set_map)
    with f X' Some show ?thesis by (simp add: contexts_ok_def)
  next
    case None
    then obtain s where m: "make_client_context L v = Inr s"
      using assms(2) by (auto simp: client_ssl_context_def lru_call_def split: sum.splits)
    have new: "cx_next X \<notin> set (map snd (cx_client X))" using ok by auto
    have short: "length (cx_client X) < 8" using bool_keys[of "cx_client X"] ok by simp
    have X': "X' = X\<lparr>cx_client := (v, cx_next X) # cx_client X,
        cx_store := (cx_store X)(cx_next X := s), cx_next := Suc (cx_next X)\<rparr>" "c = cx_next X"
      using assms(2) None m short by (auto simp: client_ssl_context_def lru_call_def lru_miss_def)
    show ?thesis using ok None new unfolding X'
      by (auto simp: contexts_ok_def map_of_eq_None_iff less_Suc_eq; force)
  qed
  then show "contexts_ok X'" "map_of (cx_client X') v = Some c"
    "\<And>v' c'. map_of (cx_client X) v' = Some c' \<Longrightarrow> map_of (cx_client X') v' = Some c'"
    "\<And>c'. c' < cx_next X \<Longrightarrow> cx_store X' c' = cx_store X c'" "cx_next X \<le> cx_next X'" by blast+
qed

lemma apply_context_cb_fields [simp]:
  "cx_client (apply_context_cb cb c X) = cx_client X" "cx_server (apply_context_cb cb c X) = cx_server X"
  "cx_next (apply_context_cb cb c X) = cx_next X" "contexts_ok (apply_context_cb cb c X) = contexts_ok X"
  "c' \<noteq> c \<Longrightarrow> cx_store (apply_context_cb cb c X) c' = cx_store X c'"
  by (auto simp: apply_context_cb_def contexts_ok_def split: option.split)

definition cb_effect :: "('s \<Rightarrow> exn option \<times> 's) option \<Rightarrow> 's \<Rightarrow> 's" where
  "cb_effect cb s = (case cb of None \<Rightarrow> s | Some f \<Rightarrow> snd (f s))"

lemma apply_context_cb_store [simp]: "cx_store (apply_context_cb cb c X) c = cb_effect cb (cx_store X c)"
  by (simp add: apply_context_cb_def cb_effect_def split: option.split)

text \<open>Two clients with the same \<open>verify\<close> have the same context, and what the callback of one did to it is
  there for the other; with different \<open>verify\<close> they do not interfere.\<close>

lemma client_contexts_shared:
  assumes "contexts_ok X" "create_ssl_context L v cb X = (Inr c, X1)" "create_ssl_context L v' cb' X1 = (Inr c', X2)"
  shows "(c' = c \<longleftrightarrow> v' = v) \<and> cx_store X2 c = (if v' = v then cb_effect cb' (cx_store X1 c) else cx_store X1 c)"
proof -
  obtain Y1 where 1: "client_ssl_context L v X = (Inr c, Y1)" "X1 = apply_context_cb cb c Y1"
    using assms(2) by (auto simp: create_ssl_context_def split: prod.splits sum.splits)
  obtain Y2 where 2: "client_ssl_context L v' X1 = (Inr c', Y2)" "X2 = apply_context_cb cb' c' Y2"
    using assms(3) by (auto simp: create_ssl_context_def split: prod.splits sum.splits)
  note o1 = client_ssl_context_ok[OF assms(1) 1(1)]
  have ok1: "contexts_ok X1" "map_of (cx_client X1) v = Some c" using o1 by (simp_all add: 1(2))
  note o2 = client_ssl_context_ok[OF ok1(1) 2(1)]
  have m: "map_of (cx_client Y2) v = Some c" "map_of (cx_client Y2) v' = Some c'" using o2(2,3) ok1(2) by blast+
  have "(v, c) \<in> set (cx_client X1)" using ok1(2) by (rule map_of_SomeD)
  then have lt: "c < cx_next X1" using ok1(1) by (force simp: contexts_ok_def)
  have "c' = c \<Longrightarrow> v' = v"
  proof -
    assume "c' = c"
    with m have "(v, c) \<in> set (cx_client Y2)" "(v', c) \<in> set (cx_client Y2)" by (auto dest: map_of_SomeD)
    moreover have "inj_on snd (set (cx_client Y2))" using o2(1) by (simp add: contexts_ok_def distinct_map)
    ultimately show "v' = v" using inj_onD[of snd _ "(v', c)" "(v, c)"] by simp
  qed
  with m have eq: "c' = c \<longleftrightarrow> v' = v" by auto
  with o2(4)[OF lt] show ?thesis by (auto simp: 2(2))
qed

text \<open>A cached certificate gives the same context again.\<close>

lemma server_context_cached:
  assumes "server_ssl_context L certfile keyfile X = (Inr c, X')"
  shows "fst (server_ssl_context L certfile keyfile X') = Inr c"
  using assms by (auto simp: server_ssl_context_def lru_call_def lru_hit_def lru_miss_def take_Cons'
    split: option.splits sum.splits)

end
