(* ===== verification/Frames.thy ===== *)
theory Frames
  imports Prelude
begin

text \<open>
  \<^verbatim>\<open>integration_tests/perf_echo.py\<close>, the echo clients that run on the library: the frame format
  (\<open>_make_frame\<close>, \<open>_validate_frame\<close>), the run's counters (\<open>_RunState\<close>) and the client that cuts the
  byte stream into frames again (\<open>_ClientState\<close>).
\<close>

section \<open>Frames\<close>

text \<open>\<open>struct.Struct("!II")\<close>: two unsigned 32-bit integers, most significant byte first.\<close>

definition be32 :: "nat \<Rightarrow> bytes" where
  "be32 n = [of_nat (n div 2 ^ 24), of_nat (n div 2 ^ 16), of_nat (n div 2 ^ 8), of_nat n]"

definition unbe32 :: "bytes \<Rightarrow> nat" where
  "unbe32 bs = foldl (\<lambda>n b. 256 * n + unat b) 0 bs"

definition header_size :: nat where "header_size = 8"

definition header_pack :: "nat \<Rightarrow> nat \<Rightarrow> exn + bytes" where
  "header_pack a b = (if a < 2 ^ 32 \<and> b < 2 ^ 32 then Inr (be32 a @ be32 b) else Inl StructError)"

definition header_unpack :: "bytes \<Rightarrow> exn + (nat \<times> nat)" where
  "header_unpack bs = (if length bs = header_size then Inr (unbe32 (take 4 bs), unbe32 (drop 4 bs)) else Inl StructError)"

definition make_frame :: "nat \<Rightarrow> nat \<Rightarrow> nat \<Rightarrow> exn + bytes" where
  "make_frame connection_id sequence payload_size =
     (if payload_size < header_size then Inl ValueError
      else
        let filler = replicate (payload_size - header_size) (of_nat ((connection_id + sequence) mod 251)) in
        (case header_pack connection_id sequence of
           Inl e \<Rightarrow> Inl e
         | Inr h \<Rightarrow> Inr (h @ filler)))"

text \<open>The error messages of a run, by what they say: the three of \<open>_validate_frame\<close>, an exception on a
  connection, one while connecting, and one while closing.\<close>

datatype frame_error = WrongId nat nat | WrongSequence nat nat nat | WrongPayload nat nat
  | OnConnection nat exn | ConnectFailed nat exn | CloseFailed exn

definition validate_frame :: "bytes \<Rightarrow> nat \<Rightarrow> nat \<Rightarrow> exn + frame_error option" where
  "validate_frame frame connection_id expected_sequence =
     (case header_unpack (take header_size frame) of
        Inl e \<Rightarrow> Inl e
      | Inr (received_connection_id, sequence) \<Rightarrow>
          if received_connection_id \<noteq> connection_id
          then Inr (Some (WrongId connection_id received_connection_id))
          else if sequence \<noteq> expected_sequence
          then Inr (Some (WrongSequence connection_id expected_sequence sequence))
          else
            let expected_fill = of_nat ((connection_id + sequence) mod 251); payload = drop header_size frame in
            if payload \<noteq> [] \<and> payload \<noteq> replicate (length payload) expected_fill
            then Inr (Some (WrongPayload connection_id sequence))
            else Inr None)"

lemma unat_of_byte: "unat (of_nat n :: byte) = n mod 256"
  by (simp add: unat_of_nat)

lemma byte_lt: "unat (x :: byte) < 256"
  using unsigned_less[of x] by simp

lemma of_nat_byte: "of_nat (256 * m + unat x) = (x :: byte)"
proof -
  have "unat (of_nat (256 * m + unat x) :: byte) = unat x"
    using byte_lt[of x] by (simp only: unat_of_byte) (simp add: mod_add_eq[symmetric])
  then show ?thesis by (rule iffD2[OF word_unat_eq_iff])
qed

lemma unbe32_be32:
  assumes "n < 2 ^ 32"
  shows "unbe32 (be32 n) = n"
proof -
  let ?a = "n div 256 div 256 div 256" and ?b = "n div 256 div 256" and ?c = "n div 256"
  have d: "n div 2 ^ 24 = ?a" "n div 2 ^ 16 = ?b" "n div 2 ^ 8 = ?c"
    by (simp_all add: div_mult2_eq[symmetric])
  have "?a < 256" using assms by (simp add: div_mult2_eq[symmetric] less_mult_imp_div_less)
  then have "unbe32 (be32 n) = 256 * (256 * (256 * ?a + ?b mod 256) + ?c mod 256) + n mod 256"
    unfolding unbe32_def be32_def d by (simp add: unat_of_byte)
  also have "\<dots> = n" by (simp only: mult_div_mod_eq)
  finally show ?thesis .
qed

lemma be32_unbe32:
  assumes "length bs = 4"
  shows "be32 (unbe32 bs) = bs \<and> unbe32 bs < 2 ^ 32"
proof -
  obtain a b c d where bs: "bs = [a, b, c, d]"
    using assms by (auto simp: numeral_eq_Suc length_Suc_conv)
  let ?l = "256 * (256 * (256 * unat a + unat b) + unat c)"
  have n: "unbe32 bs = ?l + unat d" by (simp add: bs unbe32_def)
  have q: "(256 * m + unat x) div 256 = m" for m and x :: byte
    using byte_lt[of x] by simp
  have "be32 (?l + unat d) = [a, b, c, d]"
  proof -
    have "(?l + unat d) div 2 ^ 8 = (?l + unat d) div 256" by simp
    moreover have "(?l + unat d) div 2 ^ 16 = (?l + unat d) div 256 div 256"
      by (simp only: div_mult2_eq[symmetric]) simp
    moreover have "(?l + unat d) div 2 ^ 24 = (?l + unat d) div 256 div 256 div 256"
      by (simp only: div_mult2_eq[symmetric]) simp
    ultimately show ?thesis
      unfolding be32_def by (simp only: q of_nat_byte) simp
  qed
  moreover have "?l + unat d < 2 ^ 32"
    using byte_lt[of a] byte_lt[of b] byte_lt[of c] byte_lt[of d] by simp
  ultimately show ?thesis unfolding n unfolding bs by blast
qed

lemma length_be32 [simp]: "length (be32 n) = 4"
  by (simp add: be32_def)

lemma make_frame_ok:
  "make_frame a b n = Inr f \<longleftrightarrow> header_size \<le> n \<and> a < 2 ^ 32 \<and> b < 2 ^ 32
     \<and> f = be32 a @ be32 b @ replicate (n - header_size) (of_nat ((a + b) mod 251))"
  by (auto simp: make_frame_def header_pack_def Let_def)

lemma make_frame_length: "make_frame a b n = Inr f \<Longrightarrow> length f = n"
  by (auto simp: make_frame_ok header_size_def)

lemma validate_frame_short: "length frame < header_size \<Longrightarrow> validate_frame frame a b = Inl StructError"
  by (simp add: validate_frame_def header_unpack_def)

text \<open>Exactly the frame that was made passes the check.\<close>

lemma validate_frame_ok:
  "validate_frame f a b = Inr None \<longleftrightarrow> make_frame a b (length f) = Inr f"
proof
  assume v: "validate_frame f a b = Inr None"
  then have l: "header_size \<le> length f" using validate_frame_short[of f a b] by (cases "header_size \<le> length f") auto
  define x y p where "x = take 4 f" and "y = take 4 (drop 4 f)" and "p = drop header_size f"
  have f: "f = x @ y @ p"
    unfolding x_def y_def p_def header_size_def by (metis append_take_drop_id drop_drop numeral_Bit0)
  have lxy: "length x = 4" "length y = 4" using l by (simp_all add: x_def y_def header_size_def)
  have h: "take header_size f = x @ y" "drop header_size f = p"
    using lxy by (simp_all add: f header_size_def)
  have "a = unbe32 x" "b = unbe32 y" "p = replicate (length p) (of_nat ((a + b) mod 251))"
    using v lxy unfolding validate_frame_def h
    by (auto simp: header_unpack_def header_size_def Let_def split: if_splits)
  then show "make_frame a b (length f) = Inr f"
    using be32_unbe32[OF lxy(1)] be32_unbe32[OF lxy(2)] lxy
    by (simp add: make_frame_ok f header_size_def)
next
  assume m: "make_frame a b (length f) = Inr f"
  then obtain p where f: "f = be32 a @ be32 b @ p" "p = replicate (length p) (of_nat ((a + b) mod 251))"
    and ab: "a < 2 ^ 32" "b < 2 ^ 32"
    by (auto simp: make_frame_ok header_size_def)
  have h: "take header_size f = be32 a @ be32 b" "drop header_size f = p"
    by (simp_all add: f(1) header_size_def)
  show "validate_frame f a b = Inr None"
    unfolding validate_frame_def h using f(2) ab
    by (simp add: header_unpack_def header_size_def unbe32_be32 Let_def)
qed

section \<open>The run's counters\<close>

text \<open>The three calls that change a \<open>_RunState\<close>, each under its lock; \<open>rs_log\<close> is their history.\<close>

datatype run_event = Message nat "int option" | Error frame_error | Complete

record run_state =
  rs_done :: bool
  rs_total :: nat
  rs_completed :: nat
  rs_errors :: "frame_error list"
  rs_received_messages :: nat
  rs_received_bytes :: nat
  rs_latencies :: "int list"
  rs_log :: "run_event list"

definition new_run :: "nat \<Rightarrow> run_state" where
  "new_run n = \<lparr>rs_done = False, rs_total = n, rs_completed = 0, rs_errors = [],
     rs_received_messages = 0, rs_received_bytes = 0, rs_latencies = [], rs_log = []\<rparr>"

definition record_message :: "nat \<Rightarrow> int option \<Rightarrow> run_state \<Rightarrow> run_state" where
  "record_message sz latency r =
     r\<lparr>rs_received_messages := Suc (rs_received_messages r), rs_received_bytes := rs_received_bytes r + sz,
       rs_latencies := (case latency of None \<Rightarrow> rs_latencies r | Some l \<Rightarrow> rs_latencies r @ [l]),
       rs_log := rs_log r @ [Message sz latency]\<rparr>"

definition record_error :: "frame_error \<Rightarrow> run_state \<Rightarrow> run_state" where
  "record_error err r = r\<lparr>rs_errors := rs_errors r @ [err], rs_done := True, rs_log := rs_log r @ [Error err]\<rparr>"

definition mark_connection_complete :: "run_state \<Rightarrow> run_state" where
  "mark_connection_complete r =
     (let r' = r\<lparr>rs_completed := Suc (rs_completed r), rs_log := rs_log r @ [Complete]\<rparr> in
      if rs_completed r' = rs_total r' then r'\<lparr>rs_done := True\<rparr> else r')"

fun apply_event :: "run_event \<Rightarrow> run_state \<Rightarrow> run_state" where
  "apply_event (Message sz latency) = record_message sz latency"
| "apply_event (Error err) = record_error err"
| "apply_event Complete = mark_connection_complete"

section \<open>The client of one connection\<close>

text \<open>\<open>cl_written\<close> are the arguments of the calls of \<open>channel.write\<close>, in order; the clock
  (\<open>time.perf_counter\<close>) is indexed by the number of its readings, \<open>cl_ticks\<close>.\<close>

record client_state =
  cl_run :: run_state
  cl_connection_id :: nat
  cl_messages :: nat
  cl_payload_size :: nat
  cl_sequential :: bool
  cl_channel :: bool                     \<comment> \<open>\<open>self.channel is not None\<close>\<close>
  cl_buffer :: bytes
  cl_sent_messages :: nat
  cl_received_messages :: nat
  cl_sent_at :: "nat \<Rightarrow> int option"
  cl_completed :: bool
  cl_written :: "bytes list"
  cl_ticks :: nat

definition new_client :: "run_state \<Rightarrow> nat \<Rightarrow> nat \<Rightarrow> nat \<Rightarrow> bool \<Rightarrow> client_state" where
  "new_client r connection_id messages payload_size sequential =
     \<lparr>cl_run = r, cl_connection_id = connection_id, cl_messages = messages, cl_payload_size = payload_size,
       cl_sequential = sequential, cl_channel = False, cl_buffer = [], cl_sent_messages = 0,
       cl_received_messages = 0, cl_sent_at = (\<lambda>_. None), cl_completed = False, cl_written = [], cl_ticks = 0\<rparr>"

definition send_next :: "(nat \<Rightarrow> int) \<Rightarrow> client_state \<Rightarrow> unit outcome \<times> client_state" where
  "send_next clock c =
     (if \<not> cl_channel c \<or> cl_messages c \<le> cl_sent_messages c then (Ret (), c)
      else
        let sequence = cl_sent_messages c;
            c = c\<lparr>cl_sent_at := (cl_sent_at c)(sequence \<mapsto> clock (cl_ticks c)), cl_ticks := Suc (cl_ticks c)\<rparr> in
        (case make_frame (cl_connection_id c) sequence (cl_payload_size c) of
           Inl e \<Rightarrow> (Raise e, c)
         | Inr f \<Rightarrow> (Ret (), c\<lparr>cl_written := cl_written c @ [f], cl_sent_messages := Suc (cl_sent_messages c)\<rparr>)))"

partial_function (option) send_all :: "(nat \<Rightarrow> int) \<Rightarrow> client_state \<Rightarrow> (unit outcome \<times> client_state) option" where
  "send_all clock c =
     (if cl_sent_messages c < cl_messages c
      then (case send_next clock c of
              (Ret u, c') \<Rightarrow> send_all clock c'
            | (r, c') \<Rightarrow> Some (r, c'))
      else Some (Ret (), c))"

declare send_all.simps [code]

definition handle_frame :: "(nat \<Rightarrow> int) \<Rightarrow> bytes \<Rightarrow> client_state \<Rightarrow> unit outcome \<times> client_state" where
  "handle_frame clock frame c =
     (case validate_frame frame (cl_connection_id c) (cl_received_messages c) of
        Inl e \<Rightarrow> (Raise e, c)
      | Inr (Some err) \<Rightarrow> (Ret (), c\<lparr>cl_run := record_error err (cl_run c)\<rparr>)
      | Inr None \<Rightarrow>
          let sequence = cl_received_messages c;
              sent_at = cl_sent_at c sequence;
              c = c\<lparr>cl_sent_at := (cl_sent_at c)(sequence := None)\<rparr>;
              (latency, c) =
                (case sent_at of
                   None \<Rightarrow> (None, c)
                 | Some t \<Rightarrow> (Some (clock (cl_ticks c) - t), c\<lparr>cl_ticks := Suc (cl_ticks c)\<rparr>));
              c = c\<lparr>cl_received_messages := Suc (cl_received_messages c),
                    cl_run := record_message (length frame) latency (cl_run c)\<rparr> in
          if cl_received_messages c = cl_messages c \<and> \<not> cl_completed c
          then (Ret (), c\<lparr>cl_completed := True, cl_run := mark_connection_complete (cl_run c)\<rparr>)
          else if cl_sequential c then send_next clock c
          else (Ret (), c))"

text \<open>Handling a frame does not touch the buffer; one that does not raise had at least a header.\<close>

lemma send_next_buffer: "send_next clock (c\<lparr>cl_buffer := b\<rparr>) = apsnd (cl_buffer_update (\<lambda>_. b)) (send_next clock c)"
  by (simp add: send_next_def Let_def split: sum.splits)

lemma handle_frame_buffer:
  "handle_frame clock f (c\<lparr>cl_buffer := b\<rparr>) = apsnd (cl_buffer_update (\<lambda>_. b)) (handle_frame clock f c)"
proof (cases "validate_frame f (cl_connection_id c) (cl_received_messages c)")
  case (Inr r)
  show ?thesis
  proof (cases r)
    case None
    with Inr show ?thesis
      by (cases "cl_sent_at c (cl_received_messages c)")
        (simp_all add: handle_frame_def Let_def send_next_buffer[symmetric],
         (intro impI arg_cong[where f = "send_next clock"]; simp)+)
  qed (simp add: handle_frame_def Inr)
qed (simp add: handle_frame_def)

lemma handle_frame_keeps_buffer: "cl_buffer (snd (handle_frame clock f c)) = cl_buffer c"
  using arg_cong[OF handle_frame_buffer[where b = "cl_buffer c" and c = c], of "\<lambda>r. cl_buffer (snd r)"]
  by simp

lemma handle_frame_header: "handle_frame clock f c = (Ret u, c') \<Longrightarrow> header_size \<le> length f"
  by (cases "header_size \<le> length f") (simp_all add: handle_frame_def validate_frame_short)

function feed_loop :: "(nat \<Rightarrow> int) \<Rightarrow> client_state \<Rightarrow> unit outcome \<times> client_state" where
  "feed_loop clock c =
     (if cl_payload_size c \<le> length (cl_buffer c) then
        let frame = take (cl_payload_size c) (cl_buffer c);
            c' = c\<lparr>cl_buffer := drop (cl_payload_size c) (cl_buffer c)\<rparr> in
        andThen (handle_frame clock frame c') (\<lambda>_ c''. feed_loop clock c'')
      else (Ret (), c))"
  by pat_completeness auto

termination
proof (relation "measure (\<lambda>(clock, c). length (cl_buffer c))", simp)
  fix clock :: "nat \<Rightarrow> int" and c frame c1 u c2
  assume a: "cl_payload_size c \<le> length (cl_buffer c)" "frame = take (cl_payload_size c) (cl_buffer c)"
    "c1 = c\<lparr>cl_buffer := drop (cl_payload_size c) (cl_buffer c)\<rparr>" "handle_frame clock frame c1 = (Ret u, c2)"
  have "cl_buffer c2 = drop (cl_payload_size c) (cl_buffer c)"
    using handle_frame_keeps_buffer[of clock frame c1] a(3,4) by simp
  moreover have "0 < cl_payload_size c"
    using handle_frame_header[OF a(4)] a(2) by (auto simp: header_size_def)
  ultimately show "((clock, c2), clock, c) \<in> measure (\<lambda>(clock, c). length (cl_buffer c))"
    using a(1) by simp
qed

declare feed_loop.simps [simp del]

definition feed :: "(nat \<Rightarrow> int) \<Rightarrow> bytes \<Rightarrow> client_state \<Rightarrow> unit outcome \<times> client_state" where
  "feed clock data c = feed_loop clock (c\<lparr>cl_buffer := cl_buffer c @ data\<rparr>)"

primrec feed_all :: "(nat \<Rightarrow> int) \<Rightarrow> bytes list \<Rightarrow> client_state \<Rightarrow> unit outcome \<times> client_state" where
  "feed_all clock [] c = (Ret (), c)"
| "feed_all clock (d # ds) c = andThen (feed clock d c) (\<lambda>_ c'. feed_all clock ds c')"

section \<open>How TCP cuts the stream does not matter\<close>

text \<open>What \<open>_run_py_netty_case\<close> checks and the arguments it gives ensure.\<close>

definition client_ok :: "client_state \<Rightarrow> bool" where
  "client_ok c \<longleftrightarrow> header_size \<le> cl_payload_size c \<and> cl_connection_id c < 2 ^ 32 \<and> cl_messages c \<le> 2 ^ 32"

text \<open>What no operation of the client changes.\<close>

definition client_fixed :: "client_state \<Rightarrow> nat \<times> nat \<times> nat \<times> bool \<times> bool" where
  "client_fixed c = (cl_connection_id c, cl_messages c, cl_payload_size c, cl_sequential c, cl_channel c)"

lemma client_fixed_ok: "client_fixed c = client_fixed c' \<Longrightarrow> client_ok c = client_ok c'"
  by (simp add: client_fixed_def client_ok_def)

lemma send_next_fixed: "client_fixed (snd (send_next clock c)) = client_fixed c"
  by (simp add: send_next_def Let_def client_fixed_def split: sum.splits)

lemma send_next_returns: "client_ok c \<Longrightarrow> returns (send_next clock c)"
  by (auto simp: send_next_def Let_def client_ok_def make_frame_def header_pack_def)

lemma handle_frame_fixed: "client_fixed (snd (handle_frame clock f c)) = client_fixed c"
proof -
  note [simp] = send_next_fixed
  show ?thesis
    unfolding handle_frame_def Let_def
    by (auto simp: client_fixed_def[of c] split: sum.splits option.splits) (simp_all add: client_fixed_def)
qed

lemma handle_frame_returns:
  assumes "client_ok c" "header_size \<le> length f"
  shows "returns (handle_frame clock f c)"
proof -
  obtain r where r: "validate_frame f (cl_connection_id c) (cl_received_messages c) = Inr r"
    using assms(2)
    by (cases "validate_frame f (cl_connection_id c) (cl_received_messages c)")
      (auto simp: validate_frame_def header_unpack_def Let_def split: if_splits)
  have "client_ok c' \<Longrightarrow> returns (send_next clock c')" for c' by (rule send_next_returns)
  with r assms(1) show ?thesis
    by (cases r) (auto simp: handle_frame_def Let_def client_ok_def split: option.splits)
qed

lemma feed_loop_short: "length (cl_buffer c) < cl_payload_size c \<Longrightarrow> feed_loop clock c = (Ret (), c)"
  by (simp add: feed_loop.simps)

lemma feed_loop_step:
  assumes "length f = cl_payload_size c" "cl_buffer c = f @ rest"
    "handle_frame clock f (c\<lparr>cl_buffer := rest\<rparr>) = (Ret u, c')"
  shows "feed_loop clock c = feed_loop clock c'"
  by (subst feed_loop.simps) (simp add: assms(1)[symmetric] assms(2,3))

text \<open>Feeding ends with less than a frame in the buffer, and more data then continues it.\<close>

lemma feed_loop_more:
  "client_ok c \<Longrightarrow> \<exists>c'. feed_loop clock c = (Ret (), c') \<and> client_fixed c' = client_fixed c
     \<and> length (cl_buffer c') < cl_payload_size c'
     \<and> feed_loop clock (c\<lparr>cl_buffer := cl_buffer c @ d\<rparr>) = feed_loop clock (c'\<lparr>cl_buffer := cl_buffer c' @ d\<rparr>)"
proof (induction clock c rule: feed_loop.induct)
  case (1 clock c)
  show ?case
  proof (cases "cl_payload_size c \<le> length (cl_buffer c)")
    case False
    then show ?thesis by (simp add: feed_loop_short not_le)
  next
    case True
    define f rest where "f = take (cl_payload_size c) (cl_buffer c)"
      and "rest = drop (cl_payload_size c) (cl_buffer c)"
    have f: "length f = cl_payload_size c" "cl_buffer c = f @ rest"
      using True by (simp_all add: f_def rest_def)
    obtain u c1 where h: "handle_frame clock f (c\<lparr>cl_buffer := rest\<rparr>) = (Ret u, c1)"
      using handle_frame_returns[where c = "c\<lparr>cl_buffer := rest\<rparr>" and f = f and clock = clock] 1(2) f(1)
      by (auto simp: client_ok_def elim: returnsE)
    have fx: "client_fixed c1 = client_fixed c"
      using handle_frame_fixed[of clock f "c\<lparr>cl_buffer := rest\<rparr>"] h by (simp add: client_fixed_def)
    have b: "cl_buffer c1 = rest" using handle_frame_keeps_buffer[of clock f "c\<lparr>cl_buffer := rest\<rparr>"] h by simp
    have h': "handle_frame clock f (c\<lparr>cl_buffer := rest @ d\<rparr>) = (Ret u, c1\<lparr>cl_buffer := rest @ d\<rparr>)"
      using handle_frame_buffer[where c = "c\<lparr>cl_buffer := rest\<rparr>" and b = "rest @ d" and clock = clock and f = f] h
      by simp
    have ih: "\<exists>c'. feed_loop clock c1 = (Ret (), c') \<and> client_fixed c' = client_fixed c1
       \<and> length (cl_buffer c') < cl_payload_size c'
       \<and> feed_loop clock (c1\<lparr>cl_buffer := cl_buffer c1 @ d\<rparr>) = feed_loop clock (c'\<lparr>cl_buffer := cl_buffer c' @ d\<rparr>)"
      by (rule 1(1)[OF True f_def refl h[unfolded rest_def]]) (use client_fixed_ok[OF fx] 1(2) in simp)
    have "feed_loop clock c = feed_loop clock c1" by (rule feed_loop_step[OF f h])
    moreover have "feed_loop clock (c\<lparr>cl_buffer := cl_buffer c @ d\<rparr>) = feed_loop clock (c1\<lparr>cl_buffer := rest @ d\<rparr>)"
      by (rule feed_loop_step[where f = f and rest = "rest @ d"]) (use f h' in simp_all)
    ultimately show ?thesis using ih fx b by simp
  qed
qed

lemma feed_all_concat:
  assumes "client_ok c" "length (cl_buffer c) < cl_payload_size c"
  shows "feed_all clock ds c = feed clock (concat ds) c"
  using assms
proof (induction ds arbitrary: c)
  case Nil
  then show ?case by (simp add: feed_def feed_loop_short)
next
  case (Cons d ds)
  let ?c = "c\<lparr>cl_buffer := cl_buffer c @ d\<rparr>"
  have "client_ok ?c" using Cons.prems(1) by (simp add: client_ok_def)
  from feed_loop_more[OF this, of clock "concat ds"] obtain c' where c': "feed_loop clock ?c = (Ret (), c')"
      "client_fixed c' = client_fixed ?c" "length (cl_buffer c') < cl_payload_size c'"
      "feed_loop clock (?c\<lparr>cl_buffer := cl_buffer ?c @ concat ds\<rparr>)
         = feed_loop clock (c'\<lparr>cl_buffer := cl_buffer c' @ concat ds\<rparr>)"
    by blast
  have "client_ok c'" using client_fixed_ok[OF c'(2)] Cons.prems(1) by (simp add: client_ok_def)
  from Cons.IH[OF this c'(3)] c'(1,4) show ?case by (simp add: feed_def)
qed

section \<open>An echoed run completes\<close>

text \<open>The frame with a sequence number, as the client of a checked run makes it.\<close>

definition frame_of :: "client_state \<Rightarrow> nat \<Rightarrow> bytes" where
  "frame_of c i = (case make_frame (cl_connection_id c) i (cl_payload_size c) of Inr f \<Rightarrow> f | Inl _ \<Rightarrow> [])"

lemma frame_of_fixed: "client_fixed c' = client_fixed c \<Longrightarrow> frame_of c' = frame_of c"
  by (auto simp: frame_of_def client_fixed_def)

lemma frame_of_made:
  assumes "client_ok c" "i < cl_messages c"
  shows "make_frame (cl_connection_id c) i (cl_payload_size c) = Inr (frame_of c i)"
  using assms by (simp add: frame_of_def make_frame_def header_pack_def client_ok_def Let_def)

lemma send_next_sends:
  assumes "client_ok c" "cl_channel c" "cl_sent_messages c < cl_messages c"
  shows "\<exists>at t. send_next clock c = (Ret (), c\<lparr>cl_sent_at := at, cl_ticks := t,
    cl_written := cl_written c @ [frame_of c (cl_sent_messages c)], cl_sent_messages := Suc (cl_sent_messages c)\<rparr>)"
  using assms frame_of_made[OF assms(1,3)] by (auto simp: send_next_def Let_def)

lemma send_all_sends:
  assumes "client_ok c" "cl_channel c" "cl_sent_messages c \<le> cl_messages c"
  shows "\<exists>at t. send_all clock c = Some (Ret (), c\<lparr>cl_sent_at := at, cl_ticks := t,
    cl_written := cl_written c @ map (frame_of c) [cl_sent_messages c..<cl_messages c],
    cl_sent_messages := cl_messages c\<rparr>)"
  using assms
proof (induction "cl_messages c - cl_sent_messages c" arbitrary: c)
  case 0
  then show ?case
    by (intro exI[of _ "cl_sent_at c"] exI[of _ "cl_ticks c"]) (simp add: send_all.simps)
next
  case (Suc n)
  then have lt: "cl_sent_messages c < cl_messages c" by simp
  obtain at t where s: "send_next clock c = (Ret (), c\<lparr>cl_sent_at := at, cl_ticks := t,
      cl_written := cl_written c @ [frame_of c (cl_sent_messages c)], cl_sent_messages := Suc (cl_sent_messages c)\<rparr>)"
    (is "_ = (_, ?c)") using send_next_sends[OF Suc.prems(1,2) lt] by blast
  have "client_fixed ?c = client_fixed c" by (simp add: client_fixed_def)
  note f = frame_of_fixed[OF this] client_fixed_ok[OF this]
  from Suc.hyps(1)[of ?c] Suc.hyps(2) Suc.prems f lt show ?case
    by (subst send_all.simps) (auto simp: s upt_conv_Cons)
qed

text \<open>The calls of a client that has counted \<open>r\<close> of \<open>m\<close> messages.\<close>

definition read_log :: "nat \<Rightarrow> nat \<Rightarrow> nat \<Rightarrow> run_event list \<Rightarrow> bool" where
  "read_log n m r log \<longleftrightarrow>
     (\<exists>ls. length ls = r \<and> log = map (Message n) ls @ (if r = m then [Complete] else []))"

lemma read_log_0 [simp]: "0 < m \<Longrightarrow> read_log n m 0 []"
  by (simp add: read_log_def)

lemma read_log_more:
  assumes "read_log n m r log" "r \<noteq> m"
  shows "read_log n m (Suc r) (log @ Message n l # (if Suc r = m then [Complete] else []))"
proof -
  obtain ls where "length ls = r" "log = map (Message n) ls" using assms by (auto simp: read_log_def)
  then show ?thesis unfolding read_log_def by (auto intro!: exI[of _ "ls @ [l]"])
qed

lemma read_log_more_simps [simp]:
  "read_log n (Suc r) r log \<Longrightarrow> read_log n (Suc r) (Suc r) (log @ [Message n l, Complete])"
  "read_log n m r log \<Longrightarrow> r \<noteq> m \<Longrightarrow> Suc r \<noteq> m \<Longrightarrow> read_log n m (Suc r) (log @ [Message n l])"
  using read_log_more[of n "Suc r" r log l] read_log_more[of n m r log l] by simp_all

text \<open>How far the run of a client is: it has received the frames up to \<open>r\<close> and sent those up to \<open>s\<close>.\<close>

definition progress :: "client_state \<Rightarrow> nat \<Rightarrow> nat \<Rightarrow> client_state \<Rightarrow> bool" where
  "progress c0 s r c \<longleftrightarrow> client_fixed c = client_fixed c0
    \<and> cl_received_messages c = r \<and> cl_sent_messages c = s \<and> cl_completed c = (r = cl_messages c0)
    \<and> cl_written c = map (frame_of c0) [0..<s] \<and> s \<le> cl_messages c0
    \<and> rs_errors (cl_run c) = rs_errors (cl_run c0)
    \<and> rs_received_messages (cl_run c) = rs_received_messages (cl_run c0) + r
    \<and> rs_received_bytes (cl_run c) = rs_received_bytes (cl_run c0) + r * cl_payload_size c0
    \<and> rs_total (cl_run c) = rs_total (cl_run c0)
    \<and> rs_completed (cl_run c) = (if r = cl_messages c0 then Suc else id) (rs_completed (cl_run c0))
    \<and> (\<exists>log. rs_log (cl_run c) = rs_log (cl_run c0) @ log \<and> read_log (cl_payload_size c0) (cl_messages c0) r log)"

definition sent_after :: "client_state \<Rightarrow> nat \<Rightarrow> nat" where
  "sent_after c s = (if cl_sequential c then min (cl_messages c) (Suc s) else s)"

lemma handle_frame_progress:
  assumes "client_ok c0" "cl_channel c0" "progress c0 s r c" "r < s"
  shows "\<exists>c'. handle_frame clock (frame_of c0 r) c = (Ret (), c') \<and> progress c0 (sent_after c0 s) (Suc r) c'"
proof -
  have s: "s \<le> cl_messages c0" and r: "cl_received_messages c = r" and fx: "client_fixed c = client_fixed c0"
    using assms(3) by (simp_all add: progress_def)
  have fixed: "cl_connection_id c = cl_connection_id c0" "cl_messages c = cl_messages c0"
    "cl_payload_size c = cl_payload_size c0" "cl_sequential c = cl_sequential c0" "cl_channel c"
    using fx assms(2) by (simp_all add: client_fixed_def)
  have len: "length (frame_of c0 r) = cl_payload_size c0"
    using frame_of_made[OF assms(1), of r] assms(4) s by (simp add: make_frame_length)
  have v: "validate_frame (frame_of c0 r) (cl_connection_id c) r = Inr None"
    using frame_of_made[OF assms(1), of r] assms(4) s by (simp add: validate_frame_ok len fixed)
  obtain l at t where h: "handle_frame clock (frame_of c0 r) c =
     (let c1 = c\<lparr>cl_sent_at := at, cl_ticks := t, cl_received_messages := Suc r,
          cl_run := record_message (cl_payload_size c0) l (cl_run c)\<rparr> in
      if Suc r = cl_messages c0
      then (Ret (), c1\<lparr>cl_completed := True, cl_run := mark_connection_complete (cl_run c1)\<rparr>)
      else if cl_sequential c0 then send_next clock c1 else (Ret (), c1))" (is "_ = (let c1 = ?c1 in _)")
  proof (cases "cl_sent_at c r")
    case None
    show ?thesis
      by (rule that[where at = "(cl_sent_at c)(r := None)" and t = "cl_ticks c" and l = None])
        (use None v r fixed assms(3,4) s in \<open>simp add: handle_frame_def Let_def len progress_def\<close>)
  next
    case (Some a)
    show ?thesis
      by (rule that[where at = "(cl_sent_at c)(r := None)" and t = "Suc (cl_ticks c)" and l = "Some (clock (cl_ticks c) - a)"])
        (use Some v r fixed assms(3,4) s in \<open>simp add: handle_frame_def Let_def len progress_def\<close>)
  qed
  have ok1: "client_ok ?c1" and fx1: "client_fixed ?c1 = client_fixed c0"
    using assms(1) fixed fx by (simp_all add: client_ok_def client_fixed_def)
  show ?thesis
  proof (cases "Suc r = cl_messages c0")
    case True
    with assms(4) s have "sent_after c0 s = s" by (auto simp: sent_after_def)
    with True show ?thesis
      unfolding h Let_def using assms(3) fixed assms(2)
      by (auto simp: True[symmetric] progress_def record_message_def mark_connection_complete_def client_fixed_def Let_def)
  next
    case False
    have p1: "progress c0 s (Suc r) ?c1"
      using assms(3,4) s fx1 False by (auto simp: progress_def record_message_def)
    show ?thesis
    proof (cases "cl_sequential c0 \<and> s < cl_messages c0")
      case True
      with p1 fixed have "cl_sent_messages ?c1 < cl_messages ?c1" "cl_sent_messages ?c1 = s" by (auto simp: progress_def)
      from send_next_sends[OF ok1 _ this(1), of clock] this(2) True False fixed frame_of_fixed[OF fx1] p1
      show ?thesis
        unfolding h Let_def by (auto simp: progress_def sent_after_def client_fixed_def)
    next
      case more: False
      then have "cl_sequential c0 \<Longrightarrow> send_next clock ?c1 = (Ret (), ?c1)"
        using s p1 fixed by (simp add: send_next_def progress_def)
      moreover have "sent_after c0 s = s" using more s by (auto simp: sent_after_def)
      ultimately show ?thesis unfolding h Let_def using False p1 by simp
    qed
  qed
qed

lemma feed_loop_progress:
  assumes "client_ok c0" "cl_channel c0" "progress c0 s r c" "r < s \<or> k = 0" "r + k \<le> cl_messages c0"
    and "\<not> cl_sequential c0 \<longrightarrow> r + k \<le> s"
    and "cl_buffer c = concat (map (frame_of c0) [r..<r + k])"
  shows "\<exists>c' s'. feed_loop clock c = (Ret (), c') \<and> progress c0 s' (r + k) c' \<and> cl_buffer c' = []
    \<and> (r + k = cl_messages c0 \<and> 0 < k \<longrightarrow> s' = cl_messages c0)"
  using assms(3-7)
proof (induction k arbitrary: s r c)
  case 0
  then have "length (cl_buffer c) < cl_payload_size c"
    using assms(1) by (auto simp: progress_def client_fixed_def client_ok_def header_size_def)
  with 0 show ?case by (auto simp: feed_loop_short)
next
  case (Suc k)
  define rest where "rest = concat (map (frame_of c0) [Suc r..<Suc r + k])"
  have b: "cl_buffer c = frame_of c0 r @ rest"
    using Suc.prems(5) upt_conv_Cons[of r "r + Suc k"] by (simp add: rest_def del: upt_Suc)
  have lt: "r < s" "r < cl_messages c0" "s \<le> cl_messages c0" using Suc.prems(1-3) by (auto simp: progress_def)
  have len: "length (frame_of c0 r) = cl_payload_size c"
    using make_frame_length[OF frame_of_made[OF assms(1) lt(2)]] Suc.prems(1)
    by (simp add: progress_def client_fixed_def)
  have "progress c0 s r (c\<lparr>cl_buffer := rest\<rparr>)" using Suc.prems(1) by (simp add: progress_def client_fixed_def)
  from handle_frame_progress[OF assms(1,2) this lt(1), of clock] obtain c1 where
    c1: "handle_frame clock (frame_of c0 r) (c\<lparr>cl_buffer := rest\<rparr>) = (Ret (), c1)"
      "progress c0 (sent_after c0 s) (Suc r) c1" by blast
  have b1: "cl_buffer c1 = rest"
    using handle_frame_keeps_buffer[of clock "frame_of c0 r" "c\<lparr>cl_buffer := rest\<rparr>"] c1(1) by simp
  have step: "feed_loop clock c = feed_loop clock c1" by (rule feed_loop_step[OF len b c1(1)])
  have prem: "Suc r < sent_after c0 s \<or> k = 0" "Suc r + k \<le> cl_messages c0"
    "\<not> cl_sequential c0 \<longrightarrow> Suc r + k \<le> sent_after c0 s"
    using Suc.prems(3,4) lt by (auto simp: sent_after_def)
  obtain c' s' where c': "feed_loop clock c1 = (Ret (), c')" "progress c0 s' (Suc r + k) c'" "cl_buffer c' = []"
      "Suc r + k = cl_messages c0 \<and> 0 < k \<longrightarrow> s' = cl_messages c0"
    using Suc.IH[OF c1(2) prem] b1 by (auto simp: rest_def)
  have "s' = cl_messages c0" if "r + Suc k = cl_messages c0"
  proof (cases k)
    case 0
    then have "c' = c1"
      using c'(1) b1 assms(1) c1(2)
      by (simp add: rest_def feed_loop_short progress_def client_fixed_def client_ok_def header_size_def)
    then show ?thesis using c'(2) c1(2) that 0 lt by (auto simp: progress_def sent_after_def)
  qed (use c'(4) that in auto)
  then show ?case using step c' by auto
qed

text \<open>What \<open>_run_py_netty_case\<close> does first with a connected client.\<close>

definition start_client :: "(nat \<Rightarrow> int) \<Rightarrow> client_state \<Rightarrow> (unit outcome \<times> client_state) option" where
  "start_client clock c = (if cl_sequential c then Some (send_next clock c) else send_all clock c)"

text \<open>A client that has been given its channel.\<close>

definition connected_client :: "nat \<Rightarrow> nat \<Rightarrow> nat \<Rightarrow> nat \<Rightarrow> bool \<Rightarrow> client_state" where
  "connected_client total_connections connection_id messages payload_size sequential =
     (new_client (new_run total_connections) connection_id messages payload_size sequential)\<lparr>cl_channel := True\<rparr>"

lemma start_client_progress:
  assumes "client_ok c" "cl_channel c" "progress c 0 0 c" "0 < cl_messages c"
  shows "\<exists>s c1. start_client clock c = Some (Ret (), c1) \<and> progress c s 0 c1 \<and> 0 < s
     \<and> (\<not> cl_sequential c \<longrightarrow> s = cl_messages c) \<and> cl_buffer c1 = cl_buffer c"
proof (cases "cl_sequential c")
  case True
  with send_next_sends[OF assms(1,2), of clock] assms(3,4) show ?thesis
    by (auto simp: start_client_def progress_def client_fixed_def intro!: exI[of _ 1])
next
  case False
  with send_all_sends[OF assms(1,2), of clock] assms(3,4) show ?thesis
    by (auto simp: start_client_def progress_def client_fixed_def intro!: exI[of _ "cl_messages c"])
qed

text \<open>The frames come back in whatever pieces: the client counts every one, reports no error and
  completes, having written all of its frames in order (one at a time when sequential).\<close>

lemma echoed_client_completes:
  assumes "client_ok c" "cl_channel c" "progress c 0 0 c" "cl_buffer c = []" "0 < cl_messages c"
    and "concat ds = concat (map (frame_of c) [0..<cl_messages c])"
  shows "\<exists>c1 c2. start_client clock c = Some (Ret (), c1) \<and> feed_all clock ds c1 = (Ret (), c2)
    \<and> progress c (cl_messages c) (cl_messages c) c2 \<and> cl_buffer c2 = []"
proof -
  obtain s c1 where c1: "start_client clock c = Some (Ret (), c1)" "progress c s 0 c1" "0 < s"
     "\<not> cl_sequential c \<longrightarrow> s = cl_messages c" "cl_buffer c1 = []"
    using start_client_progress[OF assms(1-3,5), of clock] assms(4) by auto
  let ?c = "c1\<lparr>cl_buffer := cl_buffer c1 @ concat ds\<rparr>"
  have "progress c s 0 ?c" using c1(2) by (simp add: progress_def client_fixed_def)
  from feed_loop_progress[OF assms(1,2) this, where k = "cl_messages c"] c1(3-5) assms(5,6) obtain c2 where
    "feed_loop clock ?c = (Ret (), c2)" "progress c (cl_messages c) (cl_messages c) c2" "cl_buffer c2 = []"
    by auto
  moreover have "feed_all clock ds c1 = feed_loop clock ?c"
    unfolding feed_def[symmetric]
    by (rule feed_all_concat)
      (use c1(2,5) assms(1) in \<open>auto simp: progress_def client_fixed_def client_ok_def header_size_def\<close>)
  ultimately show ?thesis using c1(1) by auto
qed

lemma connected_client_simps [simp]:
  "client_ok (connected_client total_connections i m n q) \<longleftrightarrow> 8 \<le> n \<and> i < 2 ^ 32 \<and> m \<le> 2 ^ 32"
  "cl_channel (connected_client total_connections i m n q)"
  "cl_buffer (connected_client total_connections i m n q) = []"
  "cl_messages (connected_client total_connections i m n q) = m"
  "0 < m \<Longrightarrow> progress (connected_client total_connections i m n q) 0 0 (connected_client total_connections i m n q)"
  by (simp_all add: connected_client_def new_client_def new_run_def client_ok_def header_size_def progress_def)

end
