(* ===== verification/Engines.thy ===== *)
theory Engines
  imports Frames
begin

text \<open>
  The engines that \<^verbatim>\<open>integration_tests/perf_echo.py\<close> compares the library with: a client on a blocking
  socket (\<open>_recv_exact\<close>, \<open>_threaded_client\<close>), the same client on asyncio streams
  (\<open>_asyncio_client\<close>), and the blocking echo server (\<open>_handle_client\<close>).
\<close>

section \<open>A blocking socket\<close>

text \<open>The bytes on their way to the socket (when there are none, the peer has closed it), and those
  sent.  How many bytes a \<open>recv\<close> returns is up to the system: \<open>give\<close> proposes a number per call.\<close>

record bsock =
  bs_in :: bytes
  bs_out :: bytes
  bs_calls :: nat

definition bs_recv :: "(nat \<Rightarrow> nat) \<Rightarrow> nat \<Rightarrow> bsock \<Rightarrow> bytes \<times> bsock" where
  "bs_recv give n s =
     (let m = max 1 (min (give (bs_calls s)) n) in
      (take m (bs_in s), s\<lparr>bs_in := drop m (bs_in s), bs_calls := Suc (bs_calls s)\<rparr>))"

text \<open>The peer answers what is sent with \<open>peer\<close> of it.\<close>

definition bs_sendall :: "(bytes \<Rightarrow> bytes) \<Rightarrow> bytes \<Rightarrow> bsock \<Rightarrow> bsock" where
  "bs_sendall peer data s = s\<lparr>bs_out := bs_out s @ data, bs_in := bs_in s @ peer data\<rparr>"

section \<open>Receiving an exact number of bytes\<close>

function recv_exact_loop :: "(nat \<Rightarrow> nat) \<Rightarrow> nat \<Rightarrow> bytes list \<Rightarrow> bsock \<Rightarrow> bytes outcome \<times> bsock" where
  "recv_exact_loop give remaining chunks s =
     (if remaining = 0 then (Ret (concat chunks), s)
      else case bs_recv give remaining s of
        (chunk, s') \<Rightarrow>
          (if chunk = [] then (Raise EOFError, s')
           else recv_exact_loop give (remaining - length chunk) (chunks @ [chunk]) s'))"
  by pat_completeness auto
termination
  by (relation "measure (\<lambda>(give, remaining, chunks, s). remaining)") auto

declare recv_exact_loop.simps [simp del]

definition recv_exact :: "(nat \<Rightarrow> nat) \<Rightarrow> nat \<Rightarrow> bsock \<Rightarrow> bytes outcome \<times> bsock" where
  "recv_exact give n s = recv_exact_loop give n [] s"

text \<open>\<open>StreamReader.readexactly\<close>, which raises a subclass of \<open>EOFError\<close>.\<close>

definition readexactly :: "nat \<Rightarrow> bsock \<Rightarrow> bytes outcome \<times> bsock" where
  "readexactly n s =
     (if length (bs_in s) < n then (Raise EOFError, s\<lparr>bs_in := []\<rparr>)
      else (Ret (take n (bs_in s)), s\<lparr>bs_in := drop n (bs_in s)\<rparr>))"

text \<open>What two sockets have in common that differ in the number of calls only.\<close>

definition same_bytes :: "bsock \<Rightarrow> bsock \<Rightarrow> bool" where
  "same_bytes s s' \<longleftrightarrow> bs_in s = bs_in s' \<and> bs_out s = bs_out s'"

lemma recv_exact_loop_spec:
  "\<exists>k. recv_exact_loop give n chunks s =
     (if length (bs_in s) < n then (Raise EOFError, s\<lparr>bs_in := [], bs_calls := k\<rparr>)
      else (Ret (concat chunks @ take n (bs_in s)), s\<lparr>bs_in := drop n (bs_in s), bs_calls := k\<rparr>))"
proof (induction give n chunks s rule: recv_exact_loop.induct)
  case (1 give n chunks s)
  show ?case
  proof (cases "n = 0")
    case True
    then show ?thesis by (intro exI[of _ "bs_calls s"]) (simp add: recv_exact_loop.simps)
  next
    case n: False
    define m where "m = max 1 (min (give (bs_calls s)) n)"
    define s' where "s' = s\<lparr>bs_in := drop m (bs_in s), bs_calls := Suc (bs_calls s)\<rparr>"
    have m: "1 \<le> m" "m \<le> n" using n by (simp_all add: m_def)
    have r: "bs_recv give n s = (take m (bs_in s), s')" by (simp add: bs_recv_def m_def s'_def Let_def)
    show ?thesis
    proof (cases "bs_in s = []")
      case True
      with n r show ?thesis
        by (intro exI[of _ "Suc (bs_calls s)"]) (simp add: recv_exact_loop.simps[of give n] s'_def)
    next
      case False
      with m(1) have ne: "take m (bs_in s) \<noteq> []" by (cases m) auto
      obtain k where k: "recv_exact_loop give (n - length (take m (bs_in s))) (chunks @ [take m (bs_in s)]) s' =
         (if length (bs_in s') < n - length (take m (bs_in s)) then (Raise EOFError, s'\<lparr>bs_in := [], bs_calls := k\<rparr>)
          else (Ret (concat (chunks @ [take m (bs_in s)]) @ take (n - length (take m (bs_in s))) (bs_in s')),
             s'\<lparr>bs_in := drop (n - length (take m (bs_in s))) (bs_in s'), bs_calls := k\<rparr>))"
        using 1[OF n r[symmetric] ne] by blast
      have "recv_exact_loop give n chunks s =
          recv_exact_loop give (n - length (take m (bs_in s))) (chunks @ [take m (bs_in s)]) s'"
        using n r ne by (subst recv_exact_loop.simps) simp
      also have "\<dots> = (if length (bs_in s) < n then (Raise EOFError, s\<lparr>bs_in := [], bs_calls := k\<rparr>)
         else (Ret (concat chunks @ take n (bs_in s)), s\<lparr>bs_in := drop n (bs_in s), bs_calls := k\<rparr>))"
      proof (cases "length (bs_in s) < n")
        case True
        then have "length (bs_in s') < n - length (take m (bs_in s))" using m by (auto simp: s'_def min_def)
        with True show ?thesis unfolding k by (simp add: s'_def)
      next
        case enough: False
        with m have l: "length (take m (bs_in s)) = m" by simp
        have "take m (bs_in s) @ take (n - m) (drop m (bs_in s)) = take n (bs_in s)"
          using m by (metis le_add_diff_inverse take_add)
        with enough m l show ?thesis unfolding k by (simp add: s'_def)
      qed
      finally show ?thesis by blast
    qed
  qed
qed

text \<open>However the system cuts the stream, \<open>_recv_exact\<close> is \<open>readexactly\<close>.\<close>

lemma recv_exact_readexactly:
  "fst (recv_exact give n s) = fst (readexactly n s) \<and> same_bytes (snd (recv_exact give n s)) (snd (readexactly n s))"
  using recv_exact_loop_spec[of give n "[]" s] by (auto simp: recv_exact_def readexactly_def same_bytes_def)

section \<open>The client on a blocking socket or a stream\<close>

text \<open>The clients of a case share its \<open>_RunState\<close>; each is modelled by the list of its calls, \<open>en_log\<close>, so
  that those of several clients can be interleaved.\<close>

text \<open>\<open>read\<close> is \<open>_recv_exact\<close> or \<open>readexactly\<close>; \<open>drain\<close> and the closing of the connection change nothing
  here.  The result says whether the client got to the end, which \<open>return\<close> after an error does not.\<close>

record engine_state =
  en_log :: "run_event list"
  en_sock :: bsock
  en_ticks :: nat

definition read_frame ::
    "(nat \<Rightarrow> bsock \<Rightarrow> bytes outcome \<times> bsock) \<Rightarrow> (nat \<Rightarrow> int) \<Rightarrow> nat \<Rightarrow> nat \<Rightarrow> nat \<Rightarrow> int
      \<Rightarrow> engine_state \<Rightarrow> bool outcome \<times> engine_state" where
  "read_frame read clock connection_id payload_size sequence started S =
     (case read payload_size (en_sock S) of
        (Ret frame, k) \<Rightarrow>
          (let S = S\<lparr>en_sock := k\<rparr> in
           case validate_frame frame connection_id sequence of
             Inl e \<Rightarrow> (Raise e, S)
           | Inr (Some err) \<Rightarrow> (Ret False, S\<lparr>en_log := en_log S @ [Error err]\<rparr>)
           | Inr None \<Rightarrow> (Ret True, S\<lparr>en_log := en_log S @ [Message (length frame) (Some (clock (en_ticks S) - started))], en_ticks := Suc (en_ticks S)\<rparr>))
      | (Raise e, k) \<Rightarrow> (Raise e, S\<lparr>en_sock := k\<rparr>)
      | (Diverge, k) \<Rightarrow> (Diverge, S\<lparr>en_sock := k\<rparr>))"

definition send_frame ::
    "(bytes \<Rightarrow> bytes) \<Rightarrow> nat \<Rightarrow> nat \<Rightarrow> nat \<Rightarrow> engine_state \<Rightarrow> unit outcome \<times> engine_state" where
  "send_frame peer connection_id payload_size sequence S =
     (let S = S\<lparr>en_ticks := Suc (en_ticks S)\<rparr> in
      case make_frame connection_id sequence payload_size of
        Inl e \<Rightarrow> (Raise e, S)
      | Inr f \<Rightarrow> (Ret (), S\<lparr>en_sock := bs_sendall peer f (en_sock S)\<rparr>))"

fun sequential_rounds ::
    "(nat \<Rightarrow> bsock \<Rightarrow> bytes outcome \<times> bsock) \<Rightarrow> (bytes \<Rightarrow> bytes) \<Rightarrow> (nat \<Rightarrow> int) \<Rightarrow> nat \<Rightarrow> nat
      \<Rightarrow> nat list \<Rightarrow> engine_state \<Rightarrow> bool outcome \<times> engine_state" where
  "sequential_rounds read peer clock connection_id payload_size [] S = (Ret True, S)"
| "sequential_rounds read peer clock connection_id payload_size (sequence # sequences) S =
     (let started = clock (en_ticks S) in
      andThen (send_frame peer connection_id payload_size sequence S) (\<lambda>_ S.
      andThen (read_frame read clock connection_id payload_size sequence started S) (\<lambda>go S.
      if go then sequential_rounds read peer clock connection_id payload_size sequences S else (Ret False, S))))"

text \<open>The two loops of a burst; \<open>sent_at\<close> is the reading of the clock before each frame.\<close>

fun burst_send ::
    "(bytes \<Rightarrow> bytes) \<Rightarrow> (nat \<Rightarrow> int) \<Rightarrow> nat \<Rightarrow> nat \<Rightarrow> nat list \<Rightarrow> (nat \<Rightarrow> int)
      \<Rightarrow> engine_state \<Rightarrow> (nat \<Rightarrow> int) outcome \<times> engine_state" where
  "burst_send peer clock connection_id payload_size [] sent_at S = (Ret sent_at, S)"
| "burst_send peer clock connection_id payload_size (sequence # sequences) sent_at S =
     andThen (send_frame peer connection_id payload_size sequence S) (\<lambda>_ S'.
     burst_send peer clock connection_id payload_size sequences (sent_at(sequence := clock (en_ticks S))) S')"

fun burst_read ::
    "(nat \<Rightarrow> bsock \<Rightarrow> bytes outcome \<times> bsock) \<Rightarrow> (nat \<Rightarrow> int) \<Rightarrow> nat \<Rightarrow> nat \<Rightarrow> nat list \<Rightarrow> (nat \<Rightarrow> int)
      \<Rightarrow> engine_state \<Rightarrow> bool outcome \<times> engine_state" where
  "burst_read read clock connection_id payload_size [] sent_at S = (Ret True, S)"
| "burst_read read clock connection_id payload_size (sequence # sequences) sent_at S =
     andThen (read_frame read clock connection_id payload_size sequence (sent_at sequence) S) (\<lambda>go S.
     if go then burst_read read clock connection_id payload_size sequences sent_at S else (Ret False, S))"

definition blocking_client ::
    "(nat \<Rightarrow> bsock \<Rightarrow> bytes outcome \<times> bsock) \<Rightarrow> (bytes \<Rightarrow> bytes) \<Rightarrow> (nat \<Rightarrow> int) \<Rightarrow> nat \<Rightarrow> nat \<Rightarrow> nat \<Rightarrow> bool
      \<Rightarrow> engine_state \<Rightarrow> unit outcome \<times> engine_state" where
  "blocking_client read peer clock connection_id messages payload_size sequential S =
     handling
       (andThen
         (if sequential
          then sequential_rounds read peer clock connection_id payload_size [0..<messages] S
          else andThen (burst_send peer clock connection_id payload_size [0..<messages] (\<lambda>_. 0) S) (\<lambda>sent_at S.
            burst_read read clock connection_id payload_size [0..<messages] sent_at S)) (\<lambda>go S.
        (Ret (), if go then S\<lparr>en_log := en_log S @ [Complete]\<rparr> else S)))
       (\<lambda>e S. (Ret (), S\<lparr>en_log := en_log S @ [Error (OnConnection connection_id e)]\<rparr>))"

definition threaded_client where
  "threaded_client give = blocking_client (recv_exact give)"

definition asyncio_client where
  "asyncio_client = blocking_client readexactly"

section \<open>The client on an echoing peer\<close>

text \<open>A read that gives the first \<open>n\<close> bytes when they are there; both do.\<close>

definition exact_read :: "(nat \<Rightarrow> bsock \<Rightarrow> bytes outcome \<times> bsock) \<Rightarrow> bool" where
  "exact_read read \<longleftrightarrow> (\<forall>n s. n \<le> length (bs_in s) \<longrightarrow>
     (\<exists>k. read n s = (Ret (take n (bs_in s)), s\<lparr>bs_in := drop n (bs_in s), bs_calls := k\<rparr>)))"

lemma recv_exact_exact: "exact_read (recv_exact give)"
  using recv_exact_loop_spec[of give _ "[]"] unfolding exact_read_def recv_exact_def
  by (metis append_Nil concat.simps(1) not_le)

lemma readexactly_exact: "exact_read readexactly"
  unfolding exact_read_def
proof (intro allI impI)
  fix n :: nat and s :: bsock
  assume "n \<le> length (bs_in s)"
  then show "\<exists>k. readexactly n s = (Ret (take n (bs_in s)), s\<lparr>bs_in := drop n (bs_in s), bs_calls := k\<rparr>)"
    by (intro exI[of _ "bs_calls s"]) (simp add: readexactly_def)
qed

text \<open>The frames of a connection, and the calls of a client that has read \<open>r\<close> of them.\<close>

definition frame_at :: "nat \<Rightarrow> nat \<Rightarrow> nat \<Rightarrow> bytes" where
  "frame_at i n q = (case make_frame i q n of Inr f \<Rightarrow> f | Inl _ \<Rightarrow> [])"

definition counted :: "nat \<Rightarrow> nat \<Rightarrow> run_event list \<Rightarrow> bool" where
  "counted n r log \<longleftrightarrow> (\<exists>latencies. length latencies = r \<and> log = map (Message n) latencies \<and> None \<notin> set latencies)"

lemma counted_more: "counted n r log \<Longrightarrow> counted n (Suc r) (log @ [Message n (Some l)])"
proof -
  assume "counted n r log"
  then obtain ls where "length ls = r" "log = map (Message n) ls" "None \<notin> set ls" by (auto simp: counted_def)
  then show ?thesis unfolding counted_def by (intro exI[of _ "ls @ [Some l]"]) simp
qed

lemma frame_at_made:
  assumes "8 \<le> n" "i < 2 ^ 32" "q < 2 ^ 32"
  shows "make_frame i q n = Inr (frame_at i n q)" "length (frame_at i n q) = n"
    "validate_frame (frame_at i n q) i q = Inr None"
proof -
  show m: "make_frame i q n = Inr (frame_at i n q)"
    using assms by (simp add: frame_at_def make_frame_def header_pack_def header_size_def Let_def)
  show l: "length (frame_at i n q) = n" by (rule make_frame_length[OF m])
  show "validate_frame (frame_at i n q) i q = Inr None" by (simp add: validate_frame_ok l m)
qed

lemma read_frame_at:
  assumes "exact_read read" "8 \<le> n" "i < 2 ^ 32" "q < 2 ^ 32"
    and "bs_in (en_sock S) = frame_at i n q @ rest" "counted n r (en_log S)"
  shows "\<exists>S'. read_frame read clock i n q started S = (Ret True, S') \<and> bs_in (en_sock S') = rest
    \<and> bs_out (en_sock S') = bs_out (en_sock S) \<and> counted n (Suc r) (en_log S')"
proof -
  note f = frame_at_made[OF assms(2-4)]
  have "n \<le> length (bs_in (en_sock S))" using f(2) by (simp add: assms(5))
  then obtain k where "read n (en_sock S) = (Ret (take n (bs_in (en_sock S))),
      (en_sock S)\<lparr>bs_in := drop n (bs_in (en_sock S)), bs_calls := k\<rparr>)"
    using assms(1) unfolding exact_read_def by blast
  then show ?thesis
    using f(2,3) assms(5) counted_more[OF assms(6)] by (simp add: read_frame_def Let_def)
qed

lemma send_frame_at:
  assumes "8 \<le> n" "i < 2 ^ 32" "q < 2 ^ 32"
  shows "send_frame (\<lambda>x. x) i n q S = (Ret (), S\<lparr>en_ticks := Suc (en_ticks S),
    en_sock := bs_sendall (\<lambda>x. x) (frame_at i n q) (en_sock S)\<rparr>)"
  using frame_at_made(1)[OF assms] by (simp add: send_frame_def Let_def)

lemma sequential_rounds_echo:
  assumes "exact_read read" "8 \<le> n" "i < 2 ^ 32" "\<forall>q \<in> set qs. q < 2 ^ 32"
    and "bs_in (en_sock S) = []" "counted n r (en_log S)"
  shows "\<exists>S'. sequential_rounds read (\<lambda>x. x) clock i n qs S = (Ret True, S') \<and> bs_in (en_sock S') = []
    \<and> bs_out (en_sock S') = bs_out (en_sock S) @ concat (map (frame_at i n) qs)
    \<and> counted n (r + length qs) (en_log S')"
  using assms(4-6)
proof (induction qs arbitrary: S r)
  case (Cons q qs)
  let ?S = "S\<lparr>en_ticks := Suc (en_ticks S), en_sock := bs_sendall (\<lambda>x. x) (frame_at i n q) (en_sock S)\<rparr>"
  have q: "q < 2 ^ 32" using Cons.prems(1) by simp
  have "bs_in (en_sock ?S) = frame_at i n q @ []" "counted n r (en_log ?S)"
    using Cons.prems(2,3) by (simp_all add: bs_sendall_def)
  from read_frame_at[OF assms(1-3) q this, of clock "clock (en_ticks S)"] obtain S1 where
    S1: "read_frame read clock i n q (clock (en_ticks S)) ?S = (Ret True, S1)" "bs_in (en_sock S1) = []"
      "bs_out (en_sock S1) = bs_out (en_sock S) @ frame_at i n q" "counted n (Suc r) (en_log S1)"
    by (auto simp: bs_sendall_def)
  from Cons.IH[OF _ S1(2,4)] Cons.prems(1) S1(1,3) send_frame_at[OF assms(2,3) q, of S] show ?case
    by (simp add: Let_def)
qed simp

lemma burst_send_echo:
  assumes "8 \<le> n" "i < 2 ^ 32" "\<forall>q \<in> set qs. q < 2 ^ 32"
  shows "\<exists>at S'. burst_send (\<lambda>x. x) clock i n qs sent_at S = (Ret at, S')
    \<and> bs_in (en_sock S') = bs_in (en_sock S) @ concat (map (frame_at i n) qs)
    \<and> bs_out (en_sock S') = bs_out (en_sock S) @ concat (map (frame_at i n) qs) \<and> en_log S' = en_log S"
  using assms(3)
proof (induction qs arbitrary: S sent_at)
  case (Cons q qs)
  have q: "q < 2 ^ 32" using Cons.prems by simp
  let ?S = "S\<lparr>en_ticks := Suc (en_ticks S), en_sock := bs_sendall (\<lambda>x. x) (frame_at i n q) (en_sock S)\<rparr>"
  have "\<exists>at S'. burst_send (\<lambda>x. x) clock i n qs (sent_at(q := clock (en_ticks S))) ?S = (Ret at, S')
    \<and> bs_in (en_sock S') = bs_in (en_sock ?S) @ concat (map (frame_at i n) qs)
    \<and> bs_out (en_sock S') = bs_out (en_sock ?S) @ concat (map (frame_at i n) qs) \<and> en_log S' = en_log ?S"
    using Cons.prems by (intro Cons.IH) simp
  moreover have "burst_send (\<lambda>x. x) clock i n (q # qs) sent_at S
      = burst_send (\<lambda>x. x) clock i n qs (sent_at(q := clock (en_ticks S))) ?S"
    by (simp only: burst_send.simps send_frame_at[OF assms(1,2) q] andThen_simps)
  ultimately show ?case by (simp add: bs_sendall_def del: burst_send.simps)
qed simp

lemma burst_read_echo:
  assumes "exact_read read" "8 \<le> n" "i < 2 ^ 32" "\<forall>q \<in> set qs. q < 2 ^ 32"
    and "bs_in (en_sock S) = concat (map (frame_at i n) qs)" "counted n r (en_log S)"
  shows "\<exists>S'. burst_read read clock i n qs sent_at S = (Ret True, S') \<and> bs_in (en_sock S') = []
    \<and> bs_out (en_sock S') = bs_out (en_sock S) \<and> counted n (r + length qs) (en_log S')"
  using assms(4-6)
proof (induction qs arbitrary: S r)
  case (Cons q qs)
  have q: "q < 2 ^ 32" using Cons.prems(1) by simp
  have "bs_in (en_sock S) = frame_at i n q @ concat (map (frame_at i n) qs)" using Cons.prems(2) by simp
  from read_frame_at[OF assms(1-3) q this Cons.prems(3), of clock "sent_at q"] obtain S1 where
    S1: "read_frame read clock i n q (sent_at q) S = (Ret True, S1)"
      "bs_in (en_sock S1) = concat (map (frame_at i n) qs)"
      "bs_out (en_sock S1) = bs_out (en_sock S)" "counted n (Suc r) (en_log S1)" by blast
  from Cons.IH[OF _ S1(2,4)] Cons.prems(1) S1(1,3) show ?case by simp
qed simp

text \<open>The client sends all frames in order, counts every message, and ends its connection.\<close>

lemma blocking_client_echo:
  assumes "exact_read read" "8 \<le> n" "i < 2 ^ 32" "m \<le> 2 ^ 32" "bs_in (en_sock S) = []" "en_log S = []"
  shows "\<exists>S' log. blocking_client read (\<lambda>x. x) clock i m n q S = (Ret (), S')
    \<and> bs_out (en_sock S') = bs_out (en_sock S) @ concat (map (frame_at i n) [0..<m])
    \<and> counted n m log \<and> en_log S' = log @ [Complete]"
proof -
  have qs: "\<forall>s \<in> set [0..<m]. s < 2 ^ 32" using assms(4) by auto
  have c: "counted n 0 (en_log S)" by (simp add: counted_def assms(6))
  show ?thesis
  proof (cases q)
    case True
    with sequential_rounds_echo[OF assms(1-3) qs assms(5) c, of clock] show ?thesis
      by (auto simp: blocking_client_def)
  next
    case False
    obtain at S1 where S1: "burst_send (\<lambda>x. x) clock i n [0..<m] (\<lambda>_. 0) S = (Ret at, S1)"
      "bs_in (en_sock S1) = concat (map (frame_at i n) [0..<m])"
      "bs_out (en_sock S1) = bs_out (en_sock S) @ concat (map (frame_at i n) [0..<m])" "en_log S1 = en_log S"
      using burst_send_echo[OF assms(2,3) qs, of clock "\<lambda>_. 0" S] assms(5) by auto
    from burst_read_echo[OF assms(1-3) qs S1(2), of 0 clock at] c S1 False show ?thesis
      by (auto simp: blocking_client_def)
  qed
qed

lemma threaded_client_echo:
  "8 \<le> n \<Longrightarrow> i < 2 ^ 32 \<Longrightarrow> m \<le> 2 ^ 32 \<Longrightarrow> bs_in (en_sock S) = [] \<Longrightarrow> en_log S = [] \<Longrightarrow>
    \<exists>S' log. threaded_client give (\<lambda>x. x) clock i m n q S = (Ret (), S')
    \<and> bs_out (en_sock S') = bs_out (en_sock S) @ concat (map (frame_at i n) [0..<m])
    \<and> counted n m log \<and> en_log S' = log @ [Complete]"
  unfolding threaded_client_def by (rule blocking_client_echo[OF recv_exact_exact])

lemma asyncio_client_echo:
  "8 \<le> n \<Longrightarrow> i < 2 ^ 32 \<Longrightarrow> m \<le> 2 ^ 32 \<Longrightarrow> bs_in (en_sock S) = [] \<Longrightarrow> en_log S = [] \<Longrightarrow>
    \<exists>S' log. asyncio_client (\<lambda>x. x) clock i m n q S = (Ret (), S')
    \<and> bs_out (en_sock S') = bs_out (en_sock S) @ concat (map (frame_at i n) [0..<m])
    \<and> counted n m log \<and> en_log S' = log @ [Complete]"
  unfolding asyncio_client_def by (rule blocking_client_echo[OF readexactly_exact])

section \<open>The echo servers of the other engines\<close>

text \<open>A thread of the blocking server: \<open>recvs\<close> are the results of its calls of \<open>recv\<close> (when they are used
  up it waits for more, the result \<open>None\<close>), \<open>sends k\<close> is how many bytes the \<open>k\<close>-th \<open>sendall\<close> got out before it
  failed, if it failed, and \<open>stopped k\<close> is the stop event as the thread sees it.\<close>

fun handle_client ::
    "(nat \<Rightarrow> bool) \<Rightarrow> (nat \<Rightarrow> nat option) \<Rightarrow> nat \<Rightarrow> (int + bytes) list \<Rightarrow> bytes
      \<Rightarrow> unit outcome option \<times> bytes" where
  "handle_client stopped sends k [] out = (if stopped k then Some (Ret ()) else None, out)"
| "handle_client stopped sends k (r # recvs) out =
     (if stopped k then (Some (Ret ()), out)
      else case r of
        Inl oserror \<Rightarrow> (Some (Ret ()), out)
      | Inr data \<Rightarrow>
          (if data = [] then (Some (Ret ()), out)
           else case sends k of
             Some n \<Rightarrow> (Some (Ret ()), out @ take n data)
           | None \<Rightarrow> handle_client stopped sends (Suc k) recvs (out @ data)))"

text \<open>The handler of the asyncio server: what \<open>read\<close> and \<open>drain\<close> raise leaves it, after the writer is closed.\<close>

fun asyncio_echo_handler ::
    "(nat \<Rightarrow> (nat \<times> exn) option) \<Rightarrow> nat \<Rightarrow> (exn + bytes) list \<Rightarrow> bytes \<Rightarrow> unit outcome option \<times> bytes" where
  "asyncio_echo_handler drains k [] out = (None, out)"
| "asyncio_echo_handler drains k (r # reads) out =
     (case r of
        Inl e \<Rightarrow> (Some (Raise e), out)
      | Inr data \<Rightarrow>
          (if data = [] then (Some (Ret ()), out)
           else case drains k of
             Some (n, e) \<Rightarrow> (Some (Raise e), out @ take n data)
           | None \<Rightarrow> asyncio_echo_handler drains (Suc k) reads (out @ data)))"

text \<open>The accepting thread; \<open>None\<close> is the timeout of the listening socket.\<close>

fun server_accept_loop :: "(nat \<Rightarrow> bool) \<Rightarrow> nat \<Rightarrow> (int + 'client option) list \<Rightarrow> 'client list \<Rightarrow> 'client list" where
  "server_accept_loop stopped k [] threads = threads"
| "server_accept_loop stopped k (r # accepts) threads =
     (if stopped k then threads
      else case r of
        Inr None \<Rightarrow> server_accept_loop stopped (Suc k) accepts threads
      | Inl oserror \<Rightarrow> threads
      | Inr (Some client) \<Rightarrow> server_accept_loop stopped (Suc k) accepts (threads @ [client]))"

text \<open>The bytes received up to the end of the stream or an error.\<close>

fun received :: "('e + bytes) list \<Rightarrow> bytes" where
  "received (Inr data # rs) = (if data = [] then [] else data @ received rs)"
| "received _ = []"

lemma handle_client_echoes:
  "\<exists>sent. snd (handle_client stopped sends k recvs out) = out @ sent \<and> prefix sent (received recvs)
    \<and> ((\<forall>j. \<not> stopped j) \<and> (\<forall>j. sends j = None) \<longrightarrow> sent = received recvs)"
proof (induction stopped sends k recvs out rule: handle_client.induct)
  case (2 stopped sends k r recvs out)
  show ?case
  proof (cases "stopped k \<or> (case r of Inl _ \<Rightarrow> True | Inr data \<Rightarrow> data = [])")
    case True
    then show ?thesis by (intro exI[of _ "[]"]) (auto split: sum.splits)
  next
    case False
    then obtain data where r: "r = Inr data" "data \<noteq> []" "\<not> stopped k" by (auto split: sum.splits)
    show ?thesis
    proof (cases "sends k")
      case None
      with 2 r obtain sent where "snd (handle_client stopped sends (Suc k) recvs (out @ data)) = (out @ data) @ sent"
        "prefix sent (received recvs)"
        "(\<forall>j. \<not> stopped j) \<and> (\<forall>j. sends j = None) \<longrightarrow> sent = received recvs" by blast
      with r None show ?thesis by (intro exI[of _ "data @ sent"]) auto
    next
      case (Some n)
      with r show ?thesis
        by (intro exI[of _ "take n data"]) (auto intro: prefix_order.trans[OF take_is_prefix])
    qed
  qed
qed simp

lemma asyncio_echo_handler_echoes:
  "\<forall>j. drains j = None \<Longrightarrow> snd (asyncio_echo_handler drains k reads out) = out @ received reads"
  by (induction drains k reads out rule: asyncio_echo_handler.induct) (auto split: sum.splits)

end
