(* ===== verification/Utils.thy ===== *)
theory Utils
  imports World
begin

unbundle bit_operations_syntax

text \<open>
  \<^verbatim>\<open>py_netty/utils.py\<close>: the strings that describe sockets and flags, the message prefix of the
  logger, and the \<open>@log\<close> decorator.
\<close>

section \<open>Numbers in decimal\<close>

definition digit :: "nat \<Rightarrow> char" where
  "digit n = char_of (48 + n)"

text \<open>\<open>str\<close> of a natural number.\<close>

fun nat_str :: "nat \<Rightarrow> string" where
  "nat_str n = (if n < 10 then [digit n] else nat_str (n div 10) @ [digit (n mod 10)])"

declare nat_str.simps [simp del]

definition str_nat :: "string \<Rightarrow> nat" where
  "str_nat s = foldl (\<lambda>n d. 10 * n + (of_char d - 48)) 0 s"

lemma of_char_digit: "n < 10 \<Longrightarrow> of_char (digit n) = (48 + n :: nat)"
  by (simp add: digit_def)

lemma digit_not_colon: "n < 10 \<Longrightarrow> digit n \<noteq> CHR '':''"
proof
  assume n: "n < 10" and "digit n = CHR '':''"
  then have "of_char (digit n) = (of_char (CHR '':'') :: nat)" by simp
  with n show False by (simp add: of_char_digit)
qed

lemma nat_str_no_colon: "CHR '':'' \<notin> set (nat_str n)"
proof (induction n rule: nat_str.induct)
  case (1 n)
  then show ?case using digit_not_colon[of n] digit_not_colon[of "n mod 10"]
    by (subst nat_str.simps) (auto dest: sym)
qed

lemma str_nat_nat_str: "str_nat (nat_str n) = n"
proof (induction n rule: nat_str.induct)
  case (1 n)
  show ?case
  proof (cases "n < 10")
    case True
    then show ?thesis by (subst nat_str.simps) (simp add: str_nat_def of_char_digit)
  next
    case False
    with 1 have "str_nat (nat_str (n div 10)) = n div 10" by simp
    with False show ?thesis by (subst nat_str.simps) (simp add: str_nat_def of_char_digit)
  qed
qed

section \<open>Socket addresses\<close>

definition format_sockaddr :: "string \<times> nat \<Rightarrow> string" where
  "format_sockaddr sockaddr =
     (let (address, port) = sockaddr in
      if CHR '':'' \<in> set address then ''['' @ address @ '']:'' @ nat_str port
      else address @ '':'' @ nat_str port)"

text \<open>Reading such a description back: the port is what follows the last colon.\<close>

definition parse_sockaddr :: "string \<Rightarrow> string \<times> nat" where
  "parse_sockaddr s =
     (let port = rev (takeWhile (\<lambda>c. c \<noteq> CHR '':'') (rev s));
          address = butlast (rev (dropWhile (\<lambda>c. c \<noteq> CHR '':'') (rev s))) in
      (if CHR '':'' \<in> set address then butlast (tl address) else address, str_nat port))"

lemma split_last_colon:
  assumes "CHR '':'' \<notin> set p"
  shows "rev (takeWhile (\<lambda>c. c \<noteq> CHR '':'') (rev (a @ CHR '':'' # p))) = p"
    and "butlast (rev (dropWhile (\<lambda>c. c \<noteq> CHR '':'') (rev (a @ CHR '':'' # p)))) = a"
proof -
  have all: "\<forall>c \<in> set (rev p). c \<noteq> CHR '':''" using assms by auto
  then show "rev (takeWhile (\<lambda>c. c \<noteq> CHR '':'') (rev (a @ CHR '':'' # p))) = p"
    by (simp add: takeWhile_append2 del: set_rev)
  show "butlast (rev (dropWhile (\<lambda>c. c \<noteq> CHR '':'') (rev (a @ CHR '':'' # p)))) = a"
    using all by (simp add: dropWhile_append2 del: set_rev)
qed

lemma parse_format_sockaddr: "parse_sockaddr (format_sockaddr (address, port)) = (address, port)"
proof (cases "CHR '':'' \<in> set address")
  case True
  then have "format_sockaddr (address, port) = (''['' @ address @ '']'') @ CHR '':'' # nat_str port"
    by (simp add: format_sockaddr_def)
  then show ?thesis using True
    unfolding parse_sockaddr_def by (simp only: split_last_colon[OF nat_str_no_colon]) (simp add: str_nat_nat_str)
next
  case False
  then have "format_sockaddr (address, port) = address @ CHR '':'' # nat_str port"
    by (simp add: format_sockaddr_def)
  then show ?thesis using False
    unfolding parse_sockaddr_def by (simp only: split_last_colon[OF nat_str_no_colon]) (simp add: str_nat_nat_str)
qed

text \<open>\<open>sockinfo\<close>, with the answers of \<open>getsockname\<close> and \<open>getpeername\<close> (\<open>None\<close> when they raise)
  and \<open>str(sock)\<close>.\<close>

definition sockinfo :: "string \<Rightarrow> nat \<Rightarrow> (string \<times> nat) option \<Rightarrow> (string \<times> nat) option \<Rightarrow> string \<Rightarrow> string" where
  "sockinfo sock_id fileno sockname peername str_sock =
     (case sockname of
        None \<Rightarrow> str_sock
      | Some s_addr \<Rightarrow>
          (case peername of
             Some p_addr \<Rightarrow> ''[id: '' @ sock_id @ '', fd: '' @ nat_str fileno @ '', L:/'' @ format_sockaddr s_addr
               @ '' - R:/'' @ format_sockaddr p_addr @ '']''
           | None \<Rightarrow> ''[id: '' @ sock_id @ '', fd: '' @ nat_str fileno @ '', L:/'' @ format_sockaddr s_addr @ '']''))"

section \<open>Flags, log messages, the decorator\<close>

fun join_bars :: "string list \<Rightarrow> string" where
  "join_bars [] = []"
| "join_bars [s] = s"
| "join_bars (s # ss) = s @ ''|'' @ join_bars ss"

definition flag_to_str :: "int \<Rightarrow> string" where
  "flag_to_str flag =
     join_bars ((if flag AND EVENT_READ \<noteq> 0 then [''R''] else []) @
                (if flag AND EVENT_WRITE \<noteq> 0 then [''W''] else []))"

definition log_process :: "string \<Rightarrow> string \<Rightarrow> string" where
  "log_process pre msg = (if pre \<noteq> [] then ''['' @ pre @ ''] '' @ msg else msg)"

text \<open>\<open>@log\<close> turns an exception into the value \<open>None\<close>.\<close>

definition logged :: "'a outcome \<times> 's \<Rightarrow> 'a option outcome \<times> 's" where
  "logged r = (case r of
      (Ret a, s) \<Rightarrow> (Ret (Some a), s)
    | (Raise e, s) \<Rightarrow> (Ret None, s)
    | (Diverge, s) \<Rightarrow> (Diverge, s))"

lemma logged_calm [calm_intro]: "calm (logged r)"
  by (cases r; cases "fst r") (auto simp: logged_def)

end
