(* ===== verification/Report.thy ===== *)
theory Report
  imports Complex_Main Engines Utils
begin

text \<open>
  What \<^verbatim>\<open>integration_tests/perf_echo.py\<close> computes from a run: percentiles of the latencies, the
  throughput and its unit, the record of a case's result, and the lines printed for it.  Floating-point
  numbers are rationals; where a product is rounded before it is used to index a list (\<open>_percentile\<close>), the
  multiplication is a parameter.
\<close>

section \<open>Rounding and percentiles\<close>

text \<open>\<open>round\<close> of one argument: to the nearest integer, to the even one when two are.\<close>

definition round_half_even :: "rat \<Rightarrow> int" where
  "round_half_even x =
     (let f = \<lfloor>x\<rfloor>; d = x - of_int f in
      if d < 1/2 then f else if 1/2 < d then f + 1 else if even f then f else f + 1)"

lemma round_half_even_int [simp]: "round_half_even (of_int i) = i"
  by (simp add: round_half_even_def)

lemma round_half_even_of_nat [simp]: "round_half_even (of_nat i) = int i"
  using round_half_even_int[of "int i"] by simp

lemma round_half_even_near: "\<bar>of_int (round_half_even x) - x\<bar> \<le> 1/2"
proof -
  have "of_int \<lfloor>x\<rfloor> \<le> x" "x < of_int \<lfloor>x\<rfloor> + 1" by linarith+
  then show ?thesis by (simp add: round_half_even_def Let_def)
qed

lemma round_half_even_mono:
  assumes "x \<le> y"
  shows "round_half_even x \<le> round_half_even y"
proof (rule ccontr)
  assume "\<not> round_half_even x \<le> round_half_even y"
  then have "round_half_even y + 1 \<le> round_half_even x" by simp
  then have "of_int (round_half_even y) + (1 :: rat) \<le> of_int (round_half_even x)"
    by (metis of_int_1 of_int_add of_int_le_iff)
  with round_half_even_near[of x] round_half_even_near[of y] assms have "x = y" by linarith
  with \<open>\<not> round_half_even x \<le> round_half_even y\<close> show False by simp
qed

lemma round_half_even_bounds: "0 \<le> x \<Longrightarrow> x \<le> of_nat n \<Longrightarrow> round_half_even x \<in> {0..int n}"
  using round_half_even_mono[of 0 x] round_half_even_mono[of x "of_nat n"] round_half_even_of_nat[of 0] by simp

text \<open>The law of a rounded multiplication that the percentiles rest on: it is monotone, and exact at 0
  and 1.\<close>

definition product_ok :: "(rat \<Rightarrow> rat \<Rightarrow> rat) \<Rightarrow> bool" where
  "product_ok mul \<longleftrightarrow> (\<forall>x p q. 0 \<le> x \<longrightarrow> p \<le> q \<longrightarrow> mul x p \<le> mul x q) \<and> (\<forall>x. mul x 0 = 0 \<and> mul x 1 = x)"

lemma product_ok_exact: "product_ok (*)"
  by (simp add: product_ok_def mult_left_mono)

definition percentile_rank :: "(rat \<Rightarrow> rat \<Rightarrow> rat) \<Rightarrow> nat \<Rightarrow> rat \<Rightarrow> nat" where
  "percentile_rank mul n p = nat (round_half_even (mul (of_nat n) p))"

definition percentile :: "(rat \<Rightarrow> rat \<Rightarrow> rat) \<Rightarrow> rat list \<Rightarrow> rat \<Rightarrow> rat option" where
  "percentile mul values p =
     (if values = [] then None
      else Some (sort values ! percentile_rank mul (length values - 1) p))"

definition latency_ms :: "(rat \<Rightarrow> rat \<Rightarrow> rat) \<Rightarrow> rat list \<Rightarrow> rat option \<Rightarrow> rat option" where
  "latency_ms mul values p =
     (if values = [] then None
      else case p of
        None \<Rightarrow> Some (sum_list values / of_nat (length values) * 1000)
      | Some q \<Rightarrow> map_option (\<lambda>v. v * 1000) (percentile mul values q))"

lemma percentile_rank_bound:
  assumes "product_ok mul" "0 \<le> p" "p \<le> 1"
  shows "percentile_rank mul n p \<le> n"
proof -
  have "mul (of_nat n) 0 \<le> mul (of_nat n) p" "mul (of_nat n) p \<le> mul (of_nat n) 1"
    using assms unfolding product_ok_def by (metis of_nat_0_le_iff)+
  moreover have "mul (of_nat n) 0 = 0" "mul (of_nat n) 1 = of_nat n" using assms(1) by (simp_all add: product_ok_def)
  ultimately have "round_half_even (mul (of_nat n) p) \<in> {0..int n}" by (intro round_half_even_bounds) simp_all
  then show ?thesis unfolding percentile_rank_def by (simp add: nat_le_iff)
qed

lemma percentile_rank_mono: "product_ok mul \<Longrightarrow> p \<le> q \<Longrightarrow> percentile_rank mul n p \<le> percentile_rank mul n q"
  unfolding percentile_rank_def product_ok_def by (intro nat_mono round_half_even_mono) simp

lemma percentile_rank_ends: "product_ok mul \<Longrightarrow> percentile_rank mul n 0 = 0 \<and> percentile_rank mul n 1 = n"
  using round_half_even_of_nat[of 0] by (simp add: percentile_rank_def product_ok_def)

lemma rank_in_list:
  "values \<noteq> [] \<Longrightarrow> i \<le> length values - 1 \<Longrightarrow> i < length (sort values)"
  by (cases "values") simp_all

lemma percentile_member:
  assumes "product_ok mul" "0 \<le> p" "p \<le> 1" "values \<noteq> []"
  shows "\<exists>v \<in> set values. percentile mul values p = Some v"
  using nth_mem[OF rank_in_list[OF assms(4) percentile_rank_bound[OF assms(1-3)]]] assms(4)
  by (simp add: percentile_def)

lemma percentile_mono:
  assumes "product_ok mul" "0 \<le> p" "p \<le> q" "q \<le> 1" "values \<noteq> []"
  shows "\<exists>v w. percentile mul values p = Some v \<and> percentile mul values q = Some w \<and> v \<le> w"
proof -
  let ?i = "percentile_rank mul (length values - 1)"
  have "?i q < length (sort values)"
    using rank_in_list[OF assms(5) percentile_rank_bound[OF assms(1) order_trans[OF assms(2,3)] assms(4)]] .
  then have "sort values ! ?i p \<le> sort values ! ?i q"
    by (intro sorted_nth_mono percentile_rank_mono[OF assms(1,3)]) simp_all
  with assms(5) show ?thesis by (simp add: percentile_def)
qed

lemma sorted_ends:
  assumes "sorted xs" "xs \<noteq> []"
  shows "xs ! 0 = Min (set xs)" "xs ! (length xs - 1) = Max (set xs)"
proof -
  have "\<forall>x \<in> set xs. xs ! 0 \<le> x \<and> x \<le> xs ! (length xs - 1)"
    using assms by (auto simp: in_set_conv_nth intro!: sorted_nth_mono)
  moreover have "xs ! 0 \<in> set xs" "xs ! (length xs - 1) \<in> set xs" using assms(2) by (auto intro!: nth_mem)
  ultimately show "xs ! 0 = Min (set xs)" "xs ! (length xs - 1) = Max (set xs)"
    by (metis Min_eqI List.finite_set, metis Max_eqI List.finite_set)
qed

lemma percentile_ends:
  assumes "product_ok mul" "values \<noteq> []"
  shows "percentile mul values 0 = Some (Min (set values)) \<and> percentile mul values 1 = Some (Max (set values))"
  using sorted_ends[of "sort values"] percentile_rank_ends[OF assms(1), of "length values - 1"] assms(2)
  by (simp add: percentile_def) (metis length_0_conv length_sort)

text \<open>The clock of the model counts nanoseconds.\<close>

definition seconds :: "int \<Rightarrow> rat" where
  "seconds t = of_int t / 10 ^ 9"

section \<open>Throughput\<close>

text \<open>The loop over the units: it stops at the last one whatever the size.\<close>

fun scale_units :: "string list \<Rightarrow> rat \<Rightarrow> string \<Rightarrow> rat \<times> string" where
  "scale_units [] sz unit = (sz, unit)"
| "scale_units (u # us) sz unit =
     (if \<bar>sz\<bar> < 1024 \<or> us = [] then (sz, u) else scale_units us (sz / 1024) u)"

definition rate_units :: "string list" where
  "rate_units = [''B/s'', ''KB/s'', ''MB/s'', ''GB/s'']"

text \<open>\<open>{:.kf}\<close>, which rounds the exact value, halves to even.\<close>

definition digits_of :: "nat \<Rightarrow> nat \<Rightarrow> string" where
  "digits_of k n = (let s = nat_str n in replicate (k - length s) CHR ''0'' @ s)"

definition fixed_point :: "nat \<Rightarrow> rat \<Rightarrow> string" where
  "fixed_point k x =
     (let n = nat (round_half_even (\<bar>x\<bar> * 10 ^ k)) in
      (if x < 0 then ''-'' else []) @ nat_str (n div 10 ^ k) @ ''.'' @ digits_of k (n mod 10 ^ k))"

definition format_bytes_per_second :: "rat \<Rightarrow> string" where
  "format_bytes_per_second value =
     (case scale_units rate_units value ''B/s'' of (sz, unit) \<Rightarrow> fixed_point 2 sz @ '' '' @ unit)"

lemma scale_units_exact:
  "us \<noteq> [] \<Longrightarrow> \<exists>k < length us. scale_units us sz unit = (sz / 1024 ^ k, us ! k)
    \<and> (\<bar>sz / 1024 ^ k\<bar> < 1024 \<or> k = length us - 1) \<and> (0 < k \<longrightarrow> 1 \<le> \<bar>sz / 1024 ^ k\<bar>)"
proof (induction us sz unit rule: scale_units.induct)
  case (2 u us sz unit)
  show ?case
  proof (cases "\<bar>sz\<bar> < 1024 \<or> us = []")
    case True
    then show ?thesis by (intro exI[of _ 0]) auto
  next
    case False
    define y where "y = sz / 1024"
    have y: "1 \<le> \<bar>y\<bar>" "\<And>k. y / 1024 ^ k = sz / 1024 ^ Suc k" using False by (simp_all add: y_def)
    from False have "\<not> (\<bar>sz\<bar> < 1024 \<or> us = [])" "us \<noteq> []" by simp_all
    note ih = 2(1)[OF this, folded y_def]
    obtain k where k: "k < length us" "scale_units us y u = (y / 1024 ^ k, us ! k)"
      "\<bar>y / 1024 ^ k\<bar> < 1024 \<or> k = length us - 1" "0 < k \<longrightarrow> 1 \<le> \<bar>y / 1024 ^ k\<bar>"
      by (rule exE[OF ih], elim conjE) (rule that)
    have "scale_units (u # us) sz unit = scale_units us y u" using False by (simp add: y_def)
    moreover from k(4) y(1) have "1 \<le> \<bar>y / 1024 ^ k\<bar>" by (cases "k = 0") simp_all
    moreover have "Suc k < length (u # us)" "(u # us) ! Suc k = us ! k"
      "k = length us - 1 \<Longrightarrow> Suc k = length (u # us) - 1" using k(1) by simp_all
    ultimately show ?thesis using k unfolding y(2) by metis
  qed
qed simp

end
