(* ===== verification/Cases.thy ===== *)
theory Cases
  imports Report "HOL-Library.Multiset"
begin

text \<open>
  The cases of \<^verbatim>\<open>integration_tests/perf_echo.py\<close>: their table, the arguments that override it, a run of a
  case with each of the three engines, its result, and \<open>main\<close>.
\<close>

section \<open>The table of cases and the arguments\<close>

record case_spec =
  cs_name :: string
  cs_connections :: int
  cs_messages :: int
  cs_payload_size :: int
  cs_sequential :: bool
  cs_client_eventloops :: int

definition new_spec :: "string \<Rightarrow> int \<Rightarrow> int \<Rightarrow> int \<Rightarrow> bool \<Rightarrow> case_spec" where
  "new_spec name connections messages payload_size sequential =
     \<lparr>cs_name = name, cs_connections = connections, cs_messages = messages, cs_payload_size = payload_size,
       cs_sequential = sequential, cs_client_eventloops = 1\<rparr>"

definition named :: "case_spec list \<Rightarrow> (string, case_spec) dict" where
  "named specs = map (\<lambda>s. (cs_name s, s)) specs"

definition DEFAULT_CASES :: "(string, case_spec) dict" where
  "DEFAULT_CASES = named
     [new_spec ''single_connection_latency'' 1 200 64 True,
      new_spec ''small_payload_concurrency'' 32 200 1024 False,
      new_spec ''large_payload_throughput'' 16 32 (64 * 1024) False,
      new_spec ''connection_ramp_up'' 64 1 64 False,
      new_spec ''backpressure_smoke'' 8 32 (64 * 1024) False]"

definition HIGH_CONNECTION_CASES :: "(string, case_spec) dict" where
  "HIGH_CONNECTION_CASES = named
     [new_spec ''high_connection_128'' 128 20 1024 False,
      new_spec ''high_connection_256'' 256 20 1024 False,
      new_spec ''high_connection_512'' 512 20 1024 False]"

definition CASE_GROUPS :: "(string, string list) dict" where
  "CASE_GROUPS = [(''all'', map fst DEFAULT_CASES), (''high_connection_scaling'', map fst HIGH_CONNECTION_CASES)]"

definition ALL_CASES :: "(string, case_spec) dict" where
  "ALL_CASES = DEFAULT_CASES @ HIGH_CONNECTION_CASES"

record args =
  ar_case :: string
  ar_engine :: string
  ar_host :: string
  ar_port :: "int option"
  ar_timeout :: rat
  ar_connections :: "int option"
  ar_messages :: "int option"
  ar_payload_size :: "int option"
  ar_sequential :: "bool option"
  ar_client_eventloops :: "int option"
  ar_json :: bool

text \<open>Python's \<open>or\<close> on a number: both \<open>None\<close> and 0 are false.\<close>

definition int_or :: "int option \<Rightarrow> int \<Rightarrow> int" where
  "int_or n d = (case n of Some v \<Rightarrow> (if v \<noteq> 0 then v else d) | None \<Rightarrow> d)"

definition apply_overrides :: "case_spec \<Rightarrow> args \<Rightarrow> case_spec" where
  "apply_overrides spec a =
     \<lparr>cs_name = cs_name spec,
       cs_connections = int_or (ar_connections a) (cs_connections spec),
       cs_messages = int_or (ar_messages a) (cs_messages spec),
       cs_payload_size = int_or (ar_payload_size a) (cs_payload_size spec),
       cs_sequential = (case ar_sequential a of None \<Rightarrow> cs_sequential spec | Some b \<Rightarrow> b),
       cs_client_eventloops = int_or (ar_client_eventloops a) (cs_client_eventloops spec)\<rparr>"

definition ENGINES :: "string list" where
  "ENGINES = [''py-netty'', ''asyncio'', ''threaded'']"

text \<open>What the parser accepts: the choices it declares, and the checks that follow it.\<close>

definition check_args :: "bool \<Rightarrow> args \<Rightarrow> string + args" where
  "check_args host_provided a =
     (if ar_case a \<notin> set (map fst CASE_GROUPS @ map fst ALL_CASES) then Inl ''invalid choice''
      else if ar_engine a \<notin> set (''all'' # ENGINES) then Inl ''invalid choice''
      else if host_provided \<and> ar_port a = None then Inl ''--port is required when --host is provided.''
      else if (case ar_port a of Some p \<Rightarrow> \<not> (0 < p \<and> p < 65536) | None \<Rightarrow> False)
      then Inl ''--port must be between 1 and 65535.''
      else if (case ar_client_eventloops a of Some n \<Rightarrow> n < 1 | None \<Rightarrow> False)
      then Inl ''--client-eventloops must be at least 1.''
      else Inr a)"

section \<open>The result of a case\<close>

datatype case_error = RunError frame_error | TimedOut rat nat int

record case_result =
  cr_engine :: string
  cr_case :: string
  cr_connections :: int
  cr_messages_per_connection :: int
  cr_payload_size :: int
  cr_sent_messages :: int
  cr_received_messages :: nat
  cr_sent_bytes :: int
  cr_received_bytes :: nat
  cr_elapsed_seconds :: rat
  cr_ramp_up_seconds :: rat
  cr_bytes_per_second :: rat
  cr_messages_per_second :: rat
  cr_latency_avg_ms :: "rat option"
  cr_latency_p50_ms :: "rat option"
  cr_latency_p95_ms :: "rat option"
  cr_latency_p99_ms :: "rat option"
  cr_errors :: "case_error list"
  cr_timed_out :: bool

definition build_result ::
    "(rat \<Rightarrow> rat \<Rightarrow> rat) \<Rightarrow> string \<Rightarrow> case_spec \<Rightarrow> run_state \<Rightarrow> int \<Rightarrow> int \<Rightarrow> rat \<Rightarrow> rat \<Rightarrow> bool \<Rightarrow> rat \<Rightarrow> case_result" where
  "build_result mul engine spec run sent_messages sent_bytes elapsed_seconds ramp_up_seconds timed_out timeout =
     (let errors = map RunError (rs_errors run)
            @ (if timed_out then [TimedOut timeout (rs_received_messages run) sent_messages] else []);
          elapsed = (if elapsed_seconds \<le> 0 then 1 / 10 ^ 6 else elapsed_seconds);
          latencies = map seconds (rs_latencies run) in
      \<lparr>cr_engine = engine, cr_case = cs_name spec, cr_connections = cs_connections spec,
        cr_messages_per_connection = cs_messages spec, cr_payload_size = cs_payload_size spec,
        cr_sent_messages = sent_messages, cr_received_messages = rs_received_messages run,
        cr_sent_bytes = sent_bytes, cr_received_bytes = rs_received_bytes run,
        cr_elapsed_seconds = elapsed, cr_ramp_up_seconds = ramp_up_seconds,
        cr_bytes_per_second = of_nat (rs_received_bytes run) / elapsed,
        cr_messages_per_second = of_nat (rs_received_messages run) / elapsed,
        cr_latency_avg_ms = latency_ms mul latencies None,
        cr_latency_p50_ms = latency_ms mul latencies (Some (50/100)),
        cr_latency_p95_ms = latency_ms mul latencies (Some (95/100)),
        cr_latency_p99_ms = latency_ms mul latencies (Some (99/100)),
        cr_errors = errors, cr_timed_out = timed_out\<rparr>)"

definition failed :: "case_result \<Rightarrow> bool" where
  "failed r \<longleftrightarrow> cr_errors r \<noteq> [] \<or> cr_timed_out r"

definition int_str :: "int \<Rightarrow> string" where
  "int_str i = (if i < 0 then ''-'' else []) @ nat_str (nat \<bar>i\<bar>)"

text \<open>The lines printed for a result; \<open>text\<close> is what the errors say.\<close>

definition print_result :: "(case_error \<Rightarrow> string) \<Rightarrow> case_result \<Rightarrow> string list" where
  "print_result text r =
     [''['' @ (if failed r then ''FAIL'' else ''OK'') @ ''] '' @ cr_engine r @ '' / '' @ cr_case r,
      ''  connections: '' @ int_str (cr_connections r),
      ''  messages:    '' @ nat_str (cr_received_messages r) @ ''/'' @ int_str (cr_sent_messages r),
      ''  payload:     '' @ int_str (cr_payload_size r) @ '' bytes'',
      ''  elapsed:     '' @ fixed_point 3 (cr_elapsed_seconds r) @ ''s'',
      ''  ramp-up:     '' @ fixed_point 3 (cr_ramp_up_seconds r) @ ''s'',
      ''  throughput:  '' @ format_bytes_per_second (cr_bytes_per_second r),
      ''  msg rate:    '' @ fixed_point 2 (cr_messages_per_second r) @ '' msg/s'']
     @ (case (cr_latency_avg_ms r, cr_latency_p50_ms r, cr_latency_p95_ms r, cr_latency_p99_ms r) of
          (Some avg, Some p50, Some p95, Some p99) \<Rightarrow>
            [''  latency:     '' @ ''avg='' @ fixed_point 3 avg @ ''ms '' @ ''p50='' @ fixed_point 3 p50 @ ''ms ''
               @ ''p95='' @ fixed_point 3 p95 @ ''ms '' @ ''p99='' @ fixed_point 3 p99 @ ''ms'']
        | _ \<Rightarrow> [])
     @ (if cr_errors r \<noteq> [] then ''  errors:'' # map (\<lambda>e. ''    - '' @ text e) (cr_errors r) else [])"

section \<open>Calls from several clients\<close>

text \<open>The clients of a case run in threads or tasks of their own and share the run, which each call changes
  under its lock.  A run of the case is an interleaving of the clients' calls: \<open>sched\<close> names the client
  that makes the next one; when it is used up, the rest follow in order.\<close>

fun merge_logs :: "nat list \<Rightarrow> 'e list list \<Rightarrow> 'e list" where
  "merge_logs [] logs = concat logs"
| "merge_logs (i # sched) logs =
     (if i < length logs
      then (case logs ! i of
              [] \<Rightarrow> merge_logs sched logs
            | e # es \<Rightarrow> e # merge_logs sched (logs[i := es]))
      else merge_logs sched logs)"

definition apply_events :: "run_event list \<Rightarrow> run_state \<Rightarrow> run_state" where
  "apply_events events run = fold apply_event events run"

fun record_connects ::
    "(nat \<times> (exn + 's)) list \<Rightarrow> run_state \<Rightarrow> (nat \<times> 's) list \<Rightarrow> run_state \<times> (nat \<times> 's) list" where
  "record_connects [] run active = (run, active)"
| "record_connects ((i, Inl e) # connects) run active =
     record_connects connects (record_error (ConnectFailed i e) run) active"
| "record_connects ((i, Inr s) # connects) run active = record_connects connects run (active @ [(i, s)])"

section \<open>A case with each engine\<close>

text \<open>What a run of a case meets.  \<open>ce_connects\<close> are the clients whose connecting ended in time and how, in
  the order in which it ended; \<open>ce_connect_timeout\<close> that not all did, \<open>ce_clients_timeout\<close> that the
  clients did not end in time.  \<open>ce_give\<close>, \<open>ce_peer\<close> and \<open>ce_clock\<close> are the arguments of the clients;
  \<open>ce_done i\<close> is how many of its calls the cancelled task \<open>i\<close> has made.\<close>

record case_env =
  ce_connects :: "(nat \<times> (exn + bsock)) list"
  ce_connect_timeout :: bool
  ce_clients_timeout :: bool
  ce_give :: "nat \<Rightarrow> nat \<Rightarrow> nat"
  ce_peer :: "bytes \<Rightarrow> bytes"
  ce_clock :: "nat \<Rightarrow> nat \<Rightarrow> int"
  ce_sched :: "nat list"
  ce_done :: "nat \<Rightarrow> nat"
  ce_ramp_up :: rat
  ce_elapsed :: rat

definition engine_client ::
    "((nat \<Rightarrow> nat) \<Rightarrow> (bytes \<Rightarrow> bytes) \<Rightarrow> (nat \<Rightarrow> int) \<Rightarrow> nat \<Rightarrow> nat \<Rightarrow> nat \<Rightarrow> bool \<Rightarrow> engine_state \<Rightarrow> unit outcome \<times> engine_state)
      \<Rightarrow> case_env \<Rightarrow> case_spec \<Rightarrow> nat \<times> bsock \<Rightarrow> run_event list" where
  "engine_client client E spec p =
     (case p of (i, sock) \<Rightarrow>
        en_log (snd (client (ce_give E i) (ce_peer E) (ce_clock E i) i (nat (cs_messages spec))
          (nat (cs_payload_size spec)) (cs_sequential spec) \<lparr>en_log = [], en_sock = sock, en_ticks = 0\<rparr>)))"

text \<open>The pool's threads all end before the result is built, also after a timeout; \<open>ThreadPoolExecutor\<close>
  wants at least one worker.\<close>

definition run_threaded_case ::
    "(rat \<Rightarrow> rat \<Rightarrow> rat) \<Rightarrow> case_env \<Rightarrow> case_spec \<Rightarrow> rat \<Rightarrow> exn + case_result" where
  "run_threaded_case mul E spec timeout =
     (if cs_payload_size spec < int header_size then Inl ValueError
      else if cs_connections spec \<le> 0 then Inl ValueError
      else
        let sent_messages = cs_connections spec * cs_messages spec;
            sent_bytes = sent_messages * cs_payload_size spec in
        case record_connects (ce_connects E) (new_run (nat (cs_connections spec))) [] of (run, active) \<Rightarrow>
        let logs = map (engine_client threaded_client E spec) active;
            run = apply_events (merge_logs (ce_sched E) logs) run;
            timed_out = (ce_connect_timeout E \<or> ce_clients_timeout E \<or> \<not> rs_done run) in
        Inr (build_result mul ''threaded'' spec run sent_messages sent_bytes (ce_elapsed E) (ce_ramp_up E)
          timed_out timeout))"

text \<open>All connections are tried, however long it takes; after a timeout the tasks are cancelled, which
  their \<open>except Exception\<close> does not catch.\<close>

definition run_asyncio_case ::
    "(rat \<Rightarrow> rat \<Rightarrow> rat) \<Rightarrow> case_env \<Rightarrow> case_spec \<Rightarrow> rat \<Rightarrow> exn + case_result" where
  "run_asyncio_case mul E spec timeout =
     (if cs_payload_size spec < int header_size then Inl ValueError
      else
        let sent_messages = cs_connections spec * cs_messages spec;
            sent_bytes = sent_messages * cs_payload_size spec;
            connections = zip [0..<nat (cs_connections spec)] (map snd (ce_connects E)) in
        case record_connects connections (new_run (nat (cs_connections spec))) [] of (run, active) \<Rightarrow>
        let timed_out = (if active = [] then True else ce_clients_timeout E);
            logs = map (\<lambda>p. (if timed_out then take (ce_done E (fst p)) else id)
              (engine_client (\<lambda>_. asyncio_client) E spec p)) active;
            run = apply_events (merge_logs (ce_sched E) logs) run in
        Inr (build_result mul ''asyncio'' spec run sent_messages sent_bytes (ce_elapsed E) (ce_ramp_up E)
          timed_out timeout))"

text \<open>The library's engine.  What the loops of the client group do with the data that arrives is one delivery
  after the other per client: \<open>channel_read\<close> of \<open>_PerfClientHandler\<close>, and \<open>exception_caught\<close> when it raises.\<close>

primrec deliver :: "(nat \<Rightarrow> int) \<Rightarrow> bytes list \<Rightarrow> client_state \<Rightarrow> client_state" where
  "deliver clock [] c = c"
| "deliver clock (d # ds) c =
     deliver clock ds
       (case feed clock d c of
          (Raise e, c') \<Rightarrow> c'\<lparr>cl_run := record_error (OnConnection (cl_connection_id c') e) (cl_run c')\<rparr>
        | (_, c') \<Rightarrow> c')"

text \<open>The calls of one client, from its start on; it starts with \<open>send_next\<close> or \<open>send_all\<close>, in the main
  thread, and the data \<open>nc_data\<close> arrives after that call.\<close>

record netty_env =
  nc_connects :: "(exn + unit) list"
  nc_data :: "nat \<Rightarrow> bytes list"
  nc_clock :: "nat \<Rightarrow> nat \<Rightarrow> int"
  nc_sched :: "nat list"
  nc_waited :: nat           \<comment> \<open>how many calls were made when \<open>run.wait\<close> returned\<close>
  nc_closes :: "exn option list"
  nc_ramp_up :: rat
  nc_elapsed :: rat

definition netty_client :: "netty_env \<Rightarrow> case_spec \<Rightarrow> nat \<Rightarrow> (exn + run_event list) option" where
  "netty_client E spec i =
     (case start_client (nc_clock E i) (connected_client (nat (cs_connections spec)) i (nat (cs_messages spec))
             (nat (cs_payload_size spec)) (cs_sequential spec)) of
        None \<Rightarrow> None
      | Some (Raise e, c) \<Rightarrow> Some (Inl e)
      | Some (Diverge, c) \<Rightarrow> None
      | Some (Ret _, c) \<Rightarrow> Some (Inr (rs_log (cl_run (deliver (nc_clock E i) (nc_data E i) c)))))"

text \<open>The clients in their order; the first that raises ends the case.\<close>

fun netty_clients :: "netty_env \<Rightarrow> case_spec \<Rightarrow> nat list \<Rightarrow> (exn + run_event list list) option" where
  "netty_clients E spec [] = Some (Inr [])"
| "netty_clients E spec (i # is) =
     (case netty_client E spec i of
        None \<Rightarrow> None
      | Some (Inl e) \<Rightarrow> Some (Inl e)
      | Some (Inr calls) \<Rightarrow> map_option (map_sum id ((#) calls)) (netty_clients E spec is))"

definition close_errors :: "exn option list \<Rightarrow> run_event list" where
  "close_errors closes = map (\<lambda>e. Error (CloseFailed e)) (List.map_filter id closes)"

definition run_py_netty_case ::
    "(rat \<Rightarrow> rat \<Rightarrow> rat) \<Rightarrow> netty_env \<Rightarrow> case_spec \<Rightarrow> rat \<Rightarrow> (exn + case_result) option" where
  "run_py_netty_case mul E spec timeout =
     (if cs_payload_size spec < int header_size then Some (Inl ValueError)
      else
        let sent_messages = cs_connections spec * cs_messages spec;
            sent_bytes = sent_messages * cs_payload_size spec;
            connections = zip [0..<nat (cs_connections spec)] (nc_connects E) in
        case record_connects connections (new_run (nat (cs_connections spec))) [] of (run, channels) \<Rightarrow>
        (case netty_clients E spec (map fst channels) of
           None \<Rightarrow> None
         | Some (Inl e) \<Rightarrow> Some (Inl e)
         | Some (Inr logs) \<Rightarrow>
             let events = merge_logs (nc_sched E) logs;
                 timed_out = (\<not> rs_done (apply_events (take (nc_waited E) events) run));
                 run = apply_events (events @ close_errors (nc_closes E)) run in
             Some (Inr (build_result mul ''py-netty'' spec run sent_messages sent_bytes (nc_elapsed E)
               (nc_ramp_up E) timed_out timeout))))"

section \<open>The command\<close>

text \<open>What the cases meet, per engine, is given by \<open>N\<close>, \<open>A\<close> and \<open>T\<close>.\<close>

definition run_case ::
    "(rat \<Rightarrow> rat \<Rightarrow> rat) \<Rightarrow> (case_spec \<Rightarrow> netty_env) \<Rightarrow> (case_spec \<Rightarrow> case_env) \<Rightarrow> (case_spec \<Rightarrow> case_env)
      \<Rightarrow> case_spec \<Rightarrow> string \<Rightarrow> rat \<Rightarrow> (exn + case_result) option" where
  "run_case mul N A T spec engine timeout =
     (if engine = ''py-netty'' then run_py_netty_case mul (N spec) spec timeout
      else if engine = ''asyncio'' then Some (run_asyncio_case mul (A spec) spec timeout)
      else if engine = ''threaded'' then Some (run_threaded_case mul (T spec) spec timeout)
      else Some (Inl ValueError))"

text \<open>\<open>_parse_args\<close> ends the process itself; then the cases are run one by one, with each engine, and the exit
  code tells whether one failed.\<close>

definition selected_cases :: "args \<Rightarrow> case_spec list" where
  "selected_cases a =
     (case dict_get CASE_GROUPS (ar_case a) of
        Some names \<Rightarrow> List.map_filter (dict_get ALL_CASES) names
      | None \<Rightarrow> (case dict_get ALL_CASES (ar_case a) of Some s \<Rightarrow> [s] | None \<Rightarrow> []))"

definition selected_engines :: "args \<Rightarrow> string list" where
  "selected_engines a = (if ar_engine a = ''all'' then ENGINES else [ar_engine a])"

fun run_all ::
    "(case_spec \<Rightarrow> string \<Rightarrow> (exn + case_result) option) \<Rightarrow> (case_spec \<times> string) list \<Rightarrow> case_result list
      \<Rightarrow> (exn + case_result list) option" where
  "run_all run [] results = Some (Inr results)"
| "run_all run ((spec, engine) # rest) results =
     (case run spec engine of
        None \<Rightarrow> None
      | Some (Inl e) \<Rightarrow> Some (Inl e)
      | Some (Inr r) \<Rightarrow> run_all run rest (results @ [r]))"

definition main_run ::
    "(rat \<Rightarrow> rat \<Rightarrow> rat) \<Rightarrow> (case_spec \<Rightarrow> netty_env) \<Rightarrow> (case_spec \<Rightarrow> case_env) \<Rightarrow> (case_spec \<Rightarrow> case_env)
      \<Rightarrow> args \<Rightarrow> (exn + (case_result list \<times> int)) option" where
  "main_run mul N A T a =
     map_option (map_sum id (\<lambda>results. (results, if \<exists>r \<in> set results. failed r then 1 else 0)))
       (run_all (\<lambda>spec engine. run_case mul N A T (apply_overrides spec a) engine (ar_timeout a))
          (List.product (selected_cases a) (selected_engines a)) [])"

end
