(* ===== verification/Verdicts.thy ===== *)
theory Verdicts
  imports Cases
begin

text \<open>
  What the result of a case tells: with a peer that echoes, the case passes with every engine, however the
  clients' calls interleave; and a case that passes has had every message echoed, whatever the peer does.
\<close>

section \<open>Interleaved calls add up\<close>

lemma mset_concat_update:
  "i < length logs \<Longrightarrow> logs ! i = e # es \<Longrightarrow> mset (concat logs) = add_mset e (mset (concat (logs[i := es])))"
  by (subst id_take_nth_drop[of i logs], assumption) (simp add: upd_conv_take_nth_drop)

lemma merge_logs_mset: "mset (merge_logs sched logs) = mset (concat logs)"
  by (induction sched logs rule: merge_logs.induct) (auto split: list.split simp: mset_concat_update)

fun ev_messages :: "run_event \<Rightarrow> nat" where
  "ev_messages (Message n l) = 1"
| "ev_messages _ = 0"

fun ev_bytes :: "run_event \<Rightarrow> nat" where
  "ev_bytes (Message n l) = n"
| "ev_bytes _ = 0"

fun ev_completes :: "run_event \<Rightarrow> nat" where
  "ev_completes Complete = 1"
| "ev_completes _ = 0"

fun ev_errors :: "run_event \<Rightarrow> frame_error list" where
  "ev_errors (Error e) = [e]"
| "ev_errors _ = []"

lemma apply_events_simps [simp]:
  "apply_events [] r = r" "apply_events (e # L) r = apply_events L (apply_event e r)"
  by (simp_all add: apply_events_def)

lemma apply_event_fields [simp]:
  "rs_received_messages (apply_event e r) = rs_received_messages r + ev_messages e"
  "rs_received_bytes (apply_event e r) = rs_received_bytes r + ev_bytes e"
  "rs_completed (apply_event e r) = rs_completed r + ev_completes e"
  "rs_errors (apply_event e r) = rs_errors r @ ev_errors e"
  "rs_total (apply_event e r) = rs_total r"
  "rs_log (apply_event e r) = rs_log r @ [e]"
  by (cases e; simp add: record_message_def record_error_def mark_connection_complete_def Let_def)+

lemma apply_event_done:
  "rs_done (apply_event e r) \<longleftrightarrow> rs_done r \<or> ev_errors e \<noteq> [] \<or> (e = Complete \<and> Suc (rs_completed r) = rs_total r)"
  by (cases e) (simp_all add: record_message_def record_error_def mark_connection_complete_def Let_def)

lemma apply_events_fields:
  "rs_received_messages (apply_events L r) = rs_received_messages r + sum_list (map ev_messages L)"
  "rs_received_bytes (apply_events L r) = rs_received_bytes r + sum_list (map ev_bytes L)"
  "rs_completed (apply_events L r) = rs_completed r + sum_list (map ev_completes L)"
  "rs_errors (apply_events L r) = rs_errors r @ concat (map ev_errors L)"
  "rs_total (apply_events L r) = rs_total r"
  "rs_log (apply_events L r) = rs_log r @ L"
  by (induction L arbitrary: r) simp_all

lemma apply_events_done:
  "rs_done (apply_events L r) \<longleftrightarrow> rs_done r \<or> concat (map ev_errors L) \<noteq> []
     \<or> (rs_completed r < rs_total r \<and> rs_total r \<le> rs_completed r + sum_list (map ev_completes L))"
proof (induction L arbitrary: r)
  case (Cons e L)
  have "ev_completes e = (if e = Complete then 1 else 0)" by (cases e) simp_all
  then show ?case unfolding apply_events_simps Cons.IH apply_event_done by auto
qed auto

text \<open>A sum over the calls does not depend on how they interleave.\<close>

lemma sum_merge:
  fixes f :: "'e \<Rightarrow> nat"
  shows "sum_list (map f (merge_logs sched logs)) = sum_list (map (\<lambda>l. sum_list (map f l)) logs)"
proof -
  have "sum_list (map f (merge_logs sched logs)) = sum_list (map f (concat logs))"
    using arg_cong[OF merge_logs_mset[of sched logs], of "\<lambda>M. sum_mset (image_mset f M)"]
    by (simp only: mset_map[symmetric] sum_mset_sum_list)
  moreover have "sum_list (map f (concat logs)) = sum_list (map (\<lambda>l. sum_list (map f l)) logs)"
    by (induction logs) simp_all
  ultimately show ?thesis by simp
qed

lemma set_merge: "set (merge_logs sched logs) = \<Union> (set ` set logs)"
  by (metis merge_logs_mset set_concat set_mset_mset)

section \<open>A peer that echoes\<close>

lemma read_log_sums:
  assumes "read_log n m m l"
  shows "sum_list (map ev_messages l) = m" "sum_list (map ev_bytes l) = m * n"
    "sum_list (map ev_completes l) = 1" "\<forall>e \<in> set l. ev_errors e = []"
proof -
  obtain ls where ls: "length ls = m" "l = map (Message n) ls @ [Complete]"
    using assms by (auto simp: read_log_def)
  have "sum_list (map (\<lambda>x. c) ls) = m * c" for c :: nat using ls(1) by (simp add: sum_list_triv)
  then show "sum_list (map ev_messages l) = m" "sum_list (map ev_bytes l) = m * n"
    "sum_list (map ev_completes l) = 1" "\<forall>e \<in> set l. ev_errors e = []"
    by (auto simp: ls(2) o_def)
qed

lemma sum_const: "(\<And>l. l \<in> set logs \<Longrightarrow> f l = (c :: nat)) \<Longrightarrow> sum_list (map f logs) = length logs * c"
  by (induction logs) simp_all

lemma complete_run:
  assumes "\<forall>l \<in> set logs. read_log n m m l" "logs \<noteq> []"
  shows "\<exists>r. apply_events (merge_logs sched logs) (new_run (length logs)) = r \<and> rs_done r \<and> rs_errors r = []
    \<and> rs_received_messages r = length logs * m \<and> rs_received_bytes r = length logs * m * n"
proof -
  let ?L = "merge_logs sched logs"
  have "concat (map ev_errors ?L) = []" using assms(1) read_log_sums(4) by (auto simp: set_merge)
  moreover have "sum_list (map ev_messages ?L) = length logs * m" "sum_list (map ev_bytes ?L) = length logs * (m * n)"
    unfolding sum_merge using assms(1) by (auto intro!: sum_const dest: read_log_sums)
  moreover have "sum_list (map ev_completes ?L) = length logs * 1"
    unfolding sum_merge by (intro sum_const) (metis assms(1) read_log_sums(3))
  ultimately show ?thesis using assms(2)
    by (simp add: apply_events_fields apply_events_done new_run_def)
qed

text \<open>A case whose numbers fit the header of a frame, and a result with every message echoed.\<close>

definition spec_ok :: "case_spec \<Rightarrow> bool" where
  "spec_ok spec \<longleftrightarrow> int header_size \<le> cs_payload_size spec \<and> 0 < cs_connections spec
     \<and> cs_connections spec \<le> 2 ^ 32 \<and> 0 < cs_messages spec \<and> cs_messages spec \<le> 2 ^ 32"

definition all_echoed :: "case_spec \<Rightarrow> case_result \<Rightarrow> bool" where
  "all_echoed spec r \<longleftrightarrow> cr_sent_messages r = cs_connections spec * cs_messages spec
     \<and> cr_sent_bytes r = cr_sent_messages r * cs_payload_size spec
     \<and> int (cr_received_messages r) = cr_sent_messages r \<and> int (cr_received_bytes r) = cr_sent_bytes r"

lemma build_result_echoed:
  assumes "spec_ok spec" "rs_errors run = []" "c = nat (cs_connections spec)" "m = nat (cs_messages spec)"
    and "rs_received_messages run = c * m" "rs_received_bytes run = c * m * nat (cs_payload_size spec)"
    and "r = build_result mul engine spec run (cs_connections spec * cs_messages spec)
        (cs_connections spec * cs_messages spec * cs_payload_size spec) elapsed ramp_up False timeout"
  shows "all_echoed spec r \<and> \<not> failed r"
  using assms by (simp add: build_result_def all_echoed_def failed_def spec_ok_def header_size_def Let_def)

lemma record_connects_ok:
  "record_connects (map (\<lambda>(i, s). (i, Inr s)) ps) run active = (run, active @ ps)"
  by (induction ps arbitrary: active) auto

lemma counted_read_log: "counted n m l \<Longrightarrow> read_log n m m (l @ [Complete])"
  by (auto simp: counted_def read_log_def)

lemma engine_client_echo:
  assumes "client = threaded_client \<or> client = (\<lambda>_. asyncio_client)" "spec_ok spec" "ce_peer E = (\<lambda>x. x)"
    and "int i < cs_connections spec" "bs_in s = []"
  shows "read_log (nat (cs_payload_size spec)) (nat (cs_messages spec)) (nat (cs_messages spec))
    (engine_client client E spec (i, s))"
proof -
  have "8 \<le> nat (cs_payload_size spec)" "i < 2 ^ 32" "nat (cs_messages spec) \<le> 2 ^ 32"
    using assms(2,4) by (simp_all add: spec_ok_def header_size_def nat_le_iff, linarith)
  note e = threaded_client_echo[OF this] asyncio_client_echo[OF this]
  let ?S = "\<lparr>en_log = [], en_sock = s, en_ticks = 0\<rparr>"
  obtain S' l where "client (ce_give E i) (\<lambda>x. x) (ce_clock E i) i (nat (cs_messages spec))
      (nat (cs_payload_size spec)) (cs_sequential spec) ?S = (Ret (), S')"
    "counted (nat (cs_payload_size spec)) (nat (cs_messages spec)) l" "en_log S' = l @ [Complete]"
    using assms(1) e(1)[of ?S "ce_give E i" "ce_clock E i" "cs_sequential spec"]
      e(2)[of ?S "ce_clock E i" "cs_sequential spec"] assms(5) by auto
  then show ?thesis by (simp add: engine_client_def assms(3) counted_read_log)
qed

text \<open>Every client gets its connection, in whatever order and with nothing received on it yet.\<close>

definition all_connected :: "case_env \<Rightarrow> case_spec \<Rightarrow> bool" where
  "all_connected E spec \<longleftrightarrow> distinct (map fst (ce_connects E))
     \<and> set (map fst (ce_connects E)) = {0..<nat (cs_connections spec)}
     \<and> (\<forall>(i, r) \<in> set (ce_connects E). \<exists>s. r = Inr s \<and> bs_in s = [])"

lemma all_connectedE:
  assumes "all_connected E spec"
  obtains ps where "ce_connects E = map (\<lambda>(i, s). (i, Inr s)) ps" "length ps = nat (cs_connections spec)"
    "\<forall>(i, s) \<in> set ps. int i < cs_connections spec \<and> bs_in s = []"
proof -
  let ?ps = "map (\<lambda>(i, r). (i, projr r)) (ce_connects E)"
  have r: "\<forall>(i, r) \<in> set (ce_connects E). r = Inr (projr r) \<and> bs_in (projr r) = []"
    using assms by (fastforce simp: all_connected_def)
  have n: "i < nat (cs_connections spec)" if "(i, r) \<in> set (ce_connects E)" for i r
    using assms imageI[OF that, of fst] by (simp add: all_connected_def)
  have "length (ce_connects E) = card (set (map fst (ce_connects E)))"
    using assms by (metis all_connected_def distinct_card length_map)
  also have "\<dots> = nat (cs_connections spec)" using assms by (simp add: all_connected_def)
  finally have "length ?ps = nat (cs_connections spec)" by simp
  moreover have "ce_connects E = map (\<lambda>(i, s). (i, Inr s)) ?ps"
    using r by (auto intro!: map_idI[symmetric] simp: o_def)
  moreover have "\<forall>(i, s) \<in> set ?ps. int i < cs_connections spec \<and> bs_in s = []"
  proof clarsimp
    fix i r' assume i: "(i, r') \<in> set (ce_connects E)"
    show "int i < cs_connections spec \<and> bs_in (projr r') = []" using n[OF i] bspec[OF r i] by simp
  qed
  ultimately show thesis using that by blast
qed

text \<open>The case passes with the threaded engine.\<close>

lemma threaded_case_passes:
  assumes "spec_ok spec" "ce_peer E = (\<lambda>x. x)" "all_connected E spec"
    and "\<not> ce_connect_timeout E" "\<not> ce_clients_timeout E"
  shows "\<exists>r. run_threaded_case mul E spec timeout = Inr r \<and> all_echoed spec r \<and> \<not> failed r"
proof -
  from assms(3) obtain ps where ps: "ce_connects E = map (\<lambda>(i, s). (i, Inr s)) ps"
    "length ps = nat (cs_connections spec)" "\<forall>(i, s) \<in> set ps. int i < cs_connections spec \<and> bs_in s = []"
    by (rule all_connectedE)
  let ?logs = "map (engine_client threaded_client E spec) ps"
  have "\<forall>l \<in> set ?logs. read_log (nat (cs_payload_size spec)) (nat (cs_messages spec)) (nat (cs_messages spec)) l"
    using ps(3) by (auto intro!: engine_client_echo assms(1,2))
  moreover have "?logs \<noteq> []" using ps(2) assms(1) by (auto simp: spec_ok_def)
  ultimately obtain run where run: "apply_events (merge_logs (ce_sched E) ?logs) (new_run (nat (cs_connections spec))) = run"
    "rs_done run" "rs_errors run = []" "rs_received_messages run = nat (cs_connections spec) * nat (cs_messages spec)"
    "rs_received_bytes run = nat (cs_connections spec) * nat (cs_messages spec) * nat (cs_payload_size spec)"
    using complete_run[of ?logs _ _ "ce_sched E"] ps(2) by auto
  have ok: "\<not> cs_payload_size spec < int header_size" "\<not> cs_connections spec \<le> 0"
    using assms(1) by (simp_all add: spec_ok_def)
  show ?thesis
    using build_result_echoed[OF assms(1) run(3) refl refl run(4,5) refl] assms(4,5) run(1,2) ok
    by (simp add: run_threaded_case_def ps(1) record_connects_ok Let_def)
qed

text \<open>With the asyncio engine, which keeps the connections in the order of the clients.\<close>

lemma asyncio_case_passes:
  assumes "spec_ok spec" "ce_peer E = (\<lambda>x. x)" "all_connected E spec"
    and "map fst (ce_connects E) = [0..<nat (cs_connections spec)]" "\<not> ce_clients_timeout E"
  shows "\<exists>r. run_asyncio_case mul E spec timeout = Inr r \<and> all_echoed spec r \<and> \<not> failed r"
proof -
  from assms(3) obtain ps where ps: "ce_connects E = map (\<lambda>(i, s). (i, Inr s)) ps"
    "length ps = nat (cs_connections spec)" "\<forall>(i, s) \<in> set ps. int i < cs_connections spec \<and> bs_in s = []"
    by (rule all_connectedE)
  let ?logs = "map (engine_client (\<lambda>_. asyncio_client) E spec) ps"
  have "\<forall>l \<in> set ?logs. read_log (nat (cs_payload_size spec)) (nat (cs_messages spec)) (nat (cs_messages spec)) l"
    using ps(3) by (auto intro!: engine_client_echo assms(1,2))
  moreover have ne: "?logs \<noteq> []" using ps(2) assms(1) by (auto simp: spec_ok_def)
  ultimately obtain run where run: "apply_events (merge_logs (ce_sched E) ?logs) (new_run (nat (cs_connections spec))) = run"
    "rs_done run" "rs_errors run = []" "rs_received_messages run = nat (cs_connections spec) * nat (cs_messages spec)"
    "rs_received_bytes run = nat (cs_connections spec) * nat (cs_messages spec) * nat (cs_payload_size spec)"
    using complete_run[of ?logs _ _ "ce_sched E"] ps(2) by auto
  have ok: "\<not> cs_payload_size spec < int header_size" using assms(1) by (simp add: spec_ok_def)
  have z: "zip [0..<nat (cs_connections spec)] (map snd (ce_connects E)) = ce_connects E"
    unfolding assms(4)[symmetric] by (rule zip_map_fst_snd)
  show ?thesis
    using build_result_echoed[OF assms(1) run(3) refl refl run(4,5) refl] assms(5) run(1) ok ne
    by (simp add: run_asyncio_case_def z) (simp add: ps(1) record_connects_ok Let_def)
qed

section \<open>The library's engine\<close>

lemma deliver_feed_all: "feed_all clock ds c = (Ret (), c') \<Longrightarrow> deliver clock ds c = c'"
proof (induction ds arbitrary: c)
  case (Cons d ds)
  then obtain c1 where "feed clock d c = (Ret (), c1)" "feed_all clock ds c1 = (Ret (), c')"
    by (auto elim!: andThen_RetE)
  with Cons.IH show ?case by simp
qed simp

text \<open>The echoes of a client are its frames, in pieces; the wait returns when all of them have come.\<close>

definition all_delivered :: "netty_env \<Rightarrow> case_spec \<Rightarrow> bool" where
  "all_delivered E spec \<longleftrightarrow> nc_connects E = replicate (nat (cs_connections spec)) (Inr ())
     \<and> (\<forall>i < nat (cs_connections spec). concat (nc_data E i) =
          concat (map (frame_at i (nat (cs_payload_size spec))) [0..<nat (cs_messages spec)]))
     \<and> nat (cs_connections spec) * Suc (nat (cs_messages spec)) \<le> nc_waited E
     \<and> set (nc_closes E) \<subseteq> {None}"

lemma frame_of_frame_at: "frame_of (connected_client t i m n q) = frame_at i n"
  by (rule ext) (simp add: frame_of_def frame_at_def connected_client_def new_client_def split: sum.split)

lemma netty_client_echo:
  assumes "spec_ok spec" "all_delivered E spec" "i < nat (cs_connections spec)"
  shows "\<exists>l. netty_client E spec i = Some (Inr l)
    \<and> read_log (nat (cs_payload_size spec)) (nat (cs_messages spec)) (nat (cs_messages spec)) l"
proof -
  let ?c = "connected_client (nat (cs_connections spec)) i (nat (cs_messages spec)) (nat (cs_payload_size spec)) (cs_sequential spec)"
  have b: "8 \<le> nat (cs_payload_size spec)" "i < 2 ^ 32" "nat (cs_messages spec) \<le> 2 ^ 32" "0 < nat (cs_messages spec)"
    using assms(1,3) by (simp_all add: spec_ok_def header_size_def nat_le_iff, linarith+)
  have "concat (nc_data E i) = concat (map (frame_of ?c) [0..<cl_messages ?c])"
    using assms(2,3) by (simp add: all_delivered_def frame_of_frame_at)
  with b obtain c1 c2 where c: "start_client (nc_clock E i) ?c = Some (Ret (), c1)"
    "feed_all (nc_clock E i) (nc_data E i) c1 = (Ret (), c2)" "progress ?c (cl_messages ?c) (cl_messages ?c) c2"
    using echoed_client_completes[of ?c "nc_data E i" "nc_clock E i"] by auto
  have "rs_log (cl_run ?c) = []" "cl_payload_size ?c = nat (cs_payload_size spec)"
    by (simp_all add: connected_client_def new_client_def new_run_def)
  with c show ?thesis by (auto simp: netty_client_def deliver_feed_all progress_def)
qed

lemma netty_clients_logs:
  assumes "\<forall>i \<in> set js. \<exists>l. netty_client E spec i = Some (Inr l) \<and> P l"
  shows "\<exists>logs. netty_clients E spec js = Some (Inr logs) \<and> length logs = length js \<and> (\<forall>l \<in> set logs. P l)"
  using assms
proof (induction js)
  case (Cons i js)
  then obtain l logs where "netty_client E spec i = Some (Inr l)" "P l"
    "netty_clients E spec js = Some (Inr logs)" "length logs = length js" "\<forall>l \<in> set logs. P l" by auto
  then show ?case by (intro exI[of _ "l # logs"]) simp
qed simp

lemma length_merge: "length (merge_logs sched logs) = sum_list (map length logs)"
  by (metis length_concat merge_logs_mset size_mset)

lemma close_errors_none: "set closes \<subseteq> {None} \<Longrightarrow> close_errors closes = []"
  by (induction closes) (simp_all add: close_errors_def List.map_filter_simps)

lemma py_netty_case_passes:
  assumes "spec_ok spec" "all_delivered E spec"
  shows "\<exists>r. run_py_netty_case mul E spec timeout = Some (Inr r) \<and> all_echoed spec r \<and> \<not> failed r"
proof -
  let ?c = "nat (cs_connections spec)" and ?m = "nat (cs_messages spec)" and ?n = "nat (cs_payload_size spec)"
  let ?ps = "map (\<lambda>i. (i, ())) [0..<?c]"
  have z: "zip [0..<?c] (nc_connects E) = map (\<lambda>(i, s). (i, Inr s)) ?ps"
    using assms(2) by (auto simp: all_delivered_def intro!: nth_equalityI)
  have "\<forall>i \<in> set [0..<?c]. \<exists>l. netty_client E spec i = Some (Inr l) \<and> read_log ?n ?m ?m l"
    using netty_client_echo[OF assms] by simp
  from netty_clients_logs[OF this] obtain logs where logs: "netty_clients E spec [0..<?c] = Some (Inr logs)"
    "length logs = ?c" "\<forall>l \<in> set logs. read_log ?n ?m ?m l" by auto
  have ne: "logs \<noteq> []" using logs(2) assms(1) by (auto simp: spec_ok_def)
  from complete_run[OF logs(3) ne, of "nc_sched E"] logs(2) obtain run where
    run: "apply_events (merge_logs (nc_sched E) logs) (new_run ?c) = run"
    "rs_done run" "rs_errors run = []" "rs_received_messages run = ?c * ?m" "rs_received_bytes run = ?c * ?m * ?n"
    by auto
  have "\<And>l. l \<in> set logs \<Longrightarrow> length l = Suc ?m" using logs(3) by (auto simp: read_log_def)
  then have "length (merge_logs (nc_sched E) logs) = length logs * Suc ?m" unfolding length_merge by (rule sum_const)
  then have t: "take (nc_waited E) (merge_logs (nc_sched E) logs) = merge_logs (nc_sched E) logs"
    using assms(2) logs(2) by (simp add: all_delivered_def)
  have ok: "\<not> cs_payload_size spec < int header_size" using assms(1) by (simp add: spec_ok_def)
  have cl: "close_errors (nc_closes E) = []" using assms(2) by (simp add: all_delivered_def close_errors_none)
  have f: "map fst ?ps = [0..<?c]" by (simp add: o_def)
  show ?thesis
    using build_result_echoed[OF assms(1) run(3) refl refl run(4,5) refl] run(1,2) ok
    by (simp only: run_py_netty_case_def z record_connects_ok append_Nil prod.case f logs(1) option.case sum.case
      Let_def t cl append_Nil2 if_False) auto
qed

text \<open>That the clients of a case share one run does not matter to them: what a client does, and the calls it
  makes, are the same whatever the run is.\<close>

definition calls_only :: "(client_state \<Rightarrow> unit outcome \<times> client_state) \<Rightarrow> client_state \<Rightarrow> bool" where
  "calls_only f c \<longleftrightarrow>
     (\<exists>r c' L. \<forall>run. f (c\<lparr>cl_run := run\<rparr>) = (r, c'\<lparr>cl_run := apply_events L run\<rparr>))"

lemma calls_onlyI: "(\<And>run. f (c\<lparr>cl_run := run\<rparr>) = (r, c'\<lparr>cl_run := apply_events L run\<rparr>)) \<Longrightarrow> calls_only f c"
  unfolding calls_only_def by blast

lemma send_next_run: "send_next clock (c\<lparr>cl_run := R\<rparr>) = apsnd (cl_run_update (\<lambda>_. R)) (send_next clock c)"
  by (simp add: send_next_def Let_def split: sum.splits)

lemma handle_frame_calls: "calls_only (handle_frame clock f) c"
proof (cases "validate_frame f (cl_connection_id c) (cl_received_messages c)")
  case (Inl e)
  then show ?thesis by (intro calls_onlyI[where r = "Raise e" and c' = c and L = "[]"]) (simp add: handle_frame_def)
next
  case (Inr r)
  show ?thesis
  proof (cases r)
    case (Some err)
    with Inr show ?thesis
      by (intro calls_onlyI[where r = "Ret ()" and c' = c and L = "[Error err]"]) (simp add: handle_frame_def)
  next
    case None
    obtain ats t l where h: "\<And>R. handle_frame clock f (c\<lparr>cl_run := R\<rparr>) =
      (let c1 = c\<lparr>cl_sent_at := ats, cl_ticks := t, cl_received_messages := Suc (cl_received_messages c)\<rparr> in
       if Suc (cl_received_messages c) = cl_messages c \<and> \<not> cl_completed c
       then (Ret (), c1\<lparr>cl_completed := True, cl_run := mark_connection_complete (record_message (length f) l R)\<rparr>)
       else if cl_sequential c then send_next clock (c1\<lparr>cl_run := record_message (length f) l R\<rparr>)
       else (Ret (), c1\<lparr>cl_run := record_message (length f) l R\<rparr>))"
    proof (cases "cl_sent_at c (cl_received_messages c)")
      case N: None
      show ?thesis
        by (rule that[where ats = "(cl_sent_at c)(cl_received_messages c := None)" and t = "cl_ticks c" and l = None])
          (use N Inr None in \<open>simp add: handle_frame_def Let_def\<close>)
    next
      case (Some a)
      show ?thesis
        by (rule that[where ats = "(cl_sent_at c)(cl_received_messages c := None)" and t = "Suc (cl_ticks c)"
              and l = "Some (clock (cl_ticks c) - a)"])
          (use Some Inr None in \<open>simp add: handle_frame_def Let_def\<close>)
    qed
    let ?c = "c\<lparr>cl_sent_at := ats, cl_ticks := t, cl_received_messages := Suc (cl_received_messages c)\<rparr>"
    show ?thesis
    proof (cases "Suc (cl_received_messages c) = cl_messages c \<and> \<not> cl_completed c")
      case True
      then show ?thesis
        by (intro calls_onlyI[where r = "Ret ()" and c' = "?c\<lparr>cl_completed := True\<rparr>" and L = "[Message (length f) l, Complete]"])
          (simp add: h Let_def)
    next
      case False
      then show ?thesis
        by (intro calls_onlyI[where r = "if cl_sequential c then fst (send_next clock ?c) else Ret ()"
              and c' = "if cl_sequential c then snd (send_next clock ?c) else ?c" and L = "[Message (length f) l]"])
          (auto simp: h Let_def send_next_run apsnd_def map_prod_def split: prod.split)
    qed
  qed
qed

lemma apply_events_append: "apply_events (L @ L') run = apply_events L' (apply_events L run)"
  by (simp add: apply_events_def)

lemma run_buffer: "c\<lparr>cl_run := R, cl_buffer := b\<rparr> = c\<lparr>cl_buffer := b, cl_run := R\<rparr>"
  by simp

lemma feed_loop_calls: "calls_only (feed_loop clock) c"
proof (induction "length (cl_buffer c)" arbitrary: c rule: less_induct)
  case less
  let ?n = "cl_payload_size c"
  let ?f = "take ?n (cl_buffer c)" and ?c = "c\<lparr>cl_buffer := drop ?n (cl_buffer c)\<rparr>"
  show ?case
  proof (cases "?n \<le> length (cl_buffer c)")
    case False
    then show ?thesis
      by (intro calls_onlyI[where r = "Ret ()" and c' = c and L = "[]"]) (simp add: feed_loop.simps)
  next
    case True
    obtain r c' L where h: "\<And>R. handle_frame clock ?f (?c\<lparr>cl_run := R\<rparr>) = (r, c'\<lparr>cl_run := apply_events L R\<rparr>)"
      using handle_frame_calls[of clock ?f ?c] unfolding calls_only_def by blast
    have l: "feed_loop clock (c\<lparr>cl_run := R\<rparr>)
        = andThen (r, c'\<lparr>cl_run := apply_events L R\<rparr>) (\<lambda>_. feed_loop clock)" for R
      using True h[of R] by (subst feed_loop.simps) (simp add: Let_def run_buffer)
    show ?thesis
    proof (cases r)
      case (Ret u)
      have "cl_buffer c' = cl_buffer ?c" using handle_frame_keeps_buffer[of clock ?f "?c\<lparr>cl_run := R\<rparr>" for R] by (simp add: h)
      moreover have "0 < ?n" using handle_frame_header[OF h[unfolded Ret]] by (auto simp: header_size_def)
      ultimately have "length (cl_buffer c') < length (cl_buffer c)" using True by simp
      from less[OF this] obtain r2 c2 L2 where
        "\<And>R. feed_loop clock (c'\<lparr>cl_run := R\<rparr>) = (r2, c2\<lparr>cl_run := apply_events L2 R\<rparr>)"
        unfolding calls_only_def by blast
      then show ?thesis
        by (intro calls_onlyI[where r = r2 and c' = c2 and L = "L @ L2"]) (simp add: l Ret apply_events_append)
    next
      case (Raise e)
      then show ?thesis by (intro calls_onlyI[where r = "Raise e" and c' = c' and L = L]) (simp add: l)
    next
      case Diverge
      then show ?thesis by (intro calls_onlyI[where r = Diverge and c' = c' and L = L]) (simp add: l)
    qed
  qed
qed

lemma feed_calls: "calls_only (feed clock data) c"
  using feed_loop_calls[of clock "c\<lparr>cl_buffer := cl_buffer c @ data\<rparr>"] by (simp add: calls_only_def feed_def run_buffer)

section \<open>What a case that passes tells\<close>

text \<open>The calls of a client of the other engines, whatever its peer sends: the messages, and at the end an
  error or, when all have been read, the completion.\<close>

definition exact_length :: "(nat \<Rightarrow> bsock \<Rightarrow> bytes outcome \<times> bsock) \<Rightarrow> bool" where
  "exact_length read \<longleftrightarrow> (\<forall>n s. fst (read n s) \<noteq> Diverge \<and>
     (\<forall>f s'. read n s = (Ret f, s') \<longrightarrow> length f = n))"

lemma exact_lengths: "exact_length (recv_exact give)" "exact_length readexactly"
proof -
  show "exact_length readexactly" by (auto simp: exact_length_def readexactly_def split: if_splits)
  moreover have "fst (recv_exact give n s) = fst (readexactly n s)" for n s by (simp add: recv_exact_readexactly)
  ultimately show "exact_length (recv_exact give)" unfolding exact_length_def by (metis fst_conv surj_pair)
qed

definition rounds_log :: "nat \<Rightarrow> nat \<Rightarrow> bool outcome \<Rightarrow> run_event list \<Rightarrow> bool" where
  "rounds_log n k r l \<longleftrightarrow> (\<exists>ls tl. l = map (Message n) ls @ tl \<and>
     (case r of Ret True \<Rightarrow> tl = [] \<and> length ls = k | Ret False \<Rightarrow> \<exists>e. tl = [Error e]
        | Raise e \<Rightarrow> tl = [] | Diverge \<Rightarrow> False))"

lemma rounds_log_intros:
  "rounds_log n 0 (Ret True) []" "rounds_log n k (Raise e) []"
  "rounds_log n k (Ret False) [Error err]"
  by (auto simp: rounds_log_def)

lemma rounds_log_more: "rounds_log n k r l \<Longrightarrow> rounds_log n (Suc k) r (Message n m # l)"
  unfolding rounds_log_def
  by (elim exE conjE, rule_tac x = "m # ls" in exI, rule_tac x = tl in exI) (auto split: outcome.splits bool.splits)

lemma read_frame_log:
  assumes "exact_length read"
  shows "\<exists>r S' l. read_frame read clock i n q started S = (r, S') \<and> en_log S' = en_log S @ l
    \<and> (r = Ret True \<and> (\<exists>m. l = [Message n m]) \<or> r \<noteq> Ret True \<and> (\<forall>k. rounds_log n k r l))"
proof (cases "read n (en_sock S)")
  case (Pair r s')
  show ?thesis
  proof (cases r)
    case (Ret f)
    with Pair assms have "length f = n" by (auto simp: exact_length_def)
    with Pair Ret show ?thesis
      by (auto simp: read_frame_def Let_def rounds_log_intros split: sum.split option.split)
  next
    case Diverge
    with Pair assms show ?thesis by (metis exact_length_def fst_conv)
  qed (use Pair in \<open>simp add: read_frame_def rounds_log_intros\<close>)
qed

lemma send_frame_log:
  "\<exists>r S'. send_frame peer i n q S = (r, S') \<and> en_log S' = en_log S \<and> (r = Ret () \<or> (\<exists>e. r = Raise e))"
  by (simp add: send_frame_def Let_def split: sum.split)

lemma sequential_rounds_log:
  assumes "exact_length read"
  shows "\<exists>r S' l. sequential_rounds read peer clock i n qs S = (r, S') \<and> en_log S' = en_log S @ l
    \<and> rounds_log n (length qs) r l"
proof (induction qs arbitrary: S)
  case (Cons q qs)
  obtain r1 S1 where 1: "send_frame peer i n q S = (r1, S1)" "en_log S1 = en_log S" "r1 = Ret () \<or> (\<exists>e. r1 = Raise e)"
    using send_frame_log by blast
  obtain r2 S2 l2 where 2: "read_frame read clock i n q (clock (en_ticks S)) S1 = (r2, S2)" "en_log S2 = en_log S1 @ l2"
    "r2 = Ret True \<and> (\<exists>m. l2 = [Message n m]) \<or> r2 \<noteq> Ret True \<and> (\<forall>k. rounds_log n k r2 l2)"
    using read_frame_log[OF assms, of clock i n q "clock (en_ticks S)" S1]
    by (elim exE conjE) (rule that; assumption)
  show ?case
  proof (cases "r1 = Ret () \<and> r2 = Ret True")
    case True
    moreover from Cons obtain r S' l where "sequential_rounds read peer clock i n qs S2 = (r, S')"
      "en_log S' = en_log S2 @ l" "rounds_log n (length qs) r l" by blast
    ultimately show ?thesis using 1(1,2) 2 by (auto simp: Let_def rounds_log_more)
  next
    case False
    with 1 2 show ?thesis
      by (cases r2) (auto simp: Let_def rounds_log_intros)
  qed
qed (simp add: rounds_log_intros)

lemma burst_send_log:
  "\<exists>r S'. burst_send peer clock i n qs ts S = (r, S') \<and> en_log S' = en_log S \<and> ((\<exists>a. r = Ret a) \<or> (\<exists>e. r = Raise e))"
proof (induction qs arbitrary: ts S)
  case (Cons q qs)
  obtain r1 S1 where 1: "send_frame peer i n q S = (r1, S1)" "en_log S1 = en_log S" "r1 = Ret () \<or> (\<exists>e. r1 = Raise e)"
    using send_frame_log by blast
  with Cons[of "ts(q := clock (en_ticks S))" S1] show ?case by (cases r1) (auto simp del: fun_upd_apply)
qed simp

lemma burst_read_log:
  assumes "exact_length read"
  shows "\<exists>r S' l. burst_read read clock i n qs ts S = (r, S') \<and> en_log S' = en_log S @ l
    \<and> rounds_log n (length qs) r l"
proof (induction qs arbitrary: S)
  case (Cons q qs)
  obtain r2 S2 l2 where 2: "read_frame read clock i n q (ts q) S = (r2, S2)" "en_log S2 = en_log S @ l2"
    "r2 = Ret True \<and> (\<exists>m. l2 = [Message n m]) \<or> r2 \<noteq> Ret True \<and> (\<forall>k. rounds_log n k r2 l2)"
    using read_frame_log[OF assms, of clock i n q "ts q" S]
    by (elim exE conjE) (rule that; assumption)
  show ?case
  proof (cases "r2 = Ret True")
    case True
    moreover from Cons obtain r S' l where "burst_read read clock i n qs ts S2 = (r, S')"
      "en_log S' = en_log S2 @ l" "rounds_log n (length qs) r l" by blast
    ultimately show ?thesis using 2 by (auto simp: rounds_log_more)
  next
    case False
    with 2 show ?thesis by (cases r2) auto
  qed
qed (simp add: rounds_log_intros)

text \<open>So a client completes at most once, and only with all its messages counted.\<close>

definition client_log :: "nat \<Rightarrow> nat \<Rightarrow> run_event list \<Rightarrow> bool" where
  "client_log n m l \<longleftrightarrow> read_log n m m l \<or>
     (\<exists>ls e. l = map (Message n) ls @ [Error e])"

lemma blocking_client_log:
  assumes "exact_length read"
  shows "\<exists>l. en_log (snd (blocking_client read peer clock i m n q S)) = en_log S @ l \<and> client_log n m l"
proof -
  let ?go = "if q then sequential_rounds read peer clock i n [0..<m] S
    else andThen (burst_send peer clock i n [0..<m] (\<lambda>_. 0) S) (\<lambda>sent_at S. burst_read read clock i n [0..<m] sent_at S)"
  obtain r S' l where go: "?go = (r, S')" "en_log S' = en_log S @ l" "rounds_log n m r l"
  proof (cases q)
    case True
    with sequential_rounds_log[OF assms, of peer clock i n "[0..<m]" S] that show ?thesis by auto
  next
    case False
    obtain r1 S1 where 1: "burst_send peer clock i n [0..<m] (\<lambda>_. 0) S = (r1, S1)" "en_log S1 = en_log S"
      "(\<exists>a. r1 = Ret a) \<or> (\<exists>e. r1 = Raise e)" using burst_send_log by blast
    show ?thesis
    proof (cases r1)
      case (Ret ts)
      with burst_read_log[OF assms, of clock i n "[0..<m]" ts S1] 1 False that show ?thesis by auto
    qed (use 1 False that[of _ S1 "[]"] in \<open>auto simp: rounds_log_intros\<close>)
  qed
  obtain ls tl where l: "l = map (Message n) ls @ tl"
    "case r of Ret True \<Rightarrow> tl = [] \<and> length ls = m | Ret False \<Rightarrow> \<exists>e. tl = [Error e]
      | Raise e \<Rightarrow> tl = [] | Diverge \<Rightarrow> False"
    using go(3) by (auto simp: rounds_log_def)
  have b: "blocking_client read peer clock i m n q S =
     handling (andThen (r, S') (\<lambda>go S. (Ret (), if go then S\<lparr>en_log := en_log S @ [Complete]\<rparr> else S)))
       (\<lambda>e S. (Ret (), S\<lparr>en_log := en_log S @ [Error (OnConnection i e)]\<rparr>))"
    unfolding blocking_client_def go(1) ..
  show ?thesis
  proof (cases r)
    case (Ret g)
    with b l go(2) show ?thesis by (cases g) (auto simp: client_log_def read_log_def)
  next
    case (Raise e)
    with b l go(2) show ?thesis by (auto simp: client_log_def)
  next
    case Diverge
    with l(2) show ?thesis by simp
  qed
qed

lemma engine_client_log:
  assumes "client = threaded_client \<or> client = (\<lambda>_. asyncio_client)"
  shows "client_log (nat (cs_payload_size spec)) (nat (cs_messages spec)) (engine_client client E spec p)"
proof -
  obtain i s where p: "p = (i, s)" by (cases p)
  let ?S = "\<lparr>en_log = [], en_sock = s, en_ticks = 0\<rparr>"
  note b = blocking_client_log[OF exact_lengths(1), of "ce_give E i"] blocking_client_log[OF exact_lengths(2)]
  from assms show ?thesis
  proof
    assume "client = threaded_client"
    with b(1)[of "ce_peer E" "ce_clock E i" i "nat (cs_messages spec)" "nat (cs_payload_size spec)" "cs_sequential spec" ?S]
    show ?thesis by (simp add: engine_client_def p threaded_client_def)
  next
    assume "client = (\<lambda>_. asyncio_client)"
    with b(2)[of "ce_peer E" "ce_clock E i" i "nat (cs_messages spec)" "nat (cs_payload_size spec)" "cs_sequential spec" ?S]
    show ?thesis by (simp add: engine_client_def p asyncio_client_def)
  qed
qed

text \<open>A failed connection leaves an error in the run for good.\<close>

lemma record_connects_errors:
  "rs_errors run \<noteq> [] \<Longrightarrow> rs_errors (fst (record_connects connects run active)) \<noteq> []"
  by (induction connects run active rule: record_connects.induct) (simp_all add: record_error_def)

lemma record_connects_clean:
  assumes "rs_errors (fst (record_connects connects run active)) = []"
  shows "fst (record_connects connects run active) = run
    \<and> length (snd (record_connects connects run active)) = length active + length connects"
  using assms
proof (induction connects run active rule: record_connects.induct)
  case (2 i e connects run active)
  then show ?case using record_connects_errors[of "record_error (ConnectFailed i e) run" connects active]
    by (simp add: record_error_def)
qed simp_all

lemma new_run_fields [simp]:
  "\<not> rs_done (new_run c)" "rs_total (new_run c) = c" "rs_completed (new_run c) = 0" "rs_errors (new_run c) = []"
  by (simp_all add: new_run_def)

text \<open>A run with no error at its end: every connection was made and every client has read all its messages.\<close>

lemma clean_run:
  assumes "record_connects connects (new_run c) [] = (run0, active)" "\<forall>p \<in> set active. client_log n m (f p)"
    and "rs_errors (apply_events (merge_logs sched (map f active)) run0) = []"
  shows "run0 = new_run c" "length active = length connects" "\<forall>l \<in> set (map f active). read_log n m m l"
proof -
  have e: "rs_errors run0 = []" "concat (map ev_errors (merge_logs sched (map f active))) = []"
    using assms(3) by (simp_all only: apply_events_fields append_is_Nil_conv)
  then show "run0 = new_run c" "length active = length connects"
    using record_connects_clean[of connects "new_run c" "[]"] assms(1) by simp_all
  have "\<forall>l \<in> set (map f active). \<forall>err. Error err \<notin> set l" using e(2) by (auto simp: set_merge) force
  with assms(2) show "\<forall>l \<in> set (map f active). read_log n m m l" by (fastforce simp: client_log_def)
qed

lemma result_errors:
  "\<not> failed (build_result mul engine spec run sent bytes elapsed ramp_up timed_out timeout)
    \<longleftrightarrow> rs_errors run = [] \<and> \<not> timed_out"
  by (auto simp: failed_def build_result_def Let_def)

lemma result_echoed:
  assumes "rs_received_messages run = nat (cs_connections spec) * nat (cs_messages spec)"
    and "rs_received_bytes run = nat (cs_connections spec) * nat (cs_messages spec) * nat (cs_payload_size spec)"
    and "0 \<le> cs_connections spec" "0 \<le> cs_messages spec" "0 \<le> cs_payload_size spec"
  shows "all_echoed spec (build_result mul engine spec run (cs_connections spec * cs_messages spec)
    (cs_connections spec * cs_messages spec * cs_payload_size spec) elapsed ramp_up timed_out timeout)"
  using assms by (simp add: all_echoed_def build_result_def Let_def)

lemma threaded_pass_is_echoed:
  assumes "run_threaded_case mul E spec timeout = Inr r" "\<not> failed r"
    and "length (ce_connects E) \<le> nat (cs_connections spec)" "0 \<le> cs_messages spec"
  shows "all_echoed spec r"
proof -
  let ?c = "nat (cs_connections spec)" and ?m = "nat (cs_messages spec)" and ?n = "nat (cs_payload_size spec)"
  obtain run0 active where a: "record_connects (ce_connects E) (new_run ?c) [] = (run0, active)"
    by (cases "record_connects (ce_connects E) (new_run ?c) []")
  let ?logs = "map (engine_client threaded_client E spec) active"
  let ?L = "merge_logs (ce_sched E) ?logs"
  have ok: "8 \<le> cs_payload_size spec" "0 < cs_connections spec"
    using assms(1) by (auto simp: run_threaded_case_def header_size_def split: if_splits)
  with assms(1) have r: "r = build_result mul ''threaded'' spec (apply_events ?L run0)
      (cs_connections spec * cs_messages spec) (cs_connections spec * cs_messages spec * cs_payload_size spec)
      (ce_elapsed E) (ce_ramp_up E)
      (ce_connect_timeout E \<or> ce_clients_timeout E \<or> \<not> rs_done (apply_events ?L run0)) timeout"
    by (simp add: run_threaded_case_def header_size_def a Let_def)
  from assms(2) have run: "rs_done (apply_events ?L run0)" "rs_errors (apply_events ?L run0) = []"
    unfolding r result_errors by simp_all
  note c = clean_run[OF a _ run(2), of ?n ?m, OF ballI[OF engine_client_log], simplified]
  have l: "\<forall>l \<in> set ?logs. read_log ?n ?m ?m l" using c(3) by simp
  then have "sum_list (map ev_completes ?L) = length ?logs * 1"
    unfolding sum_merge by (intro sum_const) (metis read_log_sums(3))
  moreover have "?c \<le> sum_list (map ev_completes ?L)"
    using run unfolding c(1) by (simp add: apply_events_done apply_events_fields)
  ultimately have "length ?logs = ?c" using c(2) assms(3) by simp
  moreover from this ok have "?logs \<noteq> []" by auto
  ultimately show ?thesis
    unfolding r c(1) using complete_run[OF l, of "ce_sched E"] ok assms(4) by (intro result_echoed) auto
qed

text \<open>The same for asyncio, where a case with no connection, or a cancelled one, does not pass.\<close>

lemma asyncio_pass_is_echoed:
  assumes "run_asyncio_case mul E spec timeout = Inr r" "\<not> failed r"
    and "length (ce_connects E) = nat (cs_connections spec)" "0 \<le> cs_messages spec"
  shows "all_echoed spec r"
proof -
  let ?c = "nat (cs_connections spec)" and ?m = "nat (cs_messages spec)" and ?n = "nat (cs_payload_size spec)"
  let ?cs = "zip [0..<?c] (map snd (ce_connects E))"
  obtain run0 active where a: "record_connects ?cs (new_run ?c) [] = (run0, active)"
    by (cases "record_connects ?cs (new_run ?c) []")
  let ?timed_out = "if active = [] then True else ce_clients_timeout E"
  have t: "\<not> ?timed_out" and ok: "8 \<le> cs_payload_size spec"
    using assms(1,2) by (auto simp: run_asyncio_case_def header_size_def a Let_def result_errors split: if_splits)
  let ?logs = "map (engine_client (\<lambda>_. asyncio_client) E spec) active"
  let ?L = "merge_logs (ce_sched E) ?logs"
  have r: "r = build_result mul ''asyncio'' spec (apply_events ?L run0)
      (cs_connections spec * cs_messages spec) (cs_connections spec * cs_messages spec * cs_payload_size spec)
      (ce_elapsed E) (ce_ramp_up E) False timeout"
    using assms(1) ok t by (simp add: run_asyncio_case_def header_size_def a Let_def split: if_splits)
  from assms(2) have run: "rs_errors (apply_events ?L run0) = []" unfolding r result_errors by simp
  note c = clean_run[OF a _ run, of ?n ?m, OF ballI[OF engine_client_log], simplified]
  have l: "\<forall>l \<in> set ?logs. read_log ?n ?m ?m l" using c(3) by simp
  have "length ?logs = ?c" using c(2) assms(3) by simp
  moreover have "?logs \<noteq> []" using t by auto
  moreover from calculation have "0 < cs_connections spec" by (cases "0 < cs_connections spec") simp_all
  ultimately show ?thesis
    unfolding r c(1) using complete_run[OF l, of "ce_sched E"] ok assms(4) by (intro result_echoed) auto
qed

section \<open>The table, the latencies and the command\<close>

lemma all_cases_ok: "\<forall>(name, spec) \<in> set ALL_CASES. spec_ok spec \<and> cs_name spec = name"
  by (simp add: ALL_CASES_def DEFAULT_CASES_def HIGH_CONNECTION_CASES_def named_def new_spec_def spec_ok_def header_size_def)

text \<open>Overrides that are positive, or zero, which means no override, keep a case runnable.\<close>

definition overrides_ok :: "args \<Rightarrow> bool" where
  "overrides_ok a \<longleftrightarrow> (\<forall>n. ar_connections a = Some n \<longrightarrow> 0 \<le> n \<and> n \<le> 2 ^ 32)
     \<and> (\<forall>n. ar_messages a = Some n \<longrightarrow> 0 \<le> n \<and> n \<le> 2 ^ 32)
     \<and> (\<forall>n. ar_payload_size a = Some n \<longrightarrow> n = 0 \<or> int header_size \<le> n)"

lemma apply_overrides_ok: "spec_ok spec \<Longrightarrow> overrides_ok a \<Longrightarrow> spec_ok (apply_overrides spec a)"
  by (cases "ar_connections a"; cases "ar_messages a"; cases "ar_payload_size a")
    (auto simp: spec_ok_def overrides_ok_def apply_overrides_def int_or_def)

lemma latency_ms_simps: "values \<noteq> [] \<Longrightarrow> latency_ms mul values (Some q) = map_option (\<lambda>v. v * 1000) (percentile mul values q)"
  by (simp add: latency_ms_def)

lemma result_latencies_ordered:
  assumes "product_ok mul" "rs_latencies run \<noteq> []"
    and "r = build_result mul engine spec run sent bytes elapsed ramp_up timed_out timeout"
  shows "\<exists>p50 p95 p99. cr_latency_p50_ms r = Some p50 \<and> cr_latency_p95_ms r = Some p95
    \<and> cr_latency_p99_ms r = Some p99 \<and> p50 \<le> p95 \<and> p95 \<le> p99
    \<and> {p50, p95, p99} \<subseteq> (\<lambda>l. seconds l * 1000) ` set (rs_latencies run)"
proof -
  let ?l = "map seconds (rs_latencies run)"
  have ne: "?l \<noteq> []" using assms(2) by simp
  obtain a b c where p: "percentile mul ?l (50/100) = Some a" "percentile mul ?l (95/100) = Some b"
    "percentile mul ?l (99/100) = Some c" "a \<le> b" "b \<le> c"
    using percentile_mono[OF assms(1), of "50/100" "95/100" ?l] percentile_mono[OF assms(1), of "95/100" "99/100" ?l] ne
    by auto
  moreover have "{a, b, c} \<subseteq> set ?l"
    using percentile_member[OF assms(1) _ _ ne, of "50/100"] percentile_member[OF assms(1) _ _ ne, of "95/100"]
      percentile_member[OF assms(1) _ _ ne, of "99/100"] p(1-3) by auto
  ultimately show ?thesis
    unfolding assms(3) build_result_def Let_def using ne by (auto simp: latency_ms_simps)
qed

text \<open>What the parser lets through selects cases and engines that exist.\<close>

lemma selected_cases_exist:
  assumes "ar_case a \<in> set (map fst CASE_GROUPS @ map fst ALL_CASES)"
  shows "selected_cases a \<noteq> [] \<and> set (selected_cases a) \<subseteq> snd ` set ALL_CASES"
proof -
  have names: "ar_case a \<in> {''all'', ''high_connection_scaling'', ''single_connection_latency'',
      ''small_payload_concurrency'', ''large_payload_throughput'', ''connection_ramp_up'', ''backpressure_smoke'',
      ''high_connection_128'', ''high_connection_256'', ''high_connection_512''}"
    using assms by (simp add: CASE_GROUPS_def ALL_CASES_def DEFAULT_CASES_def HIGH_CONNECTION_CASES_def named_def new_spec_def)
  then show ?thesis
    by (auto simp: selected_cases_def CASE_GROUPS_def ALL_CASES_def DEFAULT_CASES_def HIGH_CONNECTION_CASES_def
      named_def new_spec_def dict_get_def List.map_filter_simps)
qed

lemma run_all_results:
  assumes "\<forall>(s, e) \<in> set work. \<exists>r. run s e = Some (Inr r) \<and> P s r"
  shows "\<exists>rs. run_all run work results = Some (Inr (results @ rs)) \<and> list_all2 (\<lambda>(s, e) r. P s r) work rs"
  using assms
proof (induction work arbitrary: results)
  case (Cons w work)
  obtain s e where w: "w = (s, e)" by (cases w)
  with Cons.prems obtain r where r: "run s e = Some (Inr r)" "P s r" by auto
  from Cons.IH[of "results @ [r]"] Cons.prems obtain rs where
    "run_all run work (results @ [r]) = Some (Inr (results @ r # rs))" "list_all2 (\<lambda>(s, e) r. P s r) work rs" by auto
  with r show ?case by (intro exI[of _ "r # rs"]) (simp add: w)
qed simp

lemma selected_engines_exist:
  "ar_engine a \<in> set (''all'' # ENGINES) \<Longrightarrow> selected_engines a \<noteq> [] \<and> set (selected_engines a) \<subseteq> set ENGINES"
  by (auto simp: selected_engines_def ENGINES_def)

lemma check_args_choices:
  "check_args host_provided a = Inr a' \<Longrightarrow> a' = a \<and> ar_case a \<in> set (map fst CASE_GROUPS @ map fst ALL_CASES)
     \<and> ar_engine a \<in> set (''all'' # ENGINES)"
  by (auto simp: check_args_def split: if_splits)

text \<open>What the environments of a command are when the servers echo and nothing takes too long.\<close>

definition echoing :: "(case_spec \<Rightarrow> netty_env) \<Rightarrow> (case_spec \<Rightarrow> case_env) \<Rightarrow> (case_spec \<Rightarrow> case_env) \<Rightarrow> bool" where
  "echoing N A T \<longleftrightarrow> (\<forall>spec. spec_ok spec \<longrightarrow> all_delivered (N spec) spec
     \<and> all_connected (A spec) spec \<and> all_connected (T spec) spec
     \<and> map fst (ce_connects (A spec)) = [0..<nat (cs_connections spec)]
     \<and> ce_peer (A spec) = (\<lambda>x. x) \<and> ce_peer (T spec) = (\<lambda>x. x)
     \<and> \<not> ce_clients_timeout (A spec) \<and> \<not> ce_clients_timeout (T spec) \<and> \<not> ce_connect_timeout (T spec))"

lemma run_case_passes:
  assumes "echoing N A T" "spec_ok spec" "engine \<in> set ENGINES"
  shows "\<exists>r. run_case mul N A T spec engine timeout = Some (Inr r) \<and> all_echoed spec r \<and> \<not> failed r"
proof -
  note E = assms(1)[unfolded echoing_def, rule_format, OF assms(2)]
  consider "engine = ''py-netty''" | "engine = ''asyncio''" | "engine = ''threaded''"
    using assms(3) by (auto simp: ENGINES_def)
  then show ?thesis
  proof cases
    case 1
    with py_netty_case_passes[OF assms(2)] E show ?thesis by (simp add: run_case_def)
  next
    case 2
    with asyncio_case_passes[OF assms(2)] E show ?thesis by (simp add: run_case_def)
  next
    case 3
    with threaded_case_passes[OF assms(2)] E show ?thesis by (simp add: run_case_def)
  qed
qed

text \<open>The command runs every selected case with every selected engine, and exits with 0.\<close>

lemma command_passes:
  assumes "check_args host_provided a = Inr a'" "overrides_ok a'" "echoing N A T"
  shows "\<exists>rs. main_run mul N A T a' = Some (Inr (rs, 0)) \<and> rs \<noteq> []
    \<and> list_all2 (\<lambda>(s, e) r. all_echoed (apply_overrides s a') r \<and> \<not> failed r)
        (List.product (selected_cases a') (selected_engines a')) rs"
proof -
  note c = check_args_choices[OF assms(1)]
  let ?work = "List.product (selected_cases a') (selected_engines a')"
  let ?P = "\<lambda>s r. all_echoed (apply_overrides s a') r \<and> \<not> failed r"
  have s: "selected_cases a' \<noteq> []" "set (selected_cases a') \<subseteq> snd ` set ALL_CASES" "selected_engines a' \<noteq> []"
    "set (selected_engines a') \<subseteq> set ENGINES"
    using c selected_cases_exist[of a'] selected_engines_exist[of a'] by auto
  have "spec_ok (apply_overrides s a')" if "s \<in> set (selected_cases a')" for s
    using that s(2) all_cases_ok by (intro apply_overrides_ok assms(2)) fastforce
  then have "\<forall>(s, e) \<in> set ?work. \<exists>r. run_case mul N A T (apply_overrides s a') e (ar_timeout a') = Some (Inr r) \<and> ?P s r"
    using s(4) run_case_passes[OF assms(3)] by auto
  from run_all_results[of ?work "\<lambda>s e. run_case mul N A T (apply_overrides s a') e (ar_timeout a')", OF this, of "[]"]
  obtain rs where rs: "run_all (\<lambda>s e. run_case mul N A T (apply_overrides s a') e (ar_timeout a')) ?work [] = Some (Inr rs)"
    "list_all2 (\<lambda>(s, e) r. ?P s r) ?work rs" by auto
  from rs(2) have "\<forall>r \<in> set rs. \<not> failed r" by (induction rule: list_all2_induct) auto
  moreover have "rs \<noteq> []" using rs(2) s(1,3) by (auto dest!: list_all2_lengthD)
  ultimately show ?thesis using rs by (simp add: main_run_def)
qed

section \<open>A race\<close>

text \<open>\<open>send_next\<close> counts a frame as sent after the write.  Its two halves:\<close>

definition send_next_write :: "(nat \<Rightarrow> int) \<Rightarrow> client_state \<Rightarrow> client_state" where
  "send_next_write clock c =
     (let sequence = cl_sent_messages c in
      case make_frame (cl_connection_id c) sequence (cl_payload_size c) of
        Inl e \<Rightarrow> c
      | Inr f \<Rightarrow> c\<lparr>cl_sent_at := (cl_sent_at c)(sequence \<mapsto> clock (cl_ticks c)), cl_ticks := Suc (cl_ticks c),
          cl_written := cl_written c @ [f]\<rparr>)"

definition send_next_count :: "client_state \<Rightarrow> client_state" where
  "send_next_count c = c\<lparr>cl_sent_messages := Suc (cl_sent_messages c)\<rparr>"

lemma send_next_halves:
  "cl_channel c \<Longrightarrow> cl_sent_messages c < cl_messages c \<Longrightarrow> snd (send_next clock c) = c' \<Longrightarrow> fst (send_next clock c) = Ret ()
    \<Longrightarrow> c' = send_next_count (send_next_write clock c)"
  by (auto simp: send_next_def send_next_write_def send_next_count_def Let_def split: sum.splits)

text \<open>A sequential client starts in the main thread; when the loop's thread handles the echo of its first frame
  between the two halves, it sends that frame again, skips the next one, and the echo of the repeated frame is
  reported as an error.\<close>

lemma early_echo_breaks_the_run:
  fixes clock :: "nat \<Rightarrow> int"
  defines "c0 \<equiv> connected_client 1 0 3 8 True"
  defines "c1 \<equiv> send_next_count (snd (feed clock (frame_of c0 0) (send_next_write clock c0)))"
  shows "cl_written c1 = [frame_of c0 0, frame_of c0 0] \<and> cl_sent_messages c1 = 2
    \<and> rs_errors (cl_run (snd (feed clock (frame_of c0 0) c1))) = [WrongSequence 0 1 0]"
  unfolding c1_def c0_def by (simp add: connected_client_def new_client_def new_run_def frame_of_def
    make_frame_def header_pack_def header_size_def be32_def send_next_write_def send_next_count_def feed_def
    feed_loop.simps handle_frame_def validate_frame_def header_unpack_def unbe32_def send_next_def
    record_message_def record_error_def Let_def)

end
