(* ===== verification/Monitor.thy ===== *)
theory Monitor
  imports Utils
begin

text \<open>
  \<^verbatim>\<open>bm_echo_server.py\<close>: the durations it prints, and the byte counters it keeps per client of the
  echo server (\<open>_Client\<close>, the dictionary \<open>clients\<close> and the callbacks of \<open>MyEchoChannelHandler\<close>
  that maintain them).  Times are in nanoseconds.
\<close>

section \<open>Durations\<close>

definition TIME_DURATION_UNITS :: "(char \<times> nat) list" where
  "TIME_DURATION_UNITS = [(CHR ''W'', 60 * 60 * 24 * 7), (CHR ''D'', 60 * 60 * 24), (CHR ''H'', 60 * 60),
     (CHR ''M'', 60), (CHR ''S'', 1)]"

fun duration_parts :: "(char \<times> nat) list \<Rightarrow> nat \<Rightarrow> string list" where
  "duration_parts [] seconds = []"
| "duration_parts ((unit, divisor) # units) seconds =
     (if seconds div divisor > 0 then [nat_str (seconds div divisor) @ [unit]] else [])
       @ duration_parts units (seconds mod divisor)"

fun join_commas :: "string list \<Rightarrow> string" where
  "join_commas [] = []"
| "join_commas [s] = s"
| "join_commas (s # ss) = s @ '', '' @ join_commas ss"

definition pretty_duration :: "nat \<Rightarrow> string" where
  "pretty_duration seconds =
     (if seconds = 0 then ''0S'' else join_commas (duration_parts TIME_DURATION_UNITS seconds))"

text \<open>Reading a duration: digits make an amount, a unit adds it to the total, the rest is
  punctuation.\<close>

definition read_char :: "char \<Rightarrow> nat \<times> nat \<Rightarrow> nat \<times> nat" where
  "read_char c = (\<lambda>(amount, total).
     case map_of TIME_DURATION_UNITS c of
       Some divisor \<Rightarrow> (0, total + amount * divisor)
     | None \<Rightarrow>
         if 48 \<le> (of_char c :: nat) \<and> (of_char c :: nat) \<le> 57
         then (10 * amount + (of_char c - 48), total) else (amount, total))"

definition read_duration :: "string \<Rightarrow> nat" where
  "read_duration s = snd (fold read_char s (0, 0))"

lemma digit_no_unit: "n < 10 \<Longrightarrow> map_of TIME_DURATION_UNITS (digit n) = None"
proof -
  assume n: "n < 10"
  have "digit n \<noteq> c" if "of_char c \<ge> (58 :: nat)" for c
  proof
    assume "digit n = c"
    then have "of_char (digit n) = (of_char c :: nat)" by simp
    with n that show False by (simp add: of_char_digit)
  qed
  then show ?thesis by (simp add: TIME_DURATION_UNITS_def)
qed

lemma read_digit: "n < 10 \<Longrightarrow> read_char (digit n) (a, t) = (10 * a + n, t)"
  by (simp add: read_char_def digit_no_unit of_char_digit)

lemma read_number: "fold read_char (nat_str n) (0, t) = (n, t)"
proof (induction n rule: nat_str.induct)
  case (1 n)
  then show ?case by (subst nat_str.simps) (simp add: read_digit)
qed

lemma read_part:
  "map_of TIME_DURATION_UNITS u = Some d \<Longrightarrow> fold read_char (nat_str n @ [u]) (0, t) = (0, t + n * d)"
  by (simp add: read_number read_char_def)

lemma read_comma: "fold read_char '', '' p = p"
  by (cases p) (simp add: read_char_def TIME_DURATION_UNITS_def)

lemma read_join:
  assumes "\<forall>s \<in> set ss. \<forall>t. fold read_char s (0, t) = (0, t + v s)"
  shows "fold read_char (join_commas ss) (0, t) = (0, t + sum_list (map v ss))"
  using assms
proof (induction ss arbitrary: t rule: join_commas.induct)
  case (3 s s' ss)
  then show ?case using read_comma by (simp add: add.assoc)
qed simp_all

text \<open>What a part stands for.\<close>

definition part_value :: "string \<Rightarrow> nat" where
  "part_value s = snd (fold read_char s (0, 0))"

lemma part_value_part: "map_of TIME_DURATION_UNITS u = Some d \<Longrightarrow> part_value (nat_str n @ [u]) = n * d"
  by (simp add: part_value_def read_part del: fold_append)

lemma duration_parts_read:
  assumes "\<forall>(u, d) \<in> set us. map_of TIME_DURATION_UNITS u = Some d"
  shows "(\<forall>s \<in> set (duration_parts us n). \<forall>t. fold read_char s (0, t) = (0, t + part_value s))
    \<and> (us \<noteq> [] \<and> snd (List.last us) = 1 \<longrightarrow> sum_list (map part_value (duration_parts us n)) = n)"
  using assms
proof (induction us arbitrary: n)
  case (Cons p us)
  obtain u d where p: "p = (u, d)" by (cases p)
  with Cons.prems have u: "map_of TIME_DURATION_UNITS u = Some d" by simp
  have "\<forall>t. fold read_char (nat_str q @ [u]) (0, t) = (0, t + part_value (nat_str q @ [u]))" for q
    by (simp only: read_part[OF u] part_value_part[OF u]) simp
  moreover have "n div d * d + n mod d = n" "n div d = 0 \<Longrightarrow> n mod d = n"
    by (simp, metis add_0 div_mult_mod_eq mult_0)
  ultimately show ?case
    using Cons.IH[of "n mod d"] Cons.prems part_value_part[OF u, of "n div d"]
    by (cases "us = []") (auto simp: p)
qed simp

lemma read_pretty_duration: "read_duration (pretty_duration n) = n"
proof (cases "n = 0")
  case True
  then show ?thesis by (simp add: pretty_duration_def read_duration_def read_char_def TIME_DURATION_UNITS_def)
next
  case False
  have "\<forall>(u, d) \<in> set TIME_DURATION_UNITS. map_of TIME_DURATION_UNITS u = Some d"
    "TIME_DURATION_UNITS \<noteq> []" "snd (List.last TIME_DURATION_UNITS) = 1"
    by (simp_all add: TIME_DURATION_UNITS_def)
  note parts = duration_parts_read[OF this(1), of n] this(2,3)
  then have "fold read_char (join_commas (duration_parts TIME_DURATION_UNITS n)) (0, 0) = (0, n)"
    by (subst read_join[where v = part_value]) auto
  with False show ?thesis by (simp add: pretty_duration_def read_duration_def)
qed

section \<open>Counters of a client\<close>

record client =
  m_last_read_time :: int
  m_total_read_bytes :: nat
  m_cumulative_read_bytes :: nat
  m_cumulative_read_time :: int
  m_rbps :: int
  m_born_time :: int

definition new_monitored :: "int \<Rightarrow> client" where
  "new_monitored now = \<lparr>m_last_read_time = now, m_total_read_bytes = 0, m_cumulative_read_bytes = 0,
     m_cumulative_read_time = 0, m_rbps = 0, m_born_time = now\<rparr>"

definition client_read :: "int \<Rightarrow> nat \<Rightarrow> client \<Rightarrow> client" where
  "client_read current_time sz c =
     (let c = c\<lparr>m_cumulative_read_time := m_cumulative_read_time c + (current_time - m_last_read_time c),
             m_last_read_time := current_time, m_total_read_bytes := m_total_read_bytes c + sz,
             m_cumulative_read_bytes := m_cumulative_read_bytes c + sz\<rparr> in
      if m_cumulative_read_time c > 10 ^ 9
      then c\<lparr>m_rbps := int (m_cumulative_read_bytes c) * 10 ^ 9 div m_cumulative_read_time c,
             m_cumulative_read_time := 0, m_cumulative_read_bytes := 0\<rparr>
      else c)"

definition client_check :: "int \<Rightarrow> client \<Rightarrow> client" where
  "client_check now c =
     (if now - m_last_read_time c > 2 * 10 ^ 9
      then c\<lparr>m_rbps := 0, m_cumulative_read_time := 0, m_cumulative_read_bytes := 0\<rparr> else c)"

text \<open>The reads and checks of a client in the order they happen.\<close>

datatype monitored = MRead int nat | MCheck int

fun monitor_step :: "monitored \<Rightarrow> client \<Rightarrow> client" where
  "monitor_step (MRead t n) c = client_read t n c"
| "monitor_step (MCheck t) c = client_check t c"

fun read_sizes :: "monitored list \<Rightarrow> nat" where
  "read_sizes [] = 0"
| "read_sizes (MRead t n # es) = n + read_sizes es"
| "read_sizes (MCheck t # es) = read_sizes es"

fun at_time :: "monitored \<Rightarrow> int" where
  "at_time (MRead t n) = t"
| "at_time (MCheck t) = t"

definition counters_ok :: "client \<Rightarrow> bool" where
  "counters_ok c \<longleftrightarrow> 0 \<le> m_cumulative_read_time c \<and> m_cumulative_read_time c \<le> 10 ^ 9 \<and> 0 \<le> m_rbps c
     \<and> m_cumulative_read_bytes c \<le> m_total_read_bytes c"

text \<open>With a clock that does not go back, the total counts every byte read, the window of the speed
  stays within a second and the speed is not negative; it is the average of the bytes of the window.\<close>

lemma client_read_ok:
  "counters_ok c \<Longrightarrow> m_last_read_time c \<le> t \<Longrightarrow> counters_ok (client_read t n c)
     \<and> m_last_read_time (client_read t n c) = t
     \<and> m_total_read_bytes (client_read t n c) = m_total_read_bytes c + n"
  by (auto simp: counters_ok_def client_read_def Let_def pos_imp_zdiv_nonneg_iff)

lemma client_check_ok:
  "counters_ok c \<Longrightarrow> counters_ok (client_check t c) \<and> m_last_read_time (client_check t c) = m_last_read_time c
     \<and> m_total_read_bytes (client_check t c) = m_total_read_bytes c"
  by (auto simp: counters_ok_def client_check_def)

lemma monitor_counts:
  assumes "counters_ok c" "sorted (m_last_read_time c # map at_time es)"
  shows "counters_ok (fold monitor_step es c)
    \<and> m_total_read_bytes (fold monitor_step es c) = m_total_read_bytes c + read_sizes es"
  using assms
proof (induction es arbitrary: c)
  case (Cons e es)
  show ?case
  proof (cases e)
    case (MRead t n)
    with Cons.prems client_read_ok[of c t n] have "counters_ok (client_read t n c)"
      "sorted (m_last_read_time (client_read t n c) # map at_time es)" by auto
    from Cons.IH[OF this] MRead client_read_ok[of c t n] Cons.prems show ?thesis by simp
  next
    case (MCheck t)
    with Cons.prems client_check_ok[of c t] have "counters_ok (client_check t c)"
      "sorted (m_last_read_time (client_check t c) # map at_time es)" by auto
    from Cons.IH[OF this] MCheck client_check_ok[of c t] Cons.prems show ?thesis by simp
  qed
qed simp

section \<open>The dictionary of clients\<close>

text \<open>\<open>clients\<close> is a \<open>defaultdict\<close>: reading an absent key makes a new client.  The callbacks of the
  handler of the connection with peer \<open>raddr\<close>.\<close>

definition clients_get :: "int \<Rightarrow> 'a \<Rightarrow> ('a, client) dict \<Rightarrow> client \<times> ('a, client) dict" where
  "clients_get now raddr d =
     (case dict_get d raddr of
        Some c \<Rightarrow> (c, d)
      | None \<Rightarrow> (new_monitored now, dict_set raddr (new_monitored now) d))"

definition monitor_active :: "int \<Rightarrow> 'a \<Rightarrow> ('a, client) dict \<Rightarrow> ('a, client) dict" where
  "monitor_active now raddr d = snd (clients_get now raddr d)"

definition monitor_read :: "int \<Rightarrow> 'a \<Rightarrow> nat \<Rightarrow> ('a, client) dict \<Rightarrow> ('a, client) dict" where
  "monitor_read now raddr sz d =
     (let (c, d) = clients_get now raddr d in dict_set raddr (client_read now sz c) d)"

definition monitor_inactive :: "'a \<Rightarrow> ('a, client) dict \<Rightarrow> exn + ('a, client) dict" where
  "monitor_inactive raddr d =
     (if raddr \<in> dict_keys d then Inr (dict_pop raddr d) else Inl KeyError)"

text \<open>Activity, reads and inactivity of one connection, in the order the loop fires them, leave the
  other clients alone and the dictionary without this one.\<close>

lemma monitor_life:
  "\<exists>d'. monitor_inactive raddr (fold (\<lambda>(t, n). monitor_read t raddr n) reads (monitor_active now raddr d)) = Inr d'
    \<and> dict_get d' raddr = None \<and> (\<forall>a. a \<noteq> raddr \<longrightarrow> dict_get d' a = dict_get d a)"
proof -
  have get: "snd (clients_get t raddr e) = e \<or> (\<exists>c. snd (clients_get t raddr e) = dict_set raddr c e)"
    and key: "raddr \<in> dict_keys (snd (clients_get t raddr e))" for t and e :: "('a, client) dict"
    by (auto simp: clients_get_def dict.keys_get split: option.split)
  have others: "dict_get (snd (clients_get t raddr e)) a = dict_get e a" if "a \<noteq> raddr" for t a and e :: "('a, client) dict"
    using get[of t e] that by auto
  define e where "e = fold (\<lambda>(t, n). monitor_read t raddr n) reads (monitor_active now raddr d)"
  have "raddr \<in> dict_keys (fold (\<lambda>(t, n). monitor_read t raddr n) reads x)
      \<and> (\<forall>a. a \<noteq> raddr \<longrightarrow> dict_get (fold (\<lambda>(t, n). monitor_read t raddr n) reads x) a = dict_get x a)"
    if "raddr \<in> dict_keys x" for x
    using that
  proof (induction reads arbitrary: x)
    case (Cons p reads)
    obtain t n where p: "p = (t, n)" by (cases p)
    have "raddr \<in> dict_keys (monitor_read t raddr n x)"
      "\<forall>a. a \<noteq> raddr \<longrightarrow> dict_get (monitor_read t raddr n x) a = dict_get x a"
      using others by (auto simp: monitor_read_def split: prod.split) (metis snd_conv)
    with Cons.IH[of "monitor_read t raddr n x"] p show ?case by simp
  qed simp
  from this[of "monitor_active now raddr d"] key others
  have "raddr \<in> dict_keys e" "\<forall>a. a \<noteq> raddr \<longrightarrow> dict_get e a = dict_get d a"
    by (simp_all add: e_def monitor_active_def)
  then show ?thesis unfolding e_def[symmetric] by (simp add: monitor_inactive_def)
qed

end
