(* ===== verification/EchoServers.thy ===== *)
theory EchoServers
  imports Monitor Report "HOL-Library.Multiset"
begin

text \<open>
  The rest of \<^verbatim>\<open>bm_echo_server.py\<close>: how sizes are printed, the round of \<open>clients_check\<close> that prints the
  clients, and the handlers of the echo server on blocking sockets (\<open>__handle\<close>) and on asyncio
  (\<open>_handle_client\<close>), which keep the same dictionary of clients as the handler on this library.
\<close>

section \<open>Sizes\<close>

definition round_to :: "nat \<Rightarrow> rat \<Rightarrow> rat" where
  "round_to k x = of_int (round_half_even (x * 10 ^ k)) / 10 ^ k"

lemma round_to_near: "x - 1/20 \<le> round_to 1 x \<and> round_to 1 x \<le> x + 1/20"
proof -
  define r where "r = (of_int (round_half_even (x * 10)) :: rat)"
  have "\<bar>r - x * 10\<bar> \<le> 1/2" using round_half_even_near[of "x * 10"] by (simp add: r_def)
  then have "r - x * 10 \<le> 1/2" "x * 10 - r \<le> 1/2" by linarith+
  then show ?thesis by (simp add: round_to_def flip: r_def)
qed

function format_loop :: "rat \<Rightarrow> nat \<Rightarrow> rat \<times> nat" where
  "format_loop sz n = (if sz > 1024 then format_loop (round_to 1 (sz / 1024)) (Suc n) else (sz, n))"
  by pat_completeness auto

termination
proof (relation "measure (\<lambda>(sz, n). nat \<lfloor>sz\<rfloor>)", simp)
  fix sz :: rat and n :: nat
  assume "sz > 1024"
  moreover from this round_to_near[of "sz / 1024"] have "round_to 1 (sz / 1024) \<le> sz - 1" by linarith
  ultimately have "\<lfloor>round_to 1 (sz / 1024)\<rfloor> < \<lfloor>sz\<rfloor>" "0 < \<lfloor>sz\<rfloor>" by linarith+
  then show "((round_to 1 (sz / 1024), Suc n), (sz, n)) \<in> measure (\<lambda>(sz, n). nat \<lfloor>sz\<rfloor>)" by simp
qed

declare format_loop.simps [simp del]

definition power_labels :: "(nat, string) dict" where
  "power_labels = [(0, []), (1, ''k''), (2, ''m''), (3, ''g''), (4, ''t'')]"

definition format_bytes :: "int \<Rightarrow> exn + (rat \<times> string)" where
  "format_bytes sz =
     (let (v, n) = format_loop (of_int sz) 0 in
      case dict_get power_labels n of
        None \<Rightarrow> Inl KeyError
      | Some l \<Rightarrow> Inr (v, l))"

definition pretty_speed :: "client \<Rightarrow> exn + string" where
  "pretty_speed c = map_sum id (\<lambda>(v, unit). fixed_point 2 v @ '' '' @ unit @ ''/s'') (format_bytes (m_rbps c))"

text \<open>Without a unit the value is the number itself.\<close>

definition pretty_total :: "client \<Rightarrow> exn + string" where
  "pretty_total c = map_sum id
     (\<lambda>(v, unit). if unit \<noteq> [] then fixed_point 2 v @ '' '' @ unit else nat_str (m_total_read_bytes c) @ '' B'')
     (format_bytes (int (m_total_read_bytes c)))"

text \<open>\<open>pretty_duration\<close> is given a floating-point number here, which is compared with 0 before it is cut to
  whole seconds.\<close>

definition pretty_born_time :: "int \<Rightarrow> client \<Rightarrow> string" where
  "pretty_born_time now c =
     (if now - m_born_time c = 0 then ''0S''
      else join_commas (duration_parts TIME_DURATION_UNITS (nat ((now - m_born_time c) div 10 ^ 9))))"

definition lower :: "string \<Rightarrow> string" where
  "lower s = map (\<lambda>c. if 65 \<le> (of_char c :: nat) \<and> (of_char c :: nat) \<le> 90 then char_of (of_char c + 32 :: nat) else c) s"

lemma format_loop_bounds:
  "format_loop sz n = (v, k) \<Longrightarrow> v \<le> 1024 \<and> n \<le> k \<and> (9/10 \<le> sz \<longrightarrow> 9/10 \<le> v) \<and> (sz \<le> 1024 \<longrightarrow> v = sz \<and> k = n)"
proof (induction sz n arbitrary: v k rule: format_loop.induct)
  case (1 sz n)
  show ?case
  proof (cases "sz > 1024")
    case True
    have "9/10 \<le> round_to 1 (sz / 1024)" using True round_to_near[of "sz / 1024"] by linarith
    moreover have "format_loop (round_to 1 (sz / 1024)) (Suc n) = (v, k)"
      using 1(2) True by (subst (asm) format_loop.simps) simp
    ultimately show ?thesis using 1(1)[OF True, of v k] True by simp
  next
    case False
    with 1(2) show ?thesis by (subst (asm) format_loop.simps) auto
  qed
qed

text \<open>A printed size is at most 1024 of its unit; under a unit it is at least 0.9.\<close>

lemma format_bytes_bounds:
  assumes "0 \<le> sz" "format_bytes sz = Inr (v, unit)"
  shows "0 \<le> v \<and> v \<le> 1024 \<and> (unit = [] \<longleftrightarrow> sz \<le> 1024) \<and> (if unit = [] then v = of_int sz else 9/10 \<le> v)"
proof -
  obtain k where k: "format_loop (of_int sz) 0 = (v, k)" "dict_get power_labels k = Some unit"
    using assms(2) by (auto simp: format_bytes_def split: prod.splits option.splits)
  have b: "v \<le> 1024" "9/10 \<le> (of_int sz :: rat) \<longrightarrow> 9/10 \<le> v" "(of_int sz :: rat) \<le> 1024 \<longrightarrow> v = of_int sz \<and> k = 0"
    using format_loop_bounds[OF k(1)] by auto
  have u: "unit = [] \<longleftrightarrow> k = 0"
    using k(2) by (auto simp: power_labels_def dict_get_def split: if_splits)
  show ?thesis
  proof (cases "sz \<le> 1024")
    case True
    then have "(of_int sz :: rat) \<le> 1024" by (metis of_int_le_iff of_int_numeral)
    with b u True assms(1) show ?thesis by simp
  next
    case False
    then have s: "(of_int sz :: rat) > 1024" by (metis not_le of_int_le_iff of_int_numeral)
    then have "format_loop (round_to 1 (of_int sz / 1024)) 1 = (v, k)"
      using k(1) by (subst (asm) format_loop.simps) simp
    from format_loop_bounds[OF this] have "k \<noteq> 0" by simp
    with b u False s show ?thesis by auto
  qed
qed

text \<open>From the first second on the duration is the one of \<open>pretty_duration\<close>; before, it is empty.\<close>

lemma pretty_born_time_cases:
  "10 ^ 9 \<le> now - m_born_time c \<Longrightarrow> pretty_born_time now c = pretty_duration (nat ((now - m_born_time c) div 10 ^ 9))"
  "0 < now - m_born_time c \<Longrightarrow> now - m_born_time c < 10 ^ 9 \<Longrightarrow> pretty_born_time now c = []"
proof -
  assume a: "10 ^ 9 \<le> now - m_born_time c"
  then have "1 \<le> (now - m_born_time c) div 10 ^ 9" using zdiv_mono1[OF a, of "10 ^ 9"] by simp
  with a show "pretty_born_time now c = pretty_duration (nat ((now - m_born_time c) div 10 ^ 9))"
    by (simp add: pretty_born_time_def pretty_duration_def)
next
  assume "0 < now - m_born_time c" "now - m_born_time c < 10 ^ 9"
  then show "pretty_born_time now c = []"
    by (simp add: pretty_born_time_def TIME_DURATION_UNITS_def div_pos_pos_trivial)
qed

text \<open>There is no label for the fifth power.\<close>

lemma round_to_numeral [simp]: "round_to k (numeral i) = numeral i"
proof -
  have "round_half_even (numeral i * 10 ^ k) = numeral i * 10 ^ k"
    using round_half_even_int[of "numeral i * 10 ^ k"] by simp
  then show ?thesis by (simp add: round_to_def)
qed

lemma petabytes_are_not_printed: "format_bytes (1025 * 1024 ^ 4) = Inl KeyError"
proof -
  have "\<lfloor>5125 / 512 :: rat\<rfloor> = 10" by linarith
  then have "round_to 1 (1025 / 1024) = 1" by (simp add: round_to_def round_half_even_def Let_def)
  then show ?thesis
    by (simp add: format_bytes_def format_loop.simps power_labels_def dict_get_def)
qed

section \<open>The other servers\<close>

text \<open>The loop of the two handlers: \<open>recvs\<close> are the results of \<open>recv\<close> or \<open>read\<close> (\<open>None\<close> is returned when they
  are used up and the handler still waits), \<open>sends k\<close> what the \<open>k\<close>-th send did when it failed.  The
  empty read at the end is counted too, with size 0.\<close>

fun handle_loop ::
    "(nat \<Rightarrow> int) \<Rightarrow> 'a \<Rightarrow> (nat \<Rightarrow> (nat \<times> exn) option) \<Rightarrow> nat \<Rightarrow> (exn + bytes) list \<Rightarrow> bytes \<Rightarrow> ('a, client) dict
      \<Rightarrow> unit outcome option \<times> bytes \<times> ('a, client) dict" where
  "handle_loop clock address sends k [] out d = (None, out, d)"
| "handle_loop clock address sends k (r # recvs) out d =
     (case r of
        Inl e \<Rightarrow> (Some (Raise e), out, d)
      | Inr buffer \<Rightarrow>
          (let d = monitor_read (clock k) address (length buffer) d in
           if buffer = [] then (Some (Ret ()), out, d)
           else case sends k of
             Some (n, e) \<Rightarrow> (Some (Raise e), out @ take n buffer, d)
           | None \<Rightarrow> handle_loop clock address sends (Suc k) recvs (out @ buffer) d))"

definition handle_connection ::
    "(nat \<Rightarrow> int) \<Rightarrow> int \<Rightarrow> 'a \<Rightarrow> (nat \<Rightarrow> (nat \<times> exn) option) \<Rightarrow> (exn + bytes) list \<Rightarrow> ('a, client) dict
      \<Rightarrow> unit outcome option \<times> bytes \<times> ('a, client) dict" where
  "handle_connection clock now address sends recvs d =
     (case handle_loop clock address sends 0 recvs [] (monitor_active now address d) of
        (None, out, d) \<Rightarrow> (None, out, d)
      | (Some r, out, d) \<Rightarrow>
          (case monitor_inactive address d of
             Inl e \<Rightarrow> (Some (Raise e), out, d)
           | Inr d \<Rightarrow> (Some r, out, d)))"

lemma handle_loop_reads:
  "\<exists>reads. snd (snd (handle_loop clock address sends k recvs out d)) = fold (\<lambda>(t, n). monitor_read t address n) reads d"
proof (induction clock address sends k recvs out d rule: handle_loop.induct)
  case (2 clock address sends k r recvs out d)
  show ?case
  proof (cases r)
    case (Inl e)
    then show ?thesis by (intro exI[of _ "[]"]) simp
  next
    case (Inr buffer)
    show ?thesis
    proof (cases "buffer = [] \<or> sends k \<noteq> None")
      case True
      with Inr show ?thesis
        by (intro exI[of _ "[(clock k, length buffer)]"]) (auto simp: Let_def split: option.split)
    next
      case False
      then have b: "buffer \<noteq> []" "sends k = None" by (cases "sends k"; simp)+
      from 2[OF Inr refl b] obtain reads where
        "snd (snd (handle_loop clock address sends (Suc k) recvs (out @ buffer) (monitor_read (clock k) address (length buffer) d)))
          = fold (\<lambda>(t, n). monitor_read t address n) reads (monitor_read (clock k) address (length buffer) d)"
        by blast
      with b Inr show ?thesis
        by (intro exI[of _ "(clock k, length buffer) # reads"]) (simp add: Let_def)
    qed
  qed
qed (intro exI[of _ "[]"], simp)

lemma handle_loop_echoes:
  "\<exists>sent. fst (snd (handle_loop clock address sends k recvs out d)) = out @ sent \<and> prefix sent (received recvs)
    \<and> (fst (handle_loop clock address sends k recvs out d) = Some (Ret ()) \<longrightarrow> sent = received recvs)"
proof (induction clock address sends k recvs out d rule: handle_loop.induct)
  case (2 clock address sends k r recvs out d)
  show ?case
  proof (cases "\<exists>buffer. r = Inr buffer \<and> buffer \<noteq> []")
    case False
    then show ?thesis by (intro exI[of _ "[]"]) (auto simp: Let_def split: sum.splits)
  next
    case True
    then obtain buffer where b: "r = Inr buffer" "buffer \<noteq> []" by auto
    show ?thesis
    proof (cases "sends k")
      case None
      from 2[OF b(1) refl b(2) None] obtain sent where
        "fst (snd (handle_loop clock address sends (Suc k) recvs (out @ buffer) (monitor_read (clock k) address (length buffer) d)))
          = (out @ buffer) @ sent" "prefix sent (received recvs)"
        "fst (handle_loop clock address sends (Suc k) recvs (out @ buffer) (monitor_read (clock k) address (length buffer) d))
          = Some (Ret ()) \<longrightarrow> sent = received recvs"
        by blast
      with b None show ?thesis by (intro exI[of _ "buffer @ sent"]) (simp add: Let_def)
    next
      case (Some p)
      with b show ?thesis
        by (cases p, intro exI[of _ "take (fst p) buffer"])
          (auto simp: Let_def intro: prefix_order.trans[OF take_is_prefix])
    qed
  qed
qed simp

text \<open>A handler that ends has forgotten its client and left the others alone; when it ends without an
  exception it has sent back all it received.\<close>

lemma handle_connection_life:
  assumes "handle_connection clock now address sends recvs d = (Some r, out, d')"
  shows "dict_get d' address = None \<and> (\<forall>a. a \<noteq> address \<longrightarrow> dict_get d' a = dict_get d a)
    \<and> prefix out (received recvs) \<and> (r = Ret () \<longrightarrow> out = received recvs)"
proof -
  let ?h = "handle_loop clock address sends 0 recvs [] (monitor_active now address d)"
  obtain r1 out1 d1 where h: "?h = (r1, out1, d1)" by (cases ?h)
  obtain reads where reads: "d1 = fold (\<lambda>(t, n). monitor_read t address n) reads (monitor_active now address d)"
    using handle_loop_reads[of clock address sends 0 recvs "[]" "monitor_active now address d"] by (auto simp: h)
  obtain d2 where d2: "monitor_inactive address d1 = Inr d2" "dict_get d2 address = None"
    "\<forall>a. a \<noteq> address \<longrightarrow> dict_get d2 a = dict_get d a"
    using monitor_life[of address reads now d] unfolding reads by blast
  have "r1 = Some r" "out1 = out" "d2 = d'"
    using assms d2(1) by (auto simp: handle_connection_def h split: option.splits)
  with d2 handle_loop_echoes[of clock address sends 0 recvs "[]" "monitor_active now address d"] show ?thesis
    by (simp add: h)
qed

section \<open>The printed table\<close>

text \<open>One round of \<open>clients_check\<close>; it works on a copy of the dictionary whose values are the clients
  themselves.  What is printed is kept as data: the header of a round with clients or of an idle one, one row
  per client in the order of their birth, and the average of the speeds.  A size that cannot be printed ends the thread.  Its state are the variables
  \<open>ever\<close>, \<open>zzz\<close> and \<open>rounds\<close>.\<close>

datatype 'a row =
    Header nat nat rat
  | Idle nat
  | Row nat 'a string string string
  | Average rat

record check_state =
  ch_ever :: bool
  ch_zzz :: nat
  ch_rounds :: nat

fun check_rows :: "int \<Rightarrow> nat \<Rightarrow> ('a \<times> client) list \<Rightarrow> exn + 'a row list" where
  "check_rows now num [] = Inr []"
| "check_rows now num ((address, c) # items) =
     (let c = client_check now c in
      case pretty_speed c of Inl e \<Rightarrow> Inl e
      | Inr pspeed \<Rightarrow> (case pretty_total c of Inl e \<Rightarrow> Inl e
      | Inr ptotal \<Rightarrow> map_sum id ((#) (Row num address pspeed ptotal (lower (pretty_born_time now c))))
          (check_rows now (Suc num) items)))"

definition clients_check_round ::
    "int \<Rightarrow> ('a, client) dict \<Rightarrow> check_state \<Rightarrow> (exn + 'a row list) \<times> ('a, client) dict \<times> check_state" where
  "clients_check_round now clients s =
     (let items = sort_key (\<lambda>p. m_born_time (snd p)) clients;
          n = length clients;
          (header, s) =
            (if n \<noteq> 0
             then ([Header n (Suc (ch_rounds s))
                      (round_to 2 (seconds (m_born_time (snd (List.last items)) - m_born_time (snd (hd items)))))],
                   s\<lparr>ch_rounds := Suc (ch_rounds s), ch_ever := True, ch_zzz := 0\<rparr>)
             else if ch_zzz s mod 60 = 0 \<and> ch_ever s
             then ([Idle (Suc (ch_rounds s))], s\<lparr>ch_rounds := Suc (ch_rounds s), ch_zzz := Suc (ch_zzz s)\<rparr>)
             else ([], s\<lparr>ch_zzz := Suc (ch_zzz s)\<rparr>));
          checked = map (\<lambda>(a, c). (a, client_check now c)) clients;
          average = (if n \<noteq> 0
            then [Average (round_to 2 (of_int (sum_list (map (\<lambda>p. m_rbps (snd p)) checked)) / of_nat n))] else []) in
      case check_rows now 1 items of
        Inl e \<Rightarrow> (Inl e, checked, s)
      | Inr rows \<Rightarrow> (Inr (header @ rows @ average), checked, s))"

text \<open>The rows number the clients from 1 on, in the order given.\<close>

fun row_key :: "'a row \<Rightarrow> (nat \<times> 'a) option" where
  "row_key (Row n a _ _ _) = Some (n, a)"
| "row_key _ = None"

lemma check_rows_keys:
  "check_rows now num items = Inr rows \<Longrightarrow>
     map row_key rows = map Some (zip [num..<num + length items] (map fst items))"
proof (induction now num items arbitrary: rows rule: check_rows.induct)
  case (2 now num address c items)
  obtain ps pt where p: "pretty_speed (client_check now c) = Inr ps" "pretty_total (client_check now c) = Inr pt"
    using 2(2) by (cases "pretty_speed (client_check now c)"; cases "pretty_total (client_check now c)") (simp_all add: Let_def)
  with 2(2) obtain rows' where r: "check_rows now (Suc num) items = Inr rows'"
    "rows = Row num address ps pt (lower (pretty_born_time now (client_check now c))) # rows'"
    by (cases "check_rows now (Suc num) items") (auto simp: Let_def)
  from 2(1)[OF refl p r(1)] r(2) show ?case by (simp add: upt_conv_Cons del: upt_Suc)
qed simp

text \<open>A round prints one row per client, those who came first first, and changes nothing but the speed
  windows of the clients that have been silent.\<close>

lemma round_prints_everybody:
  assumes "clients_check_round now clients s = (Inr rows, clients', s')"
  shows "\<exists>order. mset order = mset (map fst clients) \<and> List.map_filter row_key rows = zip [1..<Suc (length clients)] order
    \<and> clients' = map (\<lambda>(a, c). (a, client_check now c)) clients"
proof -
  let ?items = "sort_key (\<lambda>p. m_born_time (snd p)) clients"
  have mf: "map row_key xs = map Some ys \<Longrightarrow> List.map_filter row_key xs = ys" for xs and ys :: "(nat \<times> 'a) list"
    by (induction xs arbitrary: ys) (auto simp: List.map_filter_simps Cons_eq_map_conv)
  show ?thesis
  proof (cases "clients = []")
    case True
    with assms show ?thesis
      by (intro exI[of _ "[]"]) (auto simp: clients_check_round_def Let_def List.map_filter_simps split: if_splits)
  next
    case False
    obtain rs where rs: "check_rows now (Suc 0) ?items = Inr rs"
      using assms False by (cases "check_rows now (Suc 0) ?items") (auto simp: clients_check_round_def Let_def)
    obtain a b c d where h: "rows = Header a b c # rs @ [Average d]" "clients' = map (\<lambda>(a, c). (a, client_check now c)) clients"
      using assms False by (auto simp: clients_check_round_def Let_def rs)
    have "List.map_filter row_key rs = zip [Suc 0..<Suc 0 + length ?items] (map fst ?items)"
      by (rule mf[OF check_rows_keys[OF rs]])
    moreover have "List.map_filter row_key rows = List.map_filter row_key rs"
      by (simp add: h(1) List.map_filter_def)
    moreover have "mset (map fst ?items) = mset (map fst clients)" by (simp only: mset_map mset_sort)
    ultimately show ?thesis using h(2) by (intro exI[of _ "map fst ?items"]) simp
  qed
qed

end
