(* ===== verification/Samples.thy ===== *)
theory Samples
  imports Demo Serving Tls Verdicts EchoServers
begin

text \<open>
  Concrete instances for the theories around the library: a server whose child group has two loops, a
  module \<open>ssl\<close> whose settings are lists of strings, and a benchmark run against echoing servers.
\<close>

section \<open>A server with two child loops\<close>

definition demo_child :: "tid \<Rightarrow> world" where
  "demo_child t = (eventloop_init True 3 4)\<lparr>w_thread := Some t, w_started := True, w_selector := [(3, 1)]\<rparr>"

definition demo_system :: system where
  "demo_system = \<lparr>sy_parent = demo_world, sy_group = new_group 2, sy_loops = (\<lambda>l. demo_child (Suc l))\<rparr>"

lemma demo_child_simps [simp]:
  "loop_running t (demo_child u) \<longleftrightarrow> t = u" "w_taskq (demo_child t) = []" "w_next_cid (demo_child t) = 0"
  "w_selector (demo_child t) = [(3, 1)]"
  by (auto simp: demo_child_def eventloop_init_def loop_running_def in_eventloop_def)

lemma demo_system_simps [simp]:
  "sy_group demo_system = new_group 2" "sy_loops demo_system l = demo_child (Suc l)"
  "g_loops (new_group 2) = 2" "g_calls (new_group 2) = 0"
  by (simp_all add: demo_system_def new_group_def)

section \<open>TLS settings\<close>

definition demo_ssl :: "string list ssl_lib" where
  "demo_ssl = \<lparr>sl_default = Inr [''default''], sl_unverified = Inr [''unverified''],
     sl_minimum_version = (\<lambda>v s. s @ [v]), sl_set_ciphers = (\<lambda>c s. Inr (s @ [c])),
     sl_server = Inr [''server''], sl_load_cert_chain = (\<lambda>c k s. Inr (s @ [c, k])),
     sl_wrap = (\<lambda>s fd host. Inr fd)\<rparr>"

section \<open>A run of the benchmark\<close>

text \<open>Connections in the order of the clients, each byte received on its own, the clients in turn.\<close>

definition echo_env_of :: "case_spec \<Rightarrow> case_env" where
  "echo_env_of spec = \<lparr>ce_connects = map (\<lambda>i. (i, Inr \<lparr>bs_in = [], bs_out = [], bs_calls = 0\<rparr>)) [0..<nat (cs_connections spec)],
     ce_connect_timeout = False, ce_clients_timeout = False, ce_give = (\<lambda>i k. 1), ce_peer = (\<lambda>x. x),
     ce_clock = (\<lambda>i k. int k), ce_sched = [0..<nat (cs_connections spec)], ce_done = (\<lambda>i. 0), ce_ramp_up = 1, ce_elapsed = 1\<rparr>"

definition echo_netty :: "case_spec \<Rightarrow> netty_env" where
  "echo_netty spec = \<lparr>nc_connects = replicate (nat (cs_connections spec)) (Inr ()),
     nc_data = (\<lambda>i. map (frame_at i (nat (cs_payload_size spec))) [0..<nat (cs_messages spec)]),
     nc_clock = (\<lambda>i k. int k), nc_sched = [],
     nc_waited = nat (cs_connections spec) * Suc (nat (cs_messages spec)), nc_closes = [], nc_ramp_up = 1, nc_elapsed = 1\<rparr>"

lemma echo_env_connected: "spec_ok spec \<Longrightarrow> all_connected (echo_env_of spec) spec"
  by (auto simp: all_connected_def echo_env_of_def o_def)

lemma demo_echoing: "echoing echo_netty echo_env_of echo_env_of"
  unfolding echoing_def
  by (auto simp: echo_env_connected) (auto simp: echo_env_of_def echo_netty_def all_delivered_def o_def)

definition demo_spec :: case_spec where
  "demo_spec = new_spec ''demo'' 2 3 8 True"

lemma demo_spec_ok: "spec_ok demo_spec"
  by (simp add: demo_spec_def new_spec_def spec_ok_def header_size_def)

lemma demo_threaded_passes:
  "\<exists>r. run_threaded_case mul (echo_env_of demo_spec) demo_spec timeout = Inr r \<and> \<not> failed r"
  using threaded_case_passes[OF demo_spec_ok _ echo_env_connected[OF demo_spec_ok]] by (auto simp: echo_env_of_def)

definition demo_args :: args where
  "demo_args = \<lparr>ar_case = ''high_connection_scaling'', ar_engine = ''all'', ar_host = ''127.0.0.1'', ar_port = None,
     ar_timeout = 15, ar_connections = Some 2, ar_messages = None, ar_payload_size = None, ar_sequential = None,
     ar_client_eventloops = None, ar_json = False\<rparr>"

lemma demo_args_ok: "check_args False demo_args = Inr demo_args" "overrides_ok demo_args"
  by (simp_all add: check_args_def demo_args_def CASE_GROUPS_def overrides_ok_def)

lemma demo_args_selected: "length (selected_cases demo_args) = 3" "length (selected_engines demo_args) = 3"
  by (simp_all add: demo_args_def selected_cases_def selected_engines_def ENGINES_def CASE_GROUPS_def ALL_CASES_def
      DEFAULT_CASES_def HIGH_CONNECTION_CASES_def named_def new_spec_def dict_get_def List.map_filter_simps)

end
