(* ===== verification/Outside.thy ===== *)
theory Outside
  imports Tasks Writing
begin

text \<open>
  Writes from other threads: \<open>write\<close> makes a future and a task, the loop's thread gives the data to the
  channel when it gets to the task.
\<close>

text \<open>The writes of other threads, in the order in which they get to the queue.\<close>

fun outside_writes :: "env \<Rightarrow> cid \<Rightarrow> (tid \<times> bytes) list \<Rightarrow> world \<Rightarrow> world" where
  "outside_writes E c [] w = w"
| "outside_writes E c ((t, buf) # ws) w = outside_writes E c ws (snd (channel_write E t c buf None w))"

definition open_loop :: "world \<Rightarrow> bool" where
  "open_loop w \<longleftrightarrow> w_started w \<and> \<not> w_stop_polling w \<and> \<not> w_closed w"

lemma outside_write:
  assumes "open_loop w" "\<not> in_eventloop t w"
  shows "channel_write E t c buf None w = (Ret (w_next_fid w), (snd (new_future w))\<lparr>
    w_taskq := w_taskq w @ [TWrite c buf (w_next_fid w)], w_tasks_submitted := w_tasks_submitted w + 1,
    w_eventfd := snd (eventfd_unsafe_write (w_eventfd w))\<rparr>)"
proof -
  have "w_started (snd (new_future w))" "\<not> w_stop_polling (snd (new_future w))" "\<not> w_closed (snd (new_future w))"
    "\<not> in_eventloop t (snd (new_future w))"
    using assms by (simp_all add: open_loop_def new_future_def in_eventloop_def)
  then show ?thesis
    by (simp add: channel_write_def submit_task_running new_future_def)
qed

text \<open>What such writes leave behind: a task each, with a pending future of its own; the channel is untouched.\<close>

definition queued_writes :: "cid \<Rightarrow> bytes list \<Rightarrow> world \<Rightarrow> world \<Rightarrow> bool" where
  "queued_writes c bufs w w' \<longleftrightarrow>
     w_taskq w' = w_taskq w @ map (\<lambda>(i, b). TWrite c b (w_next_fid w + i)) (enumerate 0 bufs)
     \<and> w_next_fid w' = w_next_fid w + length bufs
     \<and> (\<forall>f. w_futs w' f = (if w_next_fid w \<le> f \<and> f < w_next_fid w' then FPending else w_futs w f))
     \<and> w_chans w' = w_chans w \<and> w_thread w' = w_thread w"

lemma outside_writes_queue:
  assumes "open_loop w" "\<forall>(t, b) \<in> set ws. \<not> in_eventloop t w"
  shows "queued_writes c (map snd ws) w (outside_writes E c ws w)"
  using assms
proof (induction ws arbitrary: w)
  case Nil
  then show ?case by (auto simp: queued_writes_def)
next
  case (Cons p ws)
  obtain t buf where p: "p = (t, buf)" by (cases p)
  define w1 where "w1 = snd (channel_write E t c buf None w)"
  have out: "\<not> in_eventloop t w" using Cons.prems(2) by (simp add: p)
  note w1 = w1_def[unfolded outside_write[OF Cons.prems(1) out], simplified]
  have frame: "w_taskq w1 = w_taskq w @ [TWrite c buf (w_next_fid w)]" "w_next_fid w1 = Suc (w_next_fid w)"
    "w_futs w1 = (w_futs w)(w_next_fid w := FPending)" "w_chans w1 = w_chans w" "w_thread w1 = w_thread w"
    "open_loop w1" "\<And>t. in_eventloop t w1 = in_eventloop t w"
    using Cons.prems(1) by (simp_all add: w1 new_future_def open_loop_def in_eventloop_def)
  define w' where "w' = outside_writes E c ws w1"
  have "queued_writes c (map snd ws) w1 w'"
    unfolding w'_def using Cons.prems(2) by (intro Cons.IH frame(6)) (auto simp: frame(7))
  note q = this[unfolded queued_writes_def frame]
  have tasks: "map (\<lambda>(i, b). TWrite c b (Suc (w_next_fid w) + i)) (enumerate 0 (map snd ws))
      = map (\<lambda>(i, b). TWrite c b (w_next_fid w + i)) (enumerate (Suc 0) (map snd ws))"
    by (rule nth_equalityI) (simp_all add: nth_enumerate_eq)
  have "w_taskq w' = w_taskq w @ map (\<lambda>(i, b). TWrite c b (w_next_fid w + i)) (enumerate 0 (map snd ((t, buf) # ws)))"
    using q tasks by simp
  moreover have "w_next_fid w' = w_next_fid w + length (map snd ((t, buf) # ws))" using q by simp
  moreover have "\<forall>f. w_futs w' f = (if w_next_fid w \<le> f \<and> f < w_next_fid w' then FPending else w_futs w f)"
    using q by (auto simp: le_less)
  moreover have "w_chans w' = w_chans w \<and> w_thread w' = w_thread w" using q by simp
  ultimately show ?case by (simp only: queued_writes_def p outside_writes.simps w1_def[symmetric] w'_def[symmetric] simp_thms)
qed

text \<open>The loop's thread empties a queue of such tasks.\<close>

lemma process_writes:
  assumes "passive_listeners E" "send_ok (k_send (e_kernel E) c)" "io_ok th c w"
    and "w_taskq w = map (\<lambda>(f, b). TWrite c b f) ps" "distinct (map fst ps)"
    and "\<forall>f \<in> fst ` set ps. w_futs w f = FPending \<and> f < w_next_fid w
      \<and> f \<notin> ck_future ` set (c_pendings (w_chans w c))"
  shows "\<exists>w'. process_task_queue_loop E th w = Some (Ret (), w') \<and> io_ok th c w'
    \<and> chan_bytes c w' = chan_bytes c w @ concat (map snd ps)"
  using assms(3-6)
proof (induction ps arbitrary: w)
  case Nil
  then show ?case by (simp add: process_task_queue_loop.simps)
next
  case (Cons p ps)
  obtain f buf where p: "p = (f, buf)" by (cases p)
  let ?w = "w\<lparr>w_taskq := map (\<lambda>(f, b). TWrite c b f) ps\<rparr>"
  have same: "io_ok th c (u\<lparr>w_taskq := q, w_tasks_processed := n\<rparr>) = io_ok th c u"
    "chan_bytes c (u\<lparr>w_taskq := q, w_tasks_processed := n\<rparr>) = chan_bytes c u" for u q n
    by (simp_all add: io_ok_def accounted_def in_eventloop_def chan_bytes_def)
  have "io_ok th c ?w" using Cons.prems(1) by (simp add: io_ok_def accounted_def in_eventloop_def)
  moreover have "w_futs ?w f = FPending" "f < w_next_fid ?w"
    "\<forall>ck \<in> set (c_pendings (w_chans ?w c)). ck_future ck \<noteq> f"
    using Cons.prems(4) by (auto simp: p)
  ultimately obtain w1 where w1: "channel_write E th c buf (Some f) ?w = (Ret f, w1)" "io_ok th c w1"
    "chan_bytes c w1 = chan_bytes c ?w @ buf" "\<forall>g. g \<noteq> f \<longrightarrow> w_futs w1 g = w_futs w g"
    "w_next_fid w1 = w_next_fid w" "w_taskq w1 = map (\<lambda>(f, b). TWrite c b f) ps"
    "ck_future ` set (c_pendings (w_chans w1 c)) \<subseteq> insert f (ck_future ` set (c_pendings (w_chans w c)))"
    using io_write_given[OF assms(1,2), of th ?w f buf] by auto
  let ?w1 = "w1\<lparr>w_tasks_processed := w_tasks_processed w1 + 1\<rparr>"
  have step: "process_task_queue_loop E th w = process_task_queue_loop E th ?w1"
    by (subst process_task_queue_loop.simps) (simp add: Cons.prems(2) p run_task_logged_def run_task_def w1(1))
  have "io_ok th c ?w1" using w1(2) by (simp add: io_ok_def accounted_def in_eventloop_def)
  moreover have "\<forall>g \<in> fst ` set ps. w_futs ?w1 g = FPending \<and> g < w_next_fid ?w1
      \<and> g \<notin> ck_future ` set (c_pendings (w_chans ?w1 c))"
  proof
    fix g assume g: "g \<in> fst ` set ps"
    then have "g \<noteq> f" "w_futs w g = FPending" "g < w_next_fid w" "g \<notin> ck_future ` set (c_pendings (w_chans w c))"
      using Cons.prems(3,4) by (auto simp: p)
    then show "w_futs ?w1 g = FPending \<and> g < w_next_fid ?w1 \<and> g \<notin> ck_future ` set (c_pendings (w_chans ?w1 c))"
      using w1(4,5,7) by auto
  qed
  ultimately obtain w' where "process_task_queue_loop E th ?w1 = Some (Ret (), w')" "io_ok th c w'"
    "chan_bytes c w' = chan_bytes c ?w1 @ concat (map snd ps)"
    using Cons.IH[of ?w1] Cons.prems(3) w1(6) by auto
  then show ?case using step w1(3) by (auto simp: p chan_bytes_def)
qed

lemma outside_writes_reach:
  assumes "passive_listeners E" "send_ok (k_send (e_kernel E) c)" "io_ok th c w"
    and "open_loop w" "w_taskq w = []" "\<forall>(t, b) \<in> set ws. \<not> in_eventloop t w"
  shows "\<exists>w'. process_task_queue E th (outside_writes E c ws w) = (Ret (), w') \<and> io_ok th c w'
    \<and> chan_bytes c w' = chan_bytes c w @ concat (map snd ws)"
proof -
  define w1 where "w1 = outside_writes E c ws w"
  define ps where "ps = map (\<lambda>(i, b). (w_next_fid w + i, b)) (enumerate 0 (map snd ws))"
  have q: "queued_writes c (map snd ws) w w1"
    unfolding w1_def using assms(4,6) by (rule outside_writes_queue)
  note q = q[unfolded queued_writes_def]
  note ok = assms(3)[unfolded io_ok_def]
  have taskq: "w_taskq w1 = map (\<lambda>(f, b). TWrite c b f) ps"
    using q assms(5) by (simp add: ps_def case_prod_unfold o_def)
  have fsts: "map fst ps = map ((+) (w_next_fid w)) [0..<length ws]"
    by (rule nth_equalityI) (simp_all add: ps_def nth_enumerate_eq)
  have snds: "map snd ps = map snd ws"
    by (rule nth_equalityI) (simp_all add: ps_def nth_enumerate_eq)
  have io: "io_ok th c w1"
    using q ok by (auto simp: io_ok_def in_eventloop_def accounted_def queue_ok_def)
  have futs: "fst ` set ps = {w_next_fid w..<w_next_fid w1}"
    using q arg_cong[OF fsts, of set] by (simp add: image_add_atLeastLessThan add.commute)
  have "distinct (map fst ps)" by (simp add: fsts distinct_map)
  moreover have "\<forall>f \<in> fst ` set ps. w_futs w1 f = FPending \<and> f < w_next_fid w1
      \<and> f \<notin> ck_future ` set (c_pendings (w_chans w1 c))"
    unfolding futs using q ok by auto
  ultimately obtain w' where "process_task_queue_loop E th w1 = Some (Ret (), w')" "io_ok th c w'"
    "chan_bytes c w' = chan_bytes c w1 @ concat (map snd ps)"
    using process_writes[OF assms(1,2) io taskq] by blast
  then show ?thesis using q snds by (simp add: process_task_queue_def w1_def[symmetric] chan_bytes_def)
qed

end
