(* ===== verification/Conversation.thy ===== *)
theory Conversation
  imports Echo Outside "HOL-Library.Sublist"
begin

text \<open>
  Two programs that talk: a client whose application threads write to a channel of one loop, and an echo
  server, the channel of another loop, joined by a connection that carries what the kernel took from one
  socket to the other, in order, in pieces of any size.  Events of either loop, writes and the
  client's task queue interleave freely.
\<close>

section \<open>One end of a connection\<close>

text \<open>What a channel's handler was given to read.\<close>

definition got :: "cid \<Rightarrow> world \<Rightarrow> bytes" where
  "got c w = concat (map (\<lambda>(c', cb). case cb of ChannelReadBytes b \<Rightarrow> if c' = c then b else [] | _ \<Rightarrow> [])
     (w_events w))"

text \<open>A connection in use: its channel is active, known to the loop and nobody has asked to close it.\<close>

definition live :: "tid \<Rightarrow> fd \<Rightarrow> cid \<Rightarrow> world \<Rightarrow> bool" where
  "live th fd c w \<longleftrightarrow> io_ok th c w
     \<and> (let ch = w_chans w c in c_active ch \<and> c_ever_active ch \<and> \<not> c_server ch \<and> \<not> c_sockfd ch < 0
        \<and> w_futs w (c_close_future ch) = FPending \<and> c_close_future ch < w_next_fid w
        \<and> c_close_future ch \<notin> ck_future ` set (c_pendings ch))
     \<and> dict_get (w_channels w) fd = Some c \<and> fd \<noteq> eventfd_fileno (w_eventfd w)"

text \<open>What the events and writes of such a connection leave alone.\<close>

definition same_end :: "cid \<Rightarrow> world \<Rightarrow> world \<Rightarrow> bool" where
  "same_end c w w' \<longleftrightarrow>
     c_active (w_chans w' c) = c_active (w_chans w c) \<and> c_ever_active (w_chans w' c) = c_ever_active (w_chans w c)
     \<and> c_server (w_chans w' c) = c_server (w_chans w c) \<and> c_sockfd (w_chans w' c) = c_sockfd (w_chans w c)
     \<and> c_close_future (w_chans w' c) = c_close_future (w_chans w c)
     \<and> w_channels w' = w_channels w \<and> w_eventfd w' = w_eventfd w \<and> w_thread w' = w_thread w
     \<and> w_started w' = w_started w \<and> w_stop_polling w' = w_stop_polling w \<and> w_closed w' = w_closed w
     \<and> prefix (c_wire (w_chans w c)) (c_wire (w_chans w' c))"

text \<open>The futures that are neither new nor those of queued chunks.\<close>

definition same_futures :: "cid \<Rightarrow> world \<Rightarrow> world \<Rightarrow> bool" where
  "same_futures c w w' \<longleftrightarrow> w_next_fid w \<le> w_next_fid w' \<and> w_taskq w' = w_taskq w
     \<and> (\<forall>f < w_next_fid w. f \<notin> ck_future ` set (c_pendings (w_chans w c)) \<longrightarrow> w_futs w' f = w_futs w f)
     \<and> (\<forall>f \<in> ck_future ` set (c_pendings (w_chans w' c)).
          f \<in> ck_future ` set (c_pendings (w_chans w c)) \<or> w_next_fid w \<le> f)"

lemma same_end_refl [simp]: "same_end c w w"
  by (simp add: same_end_def)

lemma same_end_trans [trans]: "same_end c w w' \<Longrightarrow> same_end c w' w'' \<Longrightarrow> same_end c w w''"
  unfolding same_end_def by (metis prefix_order.trans)

lemma same_futures_refl [simp]: "same_futures c w w"
  by (simp add: same_futures_def)

lemma same_futures_trans [trans]:
  assumes "same_futures c w w'" "same_futures c w' w''"
  shows "same_futures c w w''"
proof -
  let ?p = "\<lambda>w. ck_future ` set (c_pendings (w_chans w c))"
  have "w_futs w'' f = w_futs w f" if "f < w_next_fid w" "f \<notin> ?p w" for f
  proof -
    have "f \<notin> ?p w'" "f < w_next_fid w'" using assms(1) that by (auto simp: same_futures_def)
    then show ?thesis using assms that by (auto simp: same_futures_def)
  qed
  moreover have "f \<in> ?p w \<or> w_next_fid w \<le> f" if "f \<in> ?p w''" for f
    using assms that unfolding same_futures_def by (meson le_trans)
  ultimately show ?thesis using assms unfolding same_futures_def by auto
qed

lemma live_same:
  assumes "live th fd c w" "same_end c w w'" "same_futures c w w'" "io_ok th c w'"
  shows "live th fd c w'"
proof -
  let ?f = "c_close_future (w_chans w c)"
  have f: "?f < w_next_fid w" "?f \<notin> ck_future ` set (c_pendings (w_chans w c))" "w_futs w ?f = FPending"
    using assms(1) by (simp_all add: live_def Let_def)
  then have "w_futs w' ?f = FPending" "?f < w_next_fid w'" "?f \<notin> ck_future ` set (c_pendings (w_chans w' c))"
    using assms(3) by (auto simp: same_futures_def)
  with assms(1,2,4) show ?thesis by (simp add: live_def same_end_def Let_def)
qed

lemma live_facts:
  assumes "live th fd c w"
  shows "io_ok th c w" "in_eventloop th w" "is_active c w" "c_ever_active (w_chans w c)" "\<not> c_server (w_chans w c)"
    "\<not> c_sockfd (w_chans w c) < 0" "dict_get (w_channels w) fd = Some c" "fd \<noteq> eventfd_fileno (w_eventfd w)"
  using assms by (auto simp: live_def Let_def io_ok_def is_active_def fut_done_def)

section \<open>Writes and events of one end\<close>

text \<open>A write in the loop with a future of its own.\<close>

lemma live_write_given:
  assumes "passive_listeners E" "send_ok (k_send (e_kernel E) c)" "io_ok th c w" "w_futs w cf = FPending"
    and "cf < w_next_fid w" "\<forall>ck \<in> set (c_pendings (w_chans w c)). ck_future ck \<noteq> cf"
  shows "\<exists>w'. channel_write E th c buf (Some cf) w = (Ret cf, w') \<and> io_ok th c w'
    \<and> chan_bytes c w' = chan_bytes c w @ buf \<and> same_end c w w' \<and> w_events w' = w_events w
    \<and> w_next_fid w' = w_next_fid w \<and> w_taskq w' = w_taskq w \<and> (\<forall>f. f \<noteq> cf \<longrightarrow> w_futs w' f = w_futs w f)
    \<and> ck_future ` set (c_pendings (w_chans w' c)) \<subseteq> insert cf (ck_future ` set (c_pendings (w_chans w c)))"
proof -
  have loop: "in_eventloop th w" using assms(3) by (simp add: io_ok_def)
  obtain w' where w': "channel_write E th c buf (Some cf) w = (Ret cf, w')" "io_ok th c w'"
    "chan_bytes c w' = chan_bytes c w @ buf" "\<forall>f. f \<noteq> cf \<longrightarrow> w_futs w' f = w_futs w f"
    "w_next_fid w' = w_next_fid w" "w_taskq w' = w_taskq w"
    "ck_future ` set (c_pendings (w_chans w' c)) \<subseteq> insert cf (ck_future ` set (c_pendings (w_chans w c)))"
    using io_write_given[OF assms, of buf] by blast
  obtain n x s k where "channel_write E th c buf (Some cf) w =
      (Ret cf, upd_chan c (\<lambda>ch. (written c n buf cf ch)\<lparr>c_flag := x\<rparr>)
       (w\<lparr>w_selector := s, w_kcalls := k,
          w_futs := if is_active c w \<and> \<not> has_pendings c w \<and> n = length buf
                    then (w_futs w)(cf := FResult VTrue) else w_futs w\<rparr>))"
    using channel_write_in_loop[OF assms(1,2) loop assms(4), of buf] by blast
  with w'(1) have "same_end c w w'" "w_events w' = w_events w"
    by (auto simp: same_end_def written_def)
  with w' show ?thesis by blast
qed

lemma live_write:
  assumes "passive_listeners E" "send_ok (k_send (e_kernel E) c)" "io_ok th c w"
  shows "\<exists>w'. channel_write E th c buf None w = (Ret (w_next_fid w), w') \<and> io_ok th c w'
    \<and> chan_bytes c w' = chan_bytes c w @ buf \<and> same_end c w w' \<and> same_futures c w w' \<and> w_events w' = w_events w"
proof -
  let ?w1 = "snd (new_future w)" and ?f = "w_next_fid w"
  note ok = assms(3)[unfolded io_ok_def]
  have "io_ok th c ?w1"
    using ok by (auto simp: io_ok_def new_future_def in_eventloop_def accounted_def queue_ok_def)
  moreover have "w_futs ?w1 ?f = FPending" "?f < w_next_fid ?w1"
    "\<forall>ck \<in> set (c_pendings (w_chans ?w1 c)). ck_future ck \<noteq> ?f"
    using ok by (auto simp: new_future_def)
  ultimately obtain w' where w': "channel_write E th c buf (Some ?f) ?w1 = (Ret ?f, w')" "io_ok th c w'"
    "chan_bytes c w' = chan_bytes c ?w1 @ buf" "same_end c ?w1 w'" "w_events w' = w_events ?w1"
    "w_next_fid w' = w_next_fid ?w1" "w_taskq w' = w_taskq ?w1" "\<forall>f. f \<noteq> ?f \<longrightarrow> w_futs w' f = w_futs ?w1 f"
    "ck_future ` set (c_pendings (w_chans w' c)) \<subseteq> insert ?f (ck_future ` set (c_pendings (w_chans ?w1 c)))"
    using live_write_given[OF assms(1,2), of th ?w1 ?f buf] by blast
  have new: "same_end c w ?w1" "w_events ?w1 = w_events w" "chan_bytes c ?w1 = chan_bytes c w"
    by (simp_all add: same_end_def new_future_def chan_bytes_def)
  have "same_futures c w w'"
    using w'(6-9) by (auto simp: same_futures_def new_future_def)
  moreover have "same_end c w w'" using new(1) w'(4) by (rule same_end_trans)
  ultimately show ?thesis using w'(1-3,5) new(2,3) by (simp add: channel_write_fresh)
qed

text \<open>The readiness to write: a pass over the pending chunks, after which interest and writability are
  brought up to date.  \<open>mild\<close> handlers do nothing when the writability changes.\<close>

definition mild :: "env \<Rightarrow> cid \<Rightarrow> bool" where
  "mild E c \<longleftrightarrow> passive_listeners E
     \<and> (\<forall>th w. fire E th c ChannelWritabilityChanged w = (Ret (), fired c ChannelWritabilityChanged w))"

lemma mild_envs: "mild (plain_env B) c" "mild (echo_env B) c"
  by (simp_all add: mild_def plain_passive fire_def adapter_handler_def echo_env_def echo_handler_def
      passive_listeners_def)

lemma same_flag:
  "same_end c w (upd_chan c (\<lambda>ch. ch\<lparr>c_flag := x\<rparr>) (w\<lparr>w_selector := s, w_kcalls := k\<rparr>))"
  "same_futures c w (upd_chan c (\<lambda>ch. ch\<lparr>c_flag := x\<rparr>) (w\<lparr>w_selector := s, w_kcalls := k\<rparr>))"
  "io_ok th c (upd_chan c (\<lambda>ch. ch\<lparr>c_flag := x\<rparr>) (w\<lparr>w_selector := s, w_kcalls := k\<rparr>)) = io_ok th c w"
  "chan_bytes c (upd_chan c (\<lambda>ch. ch\<lparr>c_flag := x\<rparr>) (w\<lparr>w_selector := s, w_kcalls := k\<rparr>)) = chan_bytes c w"
  by (simp_all add: same_end_def same_futures_def io_ok_def accounted_def in_eventloop_def chan_bytes_def)

definition kept_bytes :: "tid \<Rightarrow> cid \<Rightarrow> world \<Rightarrow> world \<Rightarrow> bool" where
  "kept_bytes th c w w' \<longleftrightarrow> io_ok th c w' \<and> chan_bytes c w' = chan_bytes c w \<and> same_end c w w'
     \<and> same_futures c w w' \<and> got c w' = got c w"

lemma kept_bytes_trans [trans]:
  "kept_bytes th c w w' \<Longrightarrow> kept_bytes th c w' w'' \<Longrightarrow> kept_bytes th c w w''"
  unfolding kept_bytes_def by (metis same_end_trans same_futures_trans)

lemma kept_remove_flag:
  assumes "io_ok th c w"
  shows "\<exists>w'. remove_flag E th c fl w = (Ret (), w') \<and> kept_bytes th c w w'
    \<and> c_pendings (w_chans w' c) = c_pendings (w_chans w c)"
proof -
  have "in_eventloop th w" using assms by (simp add: io_ok_def)
  from flags_in_loop(2)[OF this, of E c fl] obtain x s k where
    r: "remove_flag E th c fl w = (Ret (), upd_chan c (\<lambda>ch. ch\<lparr>c_flag := x\<rparr>) (w\<lparr>w_selector := s, w_kcalls := k\<rparr>))"
    by blast
  show ?thesis using assms by (simp add: r kept_bytes_def same_flag) (simp add: got_def)
qed

lemma kept_check_writability:
  assumes "mild E c" "io_ok th c w"
  shows "\<exists>w'. check_writability E th c w = (Ret (), w') \<and> kept_bytes th c w w'
    \<and> c_pendings (w_chans w' c) = c_pendings (w_chans w c)"
  using assms by (auto simp: check_writability_def Let_def mild_def fired_def kept_bytes_def got_def same_end_def
      same_futures_def io_ok_def accounted_def in_eventloop_def chan_bytes_def)

lemma kept_flush:
  assumes "mild E c" "send_ok (k_send (e_kernel E) c)" "io_ok th c w"
  shows "\<exists>w'. send_pending_chunks E th c w = (Ret (), w') \<and> kept_bytes th c w w'
    \<and> (\<not> refuses E c w \<longrightarrow> stream (c_pendings (w_chans w' c)) = [])"
proof -
  let ?q = "c_pendings (w_chans w c)"
  have E: "passive_listeners E" using assms(1) by (simp add: mild_def)
  note ok = assms(3)[unfolded io_ok_def]
  obtain n k v where n: "n \<le> length (stream ?q)" "n < length (stream ?q) \<longrightarrow> refuses E c w"
    and v: "views c v (fst (advance n ?q)) (sent_world c ?q n k w)"
    and r: "send_pending_chunks E th c w = (Ret (), set_pendings c v (sent_world c ?q n k w))"
    using io_flush_result[OF E assms(2,3)] by blast
  define w' where "w' = snd (send_pending_chunks E th c w)"
  have pend: "c_pendings (w_chans w' c) = fst (advance n ?q)"
    using set_pendings_views[OF v] r by (simp add: w'_def)
  have futs: "w_futs w' = complete_all (snd (advance n ?q)) (w_futs w)"
    and same: "same_end c w w'" "w_next_fid w' = w_next_fid w" "w_taskq w' = w_taskq w" "w_events w' = w_events w"
    by (cases v; simp add: w'_def r set_pendings_def sent_world_def replace_pendings_def same_end_def)+
  have str: "stream (fst (advance n ?q)) = drop n (stream ?q)"
    using n(1) ok by (intro stream_advance) (simp add: data_part_all)
  have parts: "ck_future ` set (fst (advance n ?q)) \<subseteq> ck_future ` set ?q"
    "set (snd (advance n ?q)) \<subseteq> ck_future ` set ?q"
    using arg_cong[OF advance_suffix_futures[of ?q n], of set] by auto
  have "same_futures c w w'"
    unfolding same_futures_def pend same futs using parts by (auto simp: complete_all_def)
  moreover have "io_ok th c w'" "chan_bytes c w' = chan_bytes c w"
    using io_flush_ok[OF E assms(2,3)] by (simp_all add: w'_def)
  moreover have "\<not> refuses E c w \<longrightarrow> stream (c_pendings (w_chans w' c)) = []"
    using n by (auto simp: pend str)
  moreover have "send_pending_chunks E th c w = (Ret (), w')" by (simp add: w'_def r)
  ultimately show ?thesis using same by (simp add: kept_bytes_def got_def)
qed

lemma live_write_event:
  assumes "mild E c" "send_ok (k_send (e_kernel E) c)" "live th fd c w"
  shows "\<exists>w'. write_event E th fd c w = (Ret True, w') \<and> kept_bytes th c w w'
    \<and> (\<not> refuses E c w \<longrightarrow> stream (c_pendings (w_chans w' c)) = [])"
proof -
  note w = live_facts[OF assms(3)]
  have key: "fd \<in> dict_keys (w_channels w)" using w(7) by (auto simp: dict.keys_get)
  have "\<exists>w1. (if \<not> has_pendings c w then remove_flag E th c EVENT_WRITE w
        else andThen (send_pending_chunks E th c w) (\<lambda>_ w.
          if fd \<in> dict_keys (w_channels w) \<and> \<not> has_pendings c w
          then remove_flag E th c EVENT_WRITE w else (Ret (), w))) = (Ret (), w1) \<and> kept_bytes th c w w1
      \<and> (\<not> refuses E c w \<longrightarrow> stream (c_pendings (w_chans w1 c)) = [])"
  proof (cases "has_pendings c w")
    case False
    then show ?thesis using kept_remove_flag[OF w(1), of E EVENT_WRITE] by (auto simp: has_pendings_def)
  next
    case True
    obtain w1 where w1: "send_pending_chunks E th c w = (Ret (), w1)" "kept_bytes th c w w1"
      "\<not> refuses E c w \<longrightarrow> stream (c_pendings (w_chans w1 c)) = []"
      using kept_flush[OF assms(1,2) w(1)] by blast
    obtain w2 where w2: "remove_flag E th c EVENT_WRITE w1 = (Ret (), w2)" "kept_bytes th c w1 w2"
      "c_pendings (w_chans w2 c) = c_pendings (w_chans w1 c)"
      using kept_remove_flag[of th c w1 E EVENT_WRITE] w1(2) by (auto simp: kept_bytes_def)
    show ?thesis using True w1 w2 kept_bytes_trans[OF w1(2) w2(2)] by auto
  qed
  then obtain w1 where w1: "(if \<not> has_pendings c w then remove_flag E th c EVENT_WRITE w
        else andThen (send_pending_chunks E th c w) (\<lambda>_ w.
          if fd \<in> dict_keys (w_channels w) \<and> \<not> has_pendings c w
          then remove_flag E th c EVENT_WRITE w else (Ret (), w))) = (Ret (), w1)" "kept_bytes th c w w1"
      "\<not> refuses E c w \<longrightarrow> stream (c_pendings (w_chans w1 c)) = []"
    by blast
  obtain w2 where w2: "check_writability E th c w1 = (Ret (), w2)" "kept_bytes th c w1 w2"
    "c_pendings (w_chans w2 c) = c_pendings (w_chans w1 c)"
    using kept_check_writability[OF assms(1), of th w1] w1(2) by (auto simp: kept_bytes_def)
  have "write_event E th fd c w = (Ret True, w2)"
    unfolding write_event_def check_channel_active_def using w(4) w1(1) w2(1) by simp
  then show ?thesis using kept_bytes_trans[OF w1(2) w2(2)] w1(3) w2(3) by auto
qed

text \<open>The readiness to read.  What the kernel hands over meets \<open>P\<close>, and the connection goes on.\<close>

definition delivers :: "env \<Rightarrow> cid \<Rightarrow> (bytes \<Rightarrow> bool) \<Rightarrow> bool" where
  "delivers B c P \<longleftrightarrow> (\<forall>k. \<exists>b k'. recvall (e_cfg B) (k_recv (e_kernel B) c) k = Some (b, False, k') \<and> P b)"

text \<open>A read event: \<open>d\<close> is what arrives, and \<open>h\<close> what the handler writes because of it.\<close>

definition read_as :: "env \<Rightarrow> tid \<Rightarrow> cid \<Rightarrow> bytes \<Rightarrow> bytes \<Rightarrow> world \<Rightarrow> world \<Rightarrow> bool" where
  "read_as E th c d h w w' \<longleftrightarrow> read_event E th c w = (Ret (), w') \<and> io_ok th c w' \<and> chan_bytes c w' = chan_bytes c w @ h
     \<and> same_end c w w' \<and> same_futures c w w' \<and> got c w' = got c w @ d"

lemma live_read_start:
  assumes "live th fd c w" "delivers E c P"
  shows "\<exists>d k. P d \<and> read_event E th c w = (let w1 = w\<lparr>w_kcalls := k, w_received := w_received w + int (length d)\<rparr>
    in if d \<noteq> [] then fire E th c (ChannelReadBytes d) w1 else (Ret (), w1))"
proof -
  note w = live_facts[OF assms(1)]
  obtain d k where r: "recvall (e_cfg E) (k_recv (e_kernel E) c) (w_kcalls w) = Some (d, False, k)" "P d"
    using assms(2) unfolding delivers_def by blast
  have "channel_recvall E c w = (Ret (d, False), w\<lparr>w_kcalls := k\<rparr>)"
    using w(6) by (simp add: channel_recvall_def Let_def r(1))
  then show ?thesis using w(3) r(2) by (auto simp: read_event_def Let_def intro!: exI[of _ d] exI[of _ k])
qed

lemma live_read_plain:
  assumes "live th fd c w" "delivers B c P"
  shows "\<exists>d w'. P d \<and> read_as (plain_env B) th c d [] w w'"
proof -
  have "delivers (plain_env B) c P" using assms(2) by (simp add: delivers_def)
  from live_read_start[OF assms(1) this] obtain d k where d: "P d"
    "read_event (plain_env B) th c w = (let w1 = w\<lparr>w_kcalls := k, w_received := w_received w + int (length d)\<rparr>
    in if d \<noteq> [] then fire (plain_env B) th c (ChannelReadBytes d) w1 else (Ret (), w1))" by blast
  have "read_as (plain_env B) th c d [] w (snd (read_event (plain_env B) th c w))"
    using live_facts(1)[OF assms(1)] unfolding read_as_def d(2)
    by (auto simp: Let_def fire_def adapter_handler_def fired_def io_ok_def accounted_def in_eventloop_def chan_bytes_def
        same_end_def same_futures_def got_def)
  with d(1) show ?thesis by blast
qed

lemma live_read_echo:
  assumes "live th fd c w" "delivers B c P" "send_ok (k_send (e_kernel B) c)"
  shows "\<exists>d w'. P d \<and> read_as (echo_env B) th c d d w w'"
proof -
  have "delivers (echo_env B) c P" using assms(2) by (simp add: delivers_def echo_env_def)
  from live_read_start[OF assms(1) this] obtain d k where d: "P d"
    "read_event (echo_env B) th c w = (let w1 = w\<lparr>w_kcalls := k, w_received := w_received w + int (length d)\<rparr>
    in if d \<noteq> [] then fire (echo_env B) th c (ChannelReadBytes d) w1 else (Ret (), w1))" by blast
  note w = live_facts[OF assms(1)]
  define w1 where "w1 = w\<lparr>w_kcalls := k, w_received := w_received w + int (length d)\<rparr>"
  have w1: "io_ok th c w1" "chan_bytes c w1 = chan_bytes c w" "same_end c w w1" "same_futures c w w1" "got c w1 = got c w"
    using w(1) by (simp_all add: w1_def io_ok_def accounted_def in_eventloop_def chan_bytes_def same_end_def
        same_futures_def got_def)
  show ?thesis
  proof (cases "d = []")
    case True
    then have "read_as (echo_env B) th c d d w w1"
      using w1 by (simp add: read_as_def d(2) w1_def)
    with d(1) show ?thesis by blast
  next
    case False
    define w2 where "w2 = fired c (ChannelReadBytes d) w1"
    have w2: "io_ok th c w2" "chan_bytes c w2 = chan_bytes c w" "same_end c w w2" "same_futures c w w2"
      "got c w2 = got c w @ d" "\<not> c_server (w_chans w2 c)"
      using w1 w(5) by (simp_all add: w2_def fired_def io_ok_def accounted_def in_eventloop_def chan_bytes_def
          same_end_def same_futures_def got_def)
    obtain w3 where w3: "channel_write (plain_env B) th c d None w2 = (Ret (w_next_fid w2), w3)" "io_ok th c w3"
      "chan_bytes c w3 = chan_bytes c w2 @ d" "same_end c w2 w3" "same_futures c w2 w3" "w_events w3 = w_events w2"
      using live_write[OF plain_passive _ w2(1), of B d] assms(3) by auto
    have "fire (echo_env B) th c (ChannelReadBytes d) w1 = (Ret (), w3)"
      using w3(1) w2(6) by (simp add: fire_def w2_def[symmetric] echo_env_def echo_handler_def ctx_write_def)
    then have "read_event (echo_env B) th c w = (Ret (), w3)"
      using False by (simp add: d(2) w1_def[symmetric])
    moreover have "got c w3 = got c w2" using w3(6) by (simp add: got_def)
    ultimately have "read_as (echo_env B) th c d d w w3"
      using w2 w3 same_end_trans[OF w2(3) w3(4)] same_futures_trans[OF w2(4) w3(5)] by (simp add: read_as_def)
    with d(1) show ?thesis by blast
  qed
qed

text \<open>An event for the descriptor of the connection, with any event bits.\<close>

definition event_as :: "env \<Rightarrow> tid \<Rightarrow> fd \<Rightarrow> int \<Rightarrow> cid \<Rightarrow> bytes \<Rightarrow> bytes \<Rightarrow> world \<Rightarrow> world \<Rightarrow> bool" where
  "event_as E th fd ev c d h w w' \<longleftrightarrow> process_event E th fd ev w = (Ret (), w') \<and> live th fd c w'
     \<and> chan_bytes c w' = chan_bytes c w @ h \<and> same_end c w w' \<and> same_futures c w w' \<and> got c w' = got c w @ d"

lemma live_event:
  assumes "mild E c" "send_ok (k_send (e_kernel E) c)" "live th fd c w"
    and "\<And>w. live th fd c w \<Longrightarrow> \<exists>d w'. P d \<and> read_as E th c d (h d) w w'" "h [] = []"
  shows "\<exists>d w'. (if ev AND EVENT_READ \<noteq> 0 then P d else d = []) \<and> event_as E th fd ev c d (h d) w w'"
proof -
  note w = live_facts[OF assms(3)]
  have key: "fd \<in> dict_keys (w_channels w)" using w(7) by (auto simp: dict.keys_get)
  obtain w1 where w1: "(if ev AND EVENT_WRITE \<noteq> 0 then write_event E th fd c w else (Ret True, w)) = (Ret True, w1)"
    "kept_bytes th c w w1"
    using live_write_event[OF assms(1-3)] w(1) by (cases "ev AND EVENT_WRITE \<noteq> 0") (auto simp: kept_bytes_def)
  have live1: "live th fd c w1" using live_same[OF assms(3)] w1(2) by (simp add: kept_bytes_def)
  have same1: "w_channels w1 = w_channels w" using w1(2) by (simp add: kept_bytes_def same_end_def)
  have run: "process_event E th fd ev w =
      (if ev AND EVENT_READ \<noteq> 0 then read_event E th c w1 else (Ret (), w1))"
    unfolding process_event_def using w(5,7,8) w1(1) key same1 by simp
  show ?thesis
  proof (cases "ev AND EVENT_READ \<noteq> 0")
    case False
    then have "event_as E th fd ev c [] (h []) w w1"
      using run live1 w1(2) assms(5) by (simp add: event_as_def kept_bytes_def)
    with False show ?thesis by (intro exI[of _ "[]"] exI[of _ w1]) simp
  next
    case True
    obtain d w2 where r: "P d" "read_as E th c d (h d) w1 w2" using assms(4)[OF live1] by blast
    then have "live th fd c w2" using live_same[OF live1] by (simp add: read_as_def)
    moreover have "same_end c w w2" "same_futures c w w2"
      using w1(2) r(2) same_end_trans same_futures_trans unfolding kept_bytes_def read_as_def by blast+
    ultimately have "event_as E th fd ev c d (h d) w w2"
      using True run r(2) w1(2) by (simp add: event_as_def read_as_def kept_bytes_def)
    with True r(1) show ?thesis by auto
  qed
qed

lemma live_event_plain:
  assumes "live th fd c w" "delivers B c P" "send_ok (k_send (e_kernel B) c)"
  shows "\<exists>d w'. (if ev AND EVENT_READ \<noteq> 0 then P d else d = []) \<and> event_as (plain_env B) th fd ev c d [] w w'"
  using live_event[OF mild_envs(1) _ assms(1), of B P "\<lambda>_. []"] live_read_plain[OF _ assms(2)] assms(3) by simp

lemma live_event_echo:
  assumes "live th fd c w" "delivers B c P" "send_ok (k_send (e_kernel B) c)"
  shows "\<exists>d w'. (if ev AND EVENT_READ \<noteq> 0 then P d else d = []) \<and> event_as (echo_env B) th fd ev c d d w w'"
proof -
  have "send_ok (k_send (e_kernel (echo_env B)) c)" using assms(3) by (simp add: echo_env_def)
  from live_event[OF mild_envs(2) this assms(1), of P "\<lambda>d. d"] live_read_echo[OF _ assms(2,3)] show ?thesis
    by simp
qed

section \<open>The conversation\<close>

text \<open>The two worlds, the bytes on the way in either direction, and what the client's application has
  written.\<close>

record conversation =
  cv_client :: world
  cv_up :: bytes
  cv_server :: world
  cv_down :: bytes
  cv_written :: bytes

record endpoint =
  ep_thread :: tid
  ep_fd :: fd
  ep_chan :: cid

text \<open>What the kernel took from a socket, and what was read from one, between two states.\<close>

definition taken :: "cid \<Rightarrow> world \<Rightarrow> world \<Rightarrow> bytes" where
  "taken c w w' = drop (length (c_wire (w_chans w c))) (c_wire (w_chans w' c))"

definition arrived :: "cid \<Rightarrow> world \<Rightarrow> world \<Rightarrow> bytes" where
  "arrived c w w' = drop (length (got c w)) (got c w')"

text \<open>Every step may meet an operating system of its own that keeps to the rules: a send takes at least a byte
  or fails, a receive returns the next bytes on the way.\<close>

inductive conv_step :: "endpoint \<Rightarrow> endpoint \<Rightarrow> conversation \<Rightarrow> conversation \<Rightarrow> bool"
  for a :: endpoint and b :: endpoint where
  client_writes: "\<not> in_eventloop t (cv_client s) \<Longrightarrow>
    channel_write (plain_env B) t (ep_chan a) buf None (cv_client s) = (r, w') \<Longrightarrow>
    conv_step a b s (s\<lparr>cv_client := w', cv_written := cv_written s @ buf\<rparr>)"
| client_tasks: "send_ok (k_send (e_kernel B) (ep_chan a)) \<Longrightarrow>
    process_task_queue (plain_env B) (ep_thread a) (cv_client s) = (r, w') \<Longrightarrow>
    conv_step a b s (s\<lparr>cv_client := w', cv_up := cv_up s @ taken (ep_chan a) (cv_client s) w'\<rparr>)"
| client_event: "send_ok (k_send (e_kernel B) (ep_chan a)) \<Longrightarrow> delivers B (ep_chan a) (\<lambda>d. prefix d (cv_down s)) \<Longrightarrow>
    process_event (plain_env B) (ep_thread a) (ep_fd a) ev (cv_client s) = (r, w') \<Longrightarrow>
    conv_step a b s (s\<lparr>cv_client := w', cv_up := cv_up s @ taken (ep_chan a) (cv_client s) w',
      cv_down := drop (length (arrived (ep_chan a) (cv_client s) w')) (cv_down s)\<rparr>)"
| server_event: "send_ok (k_send (e_kernel B) (ep_chan b)) \<Longrightarrow> delivers B (ep_chan b) (\<lambda>d. prefix d (cv_up s)) \<Longrightarrow>
    process_event (echo_env B) (ep_thread b) (ep_fd b) ev (cv_server s) = (r, w') \<Longrightarrow>
    conv_step a b s (s\<lparr>cv_server := w', cv_down := cv_down s @ taken (ep_chan b) (cv_server s) w',
      cv_up := drop (length (arrived (ep_chan b) (cv_server s) w')) (cv_up s)\<rparr>)"

text \<open>The tasks that wait in the client's loop.\<close>

fun task_bytes :: "task \<Rightarrow> bytes" where
  "task_bytes (TWrite c buf f) = buf"
| "task_bytes _ = []"

text \<open>Where the bytes of a conversation are, from the ones that have gone all the way back to the ones that have
  not left yet.\<close>

definition all_bytes :: "endpoint \<Rightarrow> endpoint \<Rightarrow> conversation \<Rightarrow> bytes" where
  "all_bytes a b s = got (ep_chan a) (cv_client s) @ cv_down s
     @ stream (c_pendings (w_chans (cv_server s) (ep_chan b))) @ cv_up s
     @ stream (c_pendings (w_chans (cv_client s) (ep_chan a))) @ concat (map task_bytes (w_taskq (cv_client s)))"

text \<open>The tasks are writes to this channel whose futures nobody else has.\<close>

definition write_tasks :: "cid \<Rightarrow> world \<Rightarrow> (fid \<times> bytes) list \<Rightarrow> bool" where
  "write_tasks c w ps \<longleftrightarrow> w_taskq w = map (\<lambda>(f, b). TWrite c b f) ps \<and> distinct (map fst ps)
     \<and> (\<forall>f \<in> fst ` set ps. w_futs w f = FPending \<and> f < w_next_fid w
          \<and> f \<notin> ck_future ` set (c_pendings (w_chans w c)) \<and> f \<noteq> c_close_future (w_chans w c))"

definition conv_ok :: "endpoint \<Rightarrow> endpoint \<Rightarrow> conversation \<Rightarrow> bool" where
  "conv_ok a b s \<longleftrightarrow> live (ep_thread a) (ep_fd a) (ep_chan a) (cv_client s) \<and> open_loop (cv_client s)
     \<and> (\<exists>ps. write_tasks (ep_chan a) (cv_client s) ps)
     \<and> live (ep_thread b) (ep_fd b) (ep_chan b) (cv_server s) \<and> all_bytes a b s = cv_written s"

section \<open>Every byte is in one place\<close>

lemma task_bytes_map: "concat (map task_bytes (map (\<lambda>(f, b). TWrite c b f) ps)) = concat (map snd ps)"
  by (induction ps) auto

lemma taken_bytes:
  assumes "same_end c w w'" "chan_bytes c w' = chan_bytes c w @ h"
  shows "stream (c_pendings (w_chans w c)) @ h = taken c w w' @ stream (c_pendings (w_chans w' c))"
proof -
  obtain ys where "c_wire (w_chans w' c) = c_wire (w_chans w c) @ ys"
    using assms(1) by (auto simp: same_end_def prefix_def)
  with assms(2) show ?thesis by (simp add: taken_def chan_bytes_def)
qed

text \<open>The client's task queue: strengthening \<open>process_writes\<close> by what the tasks leave alone.\<close>

lemma live_tasks:
  assumes "passive_listeners E" "send_ok (k_send (e_kernel E) c)" "live th fd c w" "write_tasks c w ps"
  shows "\<exists>w'. process_task_queue E th w = (Ret (), w') \<and> live th fd c w' \<and> write_tasks c w' []
    \<and> same_end c w w' \<and> chan_bytes c w' = chan_bytes c w @ concat (map snd ps) \<and> got c w' = got c w"
proof -
  have "\<exists>w'. process_task_queue_loop E th w = Some (Ret (), w') \<and> live th fd c w' \<and> write_tasks c w' []
    \<and> same_end c w w' \<and> chan_bytes c w' = chan_bytes c w @ concat (map snd ps) \<and> got c w' = got c w"
    using assms(3,4)
  proof (induction ps arbitrary: w)
    case Nil
    then show ?case by (simp add: process_task_queue_loop.simps write_tasks_def)
  next
    case (Cons p ps)
    obtain f buf where p: "p = (f, buf)" by (cases p)
    let ?q = "map (\<lambda>(f, b). TWrite c b f) ps"
    let ?w = "w\<lparr>w_taskq := ?q\<rparr>"
    note t = Cons.prems(2)[unfolded write_tasks_def p, simplified]
    have "io_ok th c ?w"
      using live_facts(1)[OF Cons.prems(1)] by (simp add: io_ok_def accounted_def in_eventloop_def)
    moreover have "w_futs ?w f = FPending" "f < w_next_fid ?w"
      "\<forall>ck \<in> set (c_pendings (w_chans ?w c)). ck_future ck \<noteq> f"
      using t by auto
    ultimately obtain w1 where w1: "channel_write E th c buf (Some f) ?w = (Ret f, w1)" "io_ok th c w1"
      "chan_bytes c w1 = chan_bytes c ?w @ buf" "same_end c ?w w1" "w_events w1 = w_events ?w"
      "w_next_fid w1 = w_next_fid w" "w_taskq w1 = ?q" "\<forall>g. g \<noteq> f \<longrightarrow> w_futs w1 g = w_futs w g"
      "ck_future ` set (c_pendings (w_chans w1 c)) \<subseteq> insert f (ck_future ` set (c_pendings (w_chans w c)))"
      using live_write_given[OF assms(1,2), of th ?w f buf] by auto
    define w2 where "w2 = w1\<lparr>w_tasks_processed := w_tasks_processed w1 + 1\<rparr>"
    have step: "process_task_queue_loop E th w = process_task_queue_loop E th w2"
      using t by (subst process_task_queue_loop.simps)
        (simp add: run_task_logged_def run_task_def w1(1) w2_def)
    have same: "same_end c w w2" using w1(4) by (simp add: same_end_def w2_def)
    have f: "f \<noteq> c_close_future (w_chans w c)" using t by auto
    have "live th fd c w2"
      using Cons.prems(1) w1 f same by (auto simp: live_def Let_def w2_def io_ok_def accounted_def in_eventloop_def same_end_def)
    moreover have "write_tasks c w2 ps"
      unfolding write_tasks_def
    proof (intro conjI ballI)
      fix g assume "g \<in> fst ` set ps"
      then have g: "g \<noteq> f" "w_futs w g = FPending" "g < w_next_fid w" "g \<noteq> c_close_future (w_chans w c)"
        "g \<notin> ck_future ` set (c_pendings (w_chans w c))" using t by auto
      show "w_futs w2 g = FPending" "g < w_next_fid w2" "g \<notin> ck_future ` set (c_pendings (w_chans w2 c))"
        "g \<noteq> c_close_future (w_chans w2 c)"
        using g w1(4,6,8,9) by (auto simp: w2_def same_end_def)
    qed (use t w1(7) in \<open>simp_all add: w2_def\<close>)
    ultimately obtain w' where "process_task_queue_loop E th w2 = Some (Ret (), w')" "live th fd c w'" "write_tasks c w' []"
      "same_end c w2 w'" "chan_bytes c w' = chan_bytes c w2 @ concat (map snd ps)" "got c w' = got c w2"
      using Cons.IH by blast
    moreover have "chan_bytes c w2 = chan_bytes c w @ buf" "got c w2 = got c w"
      using w1(3,5) by (simp_all add: w2_def chan_bytes_def got_def)
    ultimately show ?case using step same_end_trans[OF same] by (auto simp: p)
  qed
  then show ?thesis by (auto simp: process_task_queue_def)
qed

lemma write_tasks_same:
  assumes "write_tasks c w ps" "same_end c w w'" "same_futures c w w'"
  shows "write_tasks c w' ps"
  unfolding write_tasks_def
proof (intro conjI ballI)
  fix f assume "f \<in> fst ` set ps"
  with assms(1) have f: "w_futs w f = FPending" "f < w_next_fid w" "f \<noteq> c_close_future (w_chans w c)"
    "f \<notin> ck_future ` set (c_pendings (w_chans w c))" by (auto simp: write_tasks_def)
  with assms(3) show "w_futs w' f = FPending" "f < w_next_fid w'"
    "f \<notin> ck_future ` set (c_pendings (w_chans w' c))" by (auto simp: same_futures_def)
  show "f \<noteq> c_close_future (w_chans w' c)" using f(3) assms(2) by (simp add: same_end_def)
qed (use assms in \<open>auto simp: write_tasks_def same_futures_def\<close>)

lemma open_loop_same: "same_end c w w' \<Longrightarrow> open_loop w' = open_loop w"
  by (simp add: open_loop_def same_end_def)

lemma live_outside_write:
  assumes "live th fd c w" "open_loop w" "write_tasks c w ps" "\<not> in_eventloop t w"
    and "channel_write E t c buf None w = (r, w')"
  shows "live th fd c w' \<and> open_loop w' \<and> write_tasks c w' (ps @ [(w_next_fid w, buf)]) \<and> got c w' = got c w
    \<and> w_chans w' = w_chans w \<and> r = Ret (w_next_fid w)"
proof -
  have w': "w' = (snd (new_future w))\<lparr>w_taskq := w_taskq w @ [TWrite c buf (w_next_fid w)],
    w_tasks_submitted := w_tasks_submitted w + 1, w_eventfd := snd (eventfd_unsafe_write (w_eventfd w))\<rparr>"
    and r: "r = Ret (w_next_fid w)"
    using assms(5) outside_write[OF assms(2,4), of E c buf] by simp_all
  have pend: "\<forall>f \<in> ck_future ` set (c_pendings (w_chans w c)). f < w_next_fid w"
    using live_facts(1)[OF assms(1)] by (auto simp: io_ok_def)
  have "eventfd_fileno (w_eventfd w') = eventfd_fileno (w_eventfd w)"
    by (simp add: w' eventfd_fileno_def)
  then have "live th fd c w'"
    using assms(1) pend
    by (auto simp: live_def Let_def w' new_future_def io_ok_def in_eventloop_def accounted_def queue_ok_def)
  moreover have "write_tasks c w' (ps @ [(w_next_fid w, buf)])"
    using assms(1,3) pend by (auto simp: write_tasks_def w' new_future_def live_def Let_def)
  ultimately show ?thesis
    using assms(2) r by (simp add: w' open_loop_def got_def new_future_def)
qed

lemma arrived_eq: "got c w' = got c w @ d \<Longrightarrow> arrived c w w' = d"
  by (simp add: arrived_def)

lemma append_eq_more: "p @ q = r @ t \<Longrightarrow> p @ q @ z = r @ t @ z"
  by (metis append_assoc)

text \<open>The invariant with the waiting tasks written out.\<close>

definition conv_with :: "endpoint \<Rightarrow> endpoint \<Rightarrow> (fid \<times> bytes) list \<Rightarrow> conversation \<Rightarrow> bool" where
  "conv_with a b ps s \<longleftrightarrow> live (ep_thread a) (ep_fd a) (ep_chan a) (cv_client s) \<and> open_loop (cv_client s)
     \<and> write_tasks (ep_chan a) (cv_client s) ps
     \<and> live (ep_thread b) (ep_fd b) (ep_chan b) (cv_server s)
     \<and> got (ep_chan a) (cv_client s) @ cv_down s @ stream (c_pendings (w_chans (cv_server s) (ep_chan b))) @ cv_up s
         @ stream (c_pendings (w_chans (cv_client s) (ep_chan a))) @ concat (map snd ps) = cv_written s"

lemma conv_ok_iff: "conv_ok a b s \<longleftrightarrow> (\<exists>ps. conv_with a b ps s)"
proof -
  have "concat (map task_bytes (w_taskq w)) = concat (map snd ps)" if "write_tasks c w ps" for c w ps
    using that by (simp add: write_tasks_def task_bytes_map del: map_map)
  then show ?thesis by (auto simp: conv_ok_def conv_with_def all_bytes_def)
qed

lemma client_writes_ok:
  assumes "conv_with a b ps s" "\<not> in_eventloop t (cv_client s)"
    and "channel_write E t (ep_chan a) buf None (cv_client s) = (r, w')"
  shows "conv_with a b (ps @ [(w_next_fid (cv_client s), buf)]) (s\<lparr>cv_client := w', cv_written := cv_written s @ buf\<rparr>)"
    and "r = Ret (w_next_fid (cv_client s))"
proof -
  note s = assms(1)[unfolded conv_with_def]
  have "live (ep_thread a) (ep_fd a) (ep_chan a) w' \<and> open_loop w'
    \<and> write_tasks (ep_chan a) w' (ps @ [(w_next_fid (cv_client s), buf)])
    \<and> got (ep_chan a) w' = got (ep_chan a) (cv_client s) \<and> w_chans w' = w_chans (cv_client s)
    \<and> r = Ret (w_next_fid (cv_client s))"
    using live_outside_write[OF _ _ _ assms(2,3)] s by blast
  with s show "conv_with a b (ps @ [(w_next_fid (cv_client s), buf)]) (s\<lparr>cv_client := w', cv_written := cv_written s @ buf\<rparr>)"
    "r = Ret (w_next_fid (cv_client s))"
    by (auto simp: conv_with_def)
qed

lemma client_tasks_ok:
  assumes "conv_with a b ps s" "send_ok (k_send (e_kernel B) (ep_chan a))"
  shows "\<exists>w'. process_task_queue (plain_env B) (ep_thread a) (cv_client s) = (Ret (), w')
    \<and> conv_with a b [] (s\<lparr>cv_client := w', cv_up := cv_up s @ taken (ep_chan a) (cv_client s) w'\<rparr>)"
proof -
  let ?c = "ep_chan a"
  note s = assms(1)[unfolded conv_with_def]
  obtain w' where t: "process_task_queue (plain_env B) (ep_thread a) (cv_client s) = (Ret (), w')"
    "live (ep_thread a) (ep_fd a) ?c w'" "write_tasks ?c w' []" "same_end ?c (cv_client s) w'"
    "chan_bytes ?c w' = chan_bytes ?c (cv_client s) @ concat (map snd ps)" "got ?c w' = got ?c (cv_client s)"
    using live_tasks[OF plain_passive, of B ?c _ _ "cv_client s" ps] assms(2) s by auto
  with s taken_bytes[OF t(4,5)] open_loop_same[OF t(4)] show ?thesis by (simp add: conv_with_def)
qed

lemma client_event_ok:
  assumes "conv_with a b ps s" "send_ok (k_send (e_kernel B) (ep_chan a))" "delivers B (ep_chan a) (\<lambda>d. prefix d (cv_down s))"
  shows "\<exists>w'. process_event (plain_env B) (ep_thread a) (ep_fd a) ev (cv_client s) = (Ret (), w')
    \<and> conv_with a b ps (s\<lparr>cv_client := w', cv_up := cv_up s @ taken (ep_chan a) (cv_client s) w',
        cv_down := drop (length (arrived (ep_chan a) (cv_client s) w')) (cv_down s)\<rparr>)"
proof -
  let ?c = "ep_chan a"
  note s = assms(1)[unfolded conv_with_def]
  obtain d w' where d: "prefix d (cv_down s)" "event_as (plain_env B) (ep_thread a) (ep_fd a) ev ?c d [] (cv_client s) w'"
    using live_event_plain[OF _ assms(3,2), of _ _ _ ev] s by (metis Nil_prefix)
  then have e: "process_event (plain_env B) (ep_thread a) (ep_fd a) ev (cv_client s) = (Ret (), w')"
    "live (ep_thread a) (ep_fd a) ?c w'" "same_end ?c (cv_client s) w'" "same_futures ?c (cv_client s) w'"
    "chan_bytes ?c w' = chan_bytes ?c (cv_client s) @ []" "got ?c w' = got ?c (cv_client s) @ d"
    by (simp_all add: event_as_def)
  have "stream (c_pendings (w_chans (cv_client s) ?c)) = taken ?c (cv_client s) w' @ stream (c_pendings (w_chans w' ?c))"
    using taken_bytes[OF e(3,5)] by simp
  moreover obtain rest where "cv_down s = d @ rest" using d(1) by (auto simp: prefix_def)
  moreover have "write_tasks ?c w' ps" using s write_tasks_same[OF _ e(3,4)] by blast
  ultimately show ?thesis
    using s e(1,2,6) open_loop_same[OF e(3)] by (simp add: conv_with_def arrived_eq)
qed

lemma server_event_ok:
  assumes "conv_with a b ps s" "send_ok (k_send (e_kernel B) (ep_chan b))" "delivers B (ep_chan b) (\<lambda>d. prefix d (cv_up s))"
  shows "\<exists>w'. process_event (echo_env B) (ep_thread b) (ep_fd b) ev (cv_server s) = (Ret (), w')
    \<and> conv_with a b ps (s\<lparr>cv_server := w', cv_down := cv_down s @ taken (ep_chan b) (cv_server s) w',
        cv_up := drop (length (arrived (ep_chan b) (cv_server s) w')) (cv_up s)\<rparr>)"
proof -
  let ?c = "ep_chan b"
  note s = assms(1)[unfolded conv_with_def]
  obtain d w' where d: "prefix d (cv_up s)" "event_as (echo_env B) (ep_thread b) (ep_fd b) ev ?c d d (cv_server s) w'"
    using live_event_echo[OF _ assms(3,2), of _ _ _ ev] s by (metis Nil_prefix)
  then have e: "process_event (echo_env B) (ep_thread b) (ep_fd b) ev (cv_server s) = (Ret (), w')"
    "live (ep_thread b) (ep_fd b) ?c w'" "same_end ?c (cv_server s) w'"
    "chan_bytes ?c w' = chan_bytes ?c (cv_server s) @ d" "got ?c w' = got ?c (cv_server s) @ d"
    by (simp_all add: event_as_def)
  obtain rest where "cv_up s = d @ rest" using d(1) by (auto simp: prefix_def)
  with s e(1,2,5) append_eq_more[OF taken_bytes[OF e(3,4)],
      of "rest @ stream (c_pendings (w_chans (cv_client s) (ep_chan a))) @ concat (map snd ps)"]
  show ?thesis by (simp add: conv_with_def arrived_eq)
qed

lemma conv_step_ok:
  assumes "conv_step a b s s'" "conv_ok a b s"
  shows "conv_ok a b s'"
proof -
  obtain ps where ps: "conv_with a b ps s" using assms(2) by (auto simp: conv_ok_iff)
  from assms(1) show ?thesis
  proof cases
    case (client_writes t B buf r w')
    show ?thesis unfolding client_writes(1) conv_ok_iff
      using client_writes_ok(1)[OF ps client_writes(2,3)] by blast
  next
    case (client_tasks B r w')
    show ?thesis unfolding client_tasks(1) conv_ok_iff
      using client_tasks_ok[OF ps client_tasks(2)] client_tasks(3) by auto
  next
    case (client_event B ev r w')
    show ?thesis unfolding client_event(1) conv_ok_iff
      using client_event_ok[OF ps client_event(2,3), of ev] client_event(4) by auto
  next
    case (server_event B ev r w')
    show ?thesis unfolding server_event(1) conv_ok_iff
      using server_event_ok[OF ps server_event(2,3), of ev] server_event(4) by auto
  qed
qed

lemma conv_steps_ok: "(conv_step a b)\<^sup>*\<^sup>* s s' \<Longrightarrow> conv_ok a b s \<Longrightarrow> conv_ok a b s'"
  by (induction rule: rtranclp_induct) (auto intro: conv_step_ok)

lemma conv_accounted: "conv_ok a b s \<Longrightarrow> all_bytes a b s = cv_written s"
  by (simp add: conv_ok_def)

text \<open>And no step raises.\<close>

lemma conv_returns:
  assumes "conv_ok a b s"
  shows "\<not> in_eventloop t (cv_client s) \<Longrightarrow> returns (channel_write E t (ep_chan a) buf None (cv_client s))"
    and "send_ok (k_send (e_kernel B) (ep_chan a)) \<Longrightarrow>
      returns (process_task_queue (plain_env B) (ep_thread a) (cv_client s))"
    and "send_ok (k_send (e_kernel B) (ep_chan a)) \<Longrightarrow> delivers B (ep_chan a) (\<lambda>d. prefix d (cv_down s)) \<Longrightarrow>
      returns (process_event (plain_env B) (ep_thread a) (ep_fd a) ev (cv_client s))"
    and "send_ok (k_send (e_kernel B) (ep_chan b)) \<Longrightarrow> delivers B (ep_chan b) (\<lambda>d. prefix d (cv_up s)) \<Longrightarrow>
      returns (process_event (echo_env B) (ep_thread b) (ep_fd b) ev (cv_server s))"
proof -
  obtain ps where ps: "conv_with a b ps s" using assms by (auto simp: conv_ok_iff)
  show "\<not> in_eventloop t (cv_client s) \<Longrightarrow> returns (channel_write E t (ep_chan a) buf None (cv_client s))"
    using client_writes_ok(2)[OF ps] by (metis prod.collapse returns_def)
  show "send_ok (k_send (e_kernel B) (ep_chan a)) \<Longrightarrow>
      returns (process_task_queue (plain_env B) (ep_thread a) (cv_client s))"
    using client_tasks_ok[OF ps, of B] by (auto simp: returns_def)
  show "send_ok (k_send (e_kernel B) (ep_chan a)) \<Longrightarrow> delivers B (ep_chan a) (\<lambda>d. prefix d (cv_down s)) \<Longrightarrow>
      returns (process_event (plain_env B) (ep_thread a) (ep_fd a) ev (cv_client s))"
    using client_event_ok[OF ps, of B ev] by (auto simp: returns_def)
  show "send_ok (k_send (e_kernel B) (ep_chan b)) \<Longrightarrow> delivers B (ep_chan b) (\<lambda>d. prefix d (cv_up s)) \<Longrightarrow>
      returns (process_event (echo_env B) (ep_thread b) (ep_fd b) ev (cv_server s))"
    using server_event_ok[OF ps, of B ev] by (auto simp: returns_def)
qed

section \<open>Every byte comes back\<close>

text \<open>An operating system that takes all it is given and hands over what a receive asks for; it takes its time, so
  that \<open>recvall\<close> is content with one receive.\<close>

definition carrying :: "env \<Rightarrow> bytes \<Rightarrow> env" where
  "carrying B pipe = B\<lparr>e_kernel := (e_kernel B)\<lparr>k_send := (\<lambda>c k d. Sent (length d)),
     k_recv := (\<lambda>c. \<lparr>rk_recv = (\<lambda>k n. if pipe = [] then RecvError (Some 11) else Received (take (nat n) pipe)),
       rk_peek = (\<lambda>k. RecvError (Some 11)), rk_perf = (\<lambda>k. 10000000 * int k)\<rparr>)\<rparr>\<rparr>"

lemma carrying_delivers:
  assumes "config_ok (e_cfg B)" "d = take (nat (cfg_initial (e_cfg B))) pipe"
  shows "delivers (carrying B pipe) c ((=) d)"
proof -
  have "0 < cfg_initial (e_cfg B)" using assms(1) by (simp add: config_ok_def)
  then show ?thesis
    unfolding delivers_def recvall_def
    by (subst recvall_loop.simps) (simp add: carrying_def assms(2) is_readable_def ECONNABORTED_def ECONNRESET_def)
qed

lemma delivers_mono: "delivers B c P \<Longrightarrow> (\<And>d. P d \<Longrightarrow> Q d) \<Longrightarrow> delivers B c Q"
  unfolding delivers_def by blast

lemma carrying_sends: "send_ok (k_send (e_kernel (carrying B pipe)) c)" "\<not> refuses (plain_env (carrying B pipe)) c w"
  "\<not> refuses (echo_env (carrying B pipe)) c w" if "\<not> c_sockfd (w_chans w c) < 0"
  using that by (simp_all add: carrying_def send_ok_def refuses_def sock_send_def echo_env_def)

text \<open>Events with the write bit alone, and with the read bit alone.\<close>

lemma write_only_flushes:
  assumes "mild E c" "send_ok (k_send (e_kernel E) c)" "live th fd c w" "\<not> refuses E c w"
    and "process_event E th fd 2 w = (r, w')"
  shows "stream (c_pendings (w_chans w' c)) = []"
proof -
  note w = live_facts[OF assms(3)]
  obtain w1 where w1: "write_event E th fd c w = (Ret True, w1)" "stream (c_pendings (w_chans w1 c)) = []"
    using live_write_event[OF assms(1-3)] assms(4) by blast
  have "process_event E th fd 2 w = (Ret (), w1)"
    unfolding process_event_def using w(5,7,8) w1(1) by (simp add: EVENT_WRITE_def EVENT_READ_def)
  then show ?thesis using assms(5) w1(2) by simp
qed

definition moves :: "endpoint \<Rightarrow> endpoint \<Rightarrow> conversation \<Rightarrow> conversation \<Rightarrow> bool" where
  "moves a b s s' \<longleftrightarrow> (conv_step a b)\<^sup>*\<^sup>* s s' \<and> conv_with a b [] s' \<and> cv_written s' = cv_written s"

lemma movesI:
  "conv_step a b s s' \<Longrightarrow> conv_with a b [] s' \<Longrightarrow> cv_written s' = cv_written s \<Longrightarrow> moves a b s s'"
  by (simp add: moves_def r_into_rtranclp)

lemma moves_trans [trans]: "moves a b s s' \<Longrightarrow> moves a b s' s'' \<Longrightarrow> moves a b s s''"
  by (auto simp: moves_def)

lemma empty_tasks:
  fixes B :: env
  assumes "conv_with a b ps s"
  shows "\<exists>s'. moves a b s s'"
proof -
  let ?E = "carrying B []"
  have live: "live (ep_thread a) (ep_fd a) (ep_chan a) (cv_client s)" using assms by (simp add: conv_with_def)
  have k: "send_ok (k_send (e_kernel ?E) (ep_chan a))" by (rule carrying_sends(1)[OF live_facts(6)[OF live]])
  obtain w' where w': "process_task_queue (plain_env ?E) (ep_thread a) (cv_client s) = (Ret (), w')"
    "conv_with a b [] (s\<lparr>cv_client := w', cv_up := cv_up s @ taken (ep_chan a) (cv_client s) w'\<rparr>)" (is "conv_with a b [] ?s")
    using client_tasks_ok[OF assms k] by blast
  have "moves a b s ?s" by (rule movesI[OF conv_step.client_tasks[OF k w'(1)] w'(2)]) simp
  then show ?thesis by blast
qed

lemma event_bits [simp]: "(2 AND EVENT_READ) = 0" "(1 AND EVENT_READ) \<noteq> 0" "(1 AND EVENT_WRITE) = 0"
  by (simp_all add: EVENT_READ_def EVENT_WRITE_def)

lemma client_flushes:
  fixes B :: env
  assumes "conv_with a b [] s" "config_ok (e_cfg B)"
  shows "\<exists>s'. moves a b s s' \<and> stream (c_pendings (w_chans (cv_client s') (ep_chan a))) = []"
proof -
  let ?E = "carrying B []" and ?c = "ep_chan a"
  have live: "live (ep_thread a) (ep_fd a) ?c (cv_client s)" using assms(1) by (simp add: conv_with_def)
  note fd = live_facts(6)[OF live]
  have k: "send_ok (k_send (e_kernel ?E) ?c)" by (rule carrying_sends(1)[OF fd])
  have d: "delivers ?E ?c (\<lambda>d. prefix d (cv_down s))"
    using carrying_delivers[OF assms(2) refl, of "[]"] by (rule delivers_mono) auto
  obtain w' where w': "process_event (plain_env ?E) (ep_thread a) (ep_fd a) 2 (cv_client s) = (Ret (), w')"
    "conv_with a b [] (s\<lparr>cv_client := w', cv_up := cv_up s @ taken ?c (cv_client s) w',
        cv_down := drop (length (arrived ?c (cv_client s) w')) (cv_down s)\<rparr>)" (is "conv_with a b [] ?s")
    using client_event_ok[OF assms(1) k d] by blast
  have "stream (c_pendings (w_chans w' ?c)) = []"
    using write_only_flushes[OF mild_envs(1) _ live carrying_sends(2)[OF fd] w'(1)] k by simp
  moreover have "moves a b s ?s"
    by (rule movesI[OF conv_step.client_event[OF k d w'(1)] w'(2)]) simp
  ultimately show ?thesis by (intro exI[of _ ?s]) simp
qed

lemma server_moves:
  fixes B :: env
  assumes "conv_with a b [] s" "config_ok (e_cfg B)" "d = take (nat (cfg_initial (e_cfg B))) (cv_up s)"
  shows "\<exists>s'. moves a b s s' \<and> cv_client s' = cv_client s
      \<and> cv_up s' = (if ev AND EVENT_READ \<noteq> 0 then drop (length d) (cv_up s) else cv_up s)
      \<and> (ev = 2 \<longrightarrow> stream (c_pendings (w_chans (cv_server s') (ep_chan b))) = [])"
proof -
  let ?E = "carrying B (cv_up s)" and ?c = "ep_chan b"
  have live: "live (ep_thread b) (ep_fd b) ?c (cv_server s)" using assms(1) by (simp add: conv_with_def)
  note fd = live_facts(6)[OF live]
  have k: "send_ok (k_send (e_kernel ?E) ?c)" by (rule carrying_sends(1)[OF fd])
  have exact: "delivers ?E ?c ((=) d)" by (rule carrying_delivers[OF assms(2,3)])
  have d: "delivers ?E ?c (\<lambda>d. prefix d (cv_up s))"
    using exact by (rule delivers_mono) (auto simp: assms(3) take_is_prefix)
  obtain w' where w': "process_event (echo_env ?E) (ep_thread b) (ep_fd b) ev (cv_server s) = (Ret (), w')"
    "conv_with a b [] (s\<lparr>cv_server := w', cv_down := cv_down s @ taken ?c (cv_server s) w',
        cv_up := drop (length (arrived ?c (cv_server s) w')) (cv_up s)\<rparr>)" (is "conv_with a b [] ?s")
    using server_event_ok[OF assms(1) k d] by blast
  have "arrived ?c (cv_server s) w' = (if ev AND EVENT_READ \<noteq> 0 then d else [])"
    using live_event_echo[OF live exact k, of ev] w'(1) by (auto simp: event_as_def arrived_eq split: if_splits)
  then have up: "cv_up ?s = (if ev AND EVENT_READ \<noteq> 0 then drop (length d) (cv_up s) else cv_up s)"
    by simp
  have "stream (c_pendings (w_chans w' ?c)) = []" if "ev = 2"
    using write_only_flushes[OF mild_envs(2) _ live carrying_sends(3)[OF fd]] w'(1) k that by (simp add: echo_env_def)
  moreover have "moves a b s ?s"
    by (rule movesI[OF conv_step.server_event[OF k d w'(1)] w'(2)]) simp
  ultimately show ?thesis using up by (intro exI[of _ ?s]) auto
qed

lemma server_drains:
  fixes B :: env
  assumes "conv_with a b [] s" "config_ok (e_cfg B)"
  shows "\<exists>s'. moves a b s s' \<and> cv_client s' = cv_client s \<and> cv_up s' = []"
  using assms(1)
proof (induction "length (cv_up s)" arbitrary: s rule: less_induct)
  case less
  show ?case
  proof (cases "cv_up s = []")
    case True
    with less.prems show ?thesis by (intro exI[of _ s]) (simp add: moves_def)
  next
    case False
    define d where "d = take (nat (cfg_initial (e_cfg B))) (cv_up s)"
    have "0 < length d" using False assms(2) by (simp add: d_def config_ok_def)
    obtain s1 where s1: "moves a b s s1" "cv_client s1 = cv_client s" "cv_up s1 = drop (length d) (cv_up s)"
      using server_moves[OF less.prems assms(2) d_def, of 1] by auto
    then have "length (cv_up s1) < length (cv_up s)" using \<open>0 < length d\<close> False by simp
    from less.hyps[OF this] s1 show ?thesis using moves_trans by (metis moves_def)
  qed
qed

text \<open>With nothing left in the client, an event there only reads.\<close>

lemma client_reads:
  fixes B :: env
  assumes "conv_with a b [] s" "config_ok (e_cfg B)" "d = take (nat (cfg_initial (e_cfg B))) (cv_down s)"
    and "stream (c_pendings (w_chans (cv_client s) (ep_chan a))) = []"
  shows "\<exists>s'. moves a b s s' \<and> cv_server s' = cv_server s \<and> cv_up s' = cv_up s
      \<and> cv_down s' = drop (length d) (cv_down s) \<and> stream (c_pendings (w_chans (cv_client s') (ep_chan a))) = []"
proof -
  let ?E = "carrying B (cv_down s)" and ?c = "ep_chan a"
  have live: "live (ep_thread a) (ep_fd a) ?c (cv_client s)" using assms(1) by (simp add: conv_with_def)
  have k: "send_ok (k_send (e_kernel ?E) ?c)" by (rule carrying_sends(1)[OF live_facts(6)[OF live]])
  have exact: "delivers ?E ?c ((=) d)" by (rule carrying_delivers[OF assms(2,3)])
  have d: "delivers ?E ?c (\<lambda>d. prefix d (cv_down s))"
    using exact by (rule delivers_mono) (auto simp: assms(3) take_is_prefix)
  obtain w' where w': "process_event (plain_env ?E) (ep_thread a) (ep_fd a) 1 (cv_client s) = (Ret (), w')"
    "conv_with a b [] (s\<lparr>cv_client := w', cv_up := cv_up s @ taken ?c (cv_client s) w',
        cv_down := drop (length (arrived ?c (cv_client s) w')) (cv_down s)\<rparr>)" (is "conv_with a b [] ?s")
    using client_event_ok[OF assms(1) k d] by blast
  have e: "event_as (plain_env ?E) (ep_thread a) (ep_fd a) 1 ?c d [] (cv_client s) w'"
    using live_event_plain[OF live exact k, of 1] w'(1) by (auto simp: event_as_def)
  then have "taken ?c (cv_client s) w' = [] \<and> stream (c_pendings (w_chans w' ?c)) = []"
    using taken_bytes[of ?c "cv_client s" w' "[]"] assms(4) by (simp add: event_as_def)
  moreover have "arrived ?c (cv_client s) w' = d" using e by (simp add: event_as_def arrived_eq)
  moreover have "moves a b s ?s"
    by (rule movesI[OF conv_step.client_event[OF k d w'(1)] w'(2)]) simp
  ultimately show ?thesis by (intro exI[of _ ?s]) simp
qed

lemma client_drains:
  fixes B :: env
  assumes "conv_with a b [] s" "config_ok (e_cfg B)" "stream (c_pendings (w_chans (cv_client s) (ep_chan a))) = []"
  shows "\<exists>s'. moves a b s s' \<and> cv_server s' = cv_server s \<and> cv_up s' = cv_up s
      \<and> cv_down s' = [] \<and> stream (c_pendings (w_chans (cv_client s') (ep_chan a))) = []"
  using assms(1,3)
proof (induction "length (cv_down s)" arbitrary: s rule: less_induct)
  case less
  show ?case
  proof (cases "cv_down s = []")
    case True
    with less.prems show ?thesis by (intro exI[of _ s]) (simp add: moves_def)
  next
    case False
    define d where "d = take (nat (cfg_initial (e_cfg B))) (cv_down s)"
    have "0 < length d" using False assms(2) by (simp add: d_def config_ok_def)
    obtain s1 where s1: "moves a b s s1" "cv_server s1 = cv_server s" "cv_up s1 = cv_up s"
      "cv_down s1 = drop (length d) (cv_down s)" "stream (c_pendings (w_chans (cv_client s1) (ep_chan a))) = []"
      using client_reads[OF less.prems(1) assms(2) d_def less.prems(2)] by auto
    then have "length (cv_down s1) < length (cv_down s)" using \<open>0 < length d\<close> False by simp
    from less.hyps[OF this] s1 show ?thesis using moves_trans by (metis moves_def)
  qed
qed

text \<open>From any point of a conversation it can go on, with no more writes, until all has come back.\<close>

lemma conversation_completes:
  fixes B :: env
  assumes "conv_ok a b s" "config_ok (e_cfg B)"
  shows "\<exists>s'. (conv_step a b)\<^sup>*\<^sup>* s s' \<and> cv_written s' = cv_written s \<and> got (ep_chan a) (cv_client s') = cv_written s"
proof -
  obtain ps where "conv_with a b ps s" using assms(1) by (auto simp: conv_ok_iff)
  then obtain s1 where s1: "moves a b s s1" using empty_tasks by blast
  then obtain s2 where s2: "moves a b s1 s2" "stream (c_pendings (w_chans (cv_client s2) (ep_chan a))) = []"
    using client_flushes[OF _ assms(2)] by (metis moves_def)
  then obtain s3 where s3: "moves a b s2 s3" "cv_client s3 = cv_client s2" "cv_up s3 = []"
    using server_drains[OF _ assms(2)] by (metis moves_def)
  then obtain s4 where s4: "moves a b s3 s4" "cv_client s4 = cv_client s3" "cv_up s4 = []"
    "stream (c_pendings (w_chans (cv_server s4) (ep_chan b))) = []"
    using server_moves[OF _ assms(2) refl, of a b s3 2] by (auto simp: moves_def)
  then obtain s5 where s5: "moves a b s4 s5" "cv_server s5 = cv_server s4" "cv_up s5 = cv_up s4" "cv_down s5 = []"
    "stream (c_pendings (w_chans (cv_client s5) (ep_chan a))) = []"
    using client_drains[OF _ assms(2), of a b s4] s2 s3 by (auto simp: moves_def)
  have m: "moves a b s s5" using s1 s2(1) s3(1) s4(1) s5(1) moves_trans by blast
  with s4(3,4) s5 show ?thesis by (auto simp: moves_def conv_with_def)
qed

end
