(* ===== verification/Shutdown.thy ===== *)
theory Shutdown
  imports Serving
begin

text \<open>
  Shutting down: a loop that was asked to stop closes what it serves and ends; the echo server that
  \<^verbatim>\<open>perf_echo.py\<close> starts next to its clients (\<open>_LocalEchoServer\<close>) and its way out.
\<close>

section \<open>A loop that was asked to stop\<close>

text \<open>A channel that is shut: its socket closed, and nobody waits for it to connect or to close.\<close>

definition shut :: "cid \<Rightarrow> world \<Rightarrow> world \<Rightarrow> bool" where
  "shut c w w' \<longleftrightarrow> c_sockfd (w_chans w' c) = -1 \<and> fut_done w' (c_close_future (w_chans w c))
     \<and> (\<not> c_server (w_chans w c) \<longrightarrow> fut_done w' (c_channel_future (w_chans w c)))"

definition known :: "cid \<Rightarrow> world \<Rightarrow> bool" where
  "known c w \<longleftrightarrow> c < w_next_cid w \<and> c_close_future (w_chans w c) < w_next_fid w
     \<and> c_channel_future (w_chans w c) < w_next_fid w"

lemma known_later:
  assumes "evolves w w'" "known c w"
  shows "known c w'" "c_close_future (w_chans w' c) = c_close_future (w_chans w c)"
    "c_channel_future (w_chans w' c) = c_channel_future (w_chans w c)" "c_server (w_chans w' c) = c_server (w_chans w c)"
  using assms evolves_chan[OF assms(1), of c] evolves_next[OF assms(1)]
  by (auto simp: known_def chan_evolves_def)

lemma shut_later:
  assumes "shut c w w1" "evolves w w1" "evolves w1 w2" "known c w"
  shows "shut c w w2"
proof -
  have k: "known c w1" "c_close_future (w_chans w1 c) = c_close_future (w_chans w c)"
    "c_channel_future (w_chans w1 c) = c_channel_future (w_chans w c)"
    using known_later[OF assms(2,4)] by simp_all
  then have "c_sockfd (w_chans w2 c) = -1"
    using assms(1) evolves_chan[OF assms(3), of c] by (auto simp: known_def shut_def chan_evolves_def)
  with assms(1) k show ?thesis
    using evolves_fut_done[OF assms(3)] by (auto simp: shut_def known_def)
qed

lemma close_shuts:
  assumes "application E" "passive_listeners E" "close_channel_internally E th c reason e w = (Ret u, w')" "known c w"
  shows "shut c w w'"
proof -
  have k: "c < w_next_cid w" "c_close_future (w_chans w c) < w_next_fid w" "c_channel_future (w_chans w c) < w_next_fid w"
    using assms(4) by (simp_all add: known_def)
  have "closed_in c w w'" by (rule application.close_channel_internally_closes[OF assms(1,3) k(1,2)])
  moreover have "fut_done w' (c_channel_future (w_chans w c))" if "\<not> c_server (w_chans w c)"
  proof -
    obtain x w1 where 1: "fail_channel_work E th c x w = (Ret (), w1)" "steps w1 w'"
      using application.close_channel_internally_tail[OF assms(1,3)] by blast
    have "evolves w w1"
      using application.fail_channel_work_run[OF assms(1) steps_refl] 1(1) by (metis snd_conv steps_evolves)
    with fail_channel_work_done(1)[OF assms(1,2) that 1(1) k(3)] show ?thesis
      using evolves_fut_done[OF steps_evolves[OF 1(2)]] evolves_next(2) k(3) by blast
  qed
  ultimately show ?thesis by (simp add: shut_def closed_in_def)
qed

text \<open>Closing returns: with handlers that return (\<open>responsive\<close>), or that do nothing about it (below).\<close>

definition closes :: "env \<Rightarrow> bool" where
  "closes E \<longleftrightarrow> (\<forall>th c reason w. in_eventloop th w \<and> w_started w
     \<longrightarrow> returns (close_channel_internally E th c reason None w))"

lemma responsive_closes:
  "application E \<Longrightarrow> passive_listeners E \<Longrightarrow> responsive E \<Longrightarrow> closes E"
  by (simp add: closes_def close_channel_internally_returns)

lemma cleanup_channels_shut:
  assumes "application E" "passive_listeners E" "closes E"
    and "in_eventloop th w" "w_started w" "\<forall>c \<in> set cs. known c w"
  shows "\<exists>w'. cleanup_channels E th reason cs w = (Ret (), w') \<and> evolves w w' \<and> (\<forall>c \<in> set cs. shut c w w')"
  using assms(4-6)
proof (induction cs arbitrary: w)
  case (Cons c cs)
  have "returns (close_channel_internally E th c reason None w)"
    using assms(3) Cons.prems(1,2) by (simp add: closes_def)
  then obtain w1 where w1: "close_channel_internally E th c reason None w = (Ret (), w1)"
    by (auto elim!: returnsE)
  have ev: "evolves w w1"
    using application.close_channel_internally_run[OF assms(1) steps_refl] w1 by (metis snd_conv steps_evolves)
  have "in_eventloop th w1" "w_started w1" "\<forall>c \<in> set cs. known c w1"
    using evolves_in_eventloop[OF ev] evolves_started[OF ev] known_later(1)[OF ev] Cons.prems by auto
  then obtain w' where w': "cleanup_channels E th reason cs w1 = (Ret (), w')" "evolves w1 w'"
    "\<forall>c \<in> set cs. shut c w1 w'"
    using Cons.IH by blast
  have "shut c w w'"
    using close_shuts[OF assms(1,2) w1] shut_later[OF _ ev w'(2)] Cons.prems(3) by simp
  moreover have "shut d w w'" if "d \<in> set cs" for d
    using w'(3) that known_later[OF ev, of d] Cons.prems(3) by (auto simp: shut_def)
  moreover have "cleanup_channel E th reason c w = (Ret (), w1)"
    using Cons.prems(1) w1 by (simp add: cleanup_channel_def)
  ultimately show ?case using w'(1) evolves_trans[OF ev w'(2)] by auto
qed simp

definition everything_shut :: "world \<Rightarrow> world \<Rightarrow> bool" where
  "everything_shut w w' \<longleftrightarrow> w_closed w' \<and> \<not> w_selector_open w' \<and> ef_closed (w_eventfd w')
     \<and> (\<forall>c \<in> snd ` set (w_channels w). shut c w w')"

lemma stopped_thread_ends:
  assumes "application E" "passive_listeners E" "closes E"
    and "in_eventloop th w" "w_started w" "w_stop_polling w" "\<not> w_closed w"
    and "\<forall>c \<in> snd ` set (w_channels w). known c w"
  shows "\<exists>w'. start_thread E th w = Some (Ret (), w') \<and> everything_shut w w'"
proof -
  let ?w = "w\<lparr>w_closed := True\<rparr>"
  have "in_eventloop th ?w" "w_started ?w" "\<forall>c \<in> set (map snd (w_channels w)). known c ?w"
    using assms(4,5,8) by (simp_all add: in_eventloop_def known_def)
  then obtain w1 where w1: "cleanup_channels E th ''event loop stopped'' (map snd (w_channels w)) ?w = (Ret (), w1)"
    "evolves ?w w1" "\<forall>c \<in> set (map snd (w_channels w)). shut c ?w w1"
    using cleanup_channels_shut[OF assms(1-3)] by blast
  define w' where "w' = (sel_close w1)\<lparr>w_eventfd := eventfd_close (w_eventfd (sel_close w1))\<rparr>"
  have "cleanup_resources E th ''event loop stopped'' w = (Ret (), w')"
    using assms(7) w1(1) by (simp add: cleanup_resources_def w'_def Let_def)
  then have "start_thread E th w = Some (Ret (), w')"
    using assms(6) by (subst start_thread.simps) (simp add: loop_iteration_def)
  moreover have "everything_shut w w'"
    using w1(2,3) by (auto simp: everything_shut_def shut_def w'_def sel_close_def evolves_def fut_done_def
        eventfd_close_def eventfd_close_fds_def)
  ultimately show ?thesis by blast
qed

section \<open>Closing with handlers that do nothing about it\<close>

text \<open>The library's own handlers do nothing but to data and accepted sockets.\<close>

definition idle :: "env \<Rightarrow> bool" where
  "idle E \<longleftrightarrow> passive_listeners E \<and> (\<forall>c th w cb. (\<forall>b. cb \<noteq> ChannelReadBytes b) \<and> (\<forall>s. cb \<noteq> ChannelReadSocket s)
     \<longrightarrow> e_handler E c cb th w = (Ret (), w))"

lemma idle_envs: "idle (plain_env B)" "idle (echo_env B)" "idle (server_env B wrap)"
  by (auto simp: idle_def passive_listeners_def adapter_handler_def echo_env_def echo_handler_def server_env_def
      initializer_handler_def split: callback.split)

lemma idle_fire:
  "idle E \<Longrightarrow> (\<And>b. cb \<noteq> ChannelReadBytes b) \<Longrightarrow> (\<And>s. cb \<noteq> ChannelReadSocket s) \<Longrightarrow>
     fire E th c cb w = (Ret (), fired c cb w)"
  by (simp add: idle_def fire_def)

definition untouched :: "cid \<Rightarrow> world \<Rightarrow> world \<Rightarrow> bool" where
  "untouched c w w' \<longleftrightarrow> set (w_channels w') \<subseteq> set (w_channels w) \<and> w_taskq w' = w_taskq w \<and> (\<forall>d. d \<noteq> c \<longrightarrow> w_chans w' d = w_chans w d)
     \<and> w_thread w' = w_thread w \<and> w_started w' = w_started w
     \<and> w_stop_polling w' = w_stop_polling w \<and> w_closed w' = w_closed w"

lemma untouched_trans [trans]: "untouched c w w' \<Longrightarrow> untouched c w' w'' \<Longrightarrow> untouched c w w''"
  unfolding untouched_def by (metis subset_trans)

lemma dict_pop_subset: "set (dict_pop k d) \<subseteq> set d"
  by (auto simp: dict_pop_def AList.delete_eq)

definition leaves :: "cid \<Rightarrow> world \<Rightarrow> 'a outcome \<times> world \<Rightarrow> bool" where
  "leaves c w r \<longleftrightarrow> (\<exists>x. fst r = Ret x) \<and> untouched c w (snd r)"

lemma leaves_Ret: "leaves c w (Ret x, w') \<longleftrightarrow> untouched c w w'"
  by (simp add: leaves_def)

lemma untouched_refl [simp]: "untouched c w w"
  by (simp add: untouched_def)

lemma leaves_after: "untouched c w w' \<Longrightarrow> leaves c w' r \<Longrightarrow> leaves c w r"
  using untouched_trans by (auto simp: leaves_def)

lemma leaves_andThen:
  assumes "leaves c w m" "\<And>x w'. untouched c w w' \<Longrightarrow> leaves c w' (k x w')"
  shows "leaves c w (andThen m k)"
proof -
  obtain x w' where m: "m = (Ret x, w')" "untouched c w w'"
    using assms(1) by (cases m) (auto simp: leaves_def)
  with assms(2)[of w' x] untouched_trans[of c w w'] show ?thesis by (auto simp: leaves_def)
qed

lemma leaves_futures:
  "idle E \<Longrightarrow> leaves c w (cf_set E f c' th w)" "idle E \<Longrightarrow> leaves c w (cf_set_exception E f x th w)"
  by (auto simp: idle_def leaves_def cf_set_def cf_set_exception_def fut_set_result_def fut_set_exception_def
      fut_complete_passive untouched_def)

lemma leaves_fire:
  "idle E \<Longrightarrow> (\<And>b. cb \<noteq> ChannelReadBytes b) \<Longrightarrow> (\<And>s. cb \<noteq> ChannelReadSocket s) \<Longrightarrow> leaves c w (fire E th c cb w)"
  by (simp add: idle_fire leaves_Ret untouched_def fired_def)

lemma leaves_check_writability: "idle E \<Longrightarrow> leaves c w (check_writability E th c w)"
  by (auto simp: check_writability_def Let_def idle_fire leaves_def untouched_def fired_def)

lemma leaves_set_active: "idle E \<Longrightarrow> leaves c w (set_active E th c b w)"
  by (auto simp: set_active_def Let_def idle_fire leaves_def untouched_def fired_def)

lemma leaves_fail_pendings: 
  assumes "idle E"
  shows "leaves c w (fail_pendings E th c x w)"
proof -
  have "passive_listeners E" using assms by (simp add: idle_def)
  note f = fail_loop_passive[OF this]
  define w1 where "w1 = upd_chan c (\<lambda>ch. (replace_pendings [] ch)\<lparr>c_pending_bytes := 0\<rparr>) (w\<lparr>w_futs :=
     fail_futs x (c_close_future (w_chans w c)) (drop 0 (read_list (w_chans w c) (c_pgen (w_chans w c)))) (w_futs w)\<rparr>)"
  have "untouched c w w1" by (simp add: w1_def untouched_def)
  moreover have "fail_pendings E th c x w = check_writability E th c w1"
    by (simp add: fail_pendings_def f w1_def)
  ultimately show ?thesis
    using leaves_after[OF _ leaves_check_writability[OF assms]] by simp
qed

lemma leaves_unregister:
  assumes "idle E" "in_eventloop th w"
  shows "leaves c w (unregister E th c None w)"
proof -
  let ?w = "snd (new_future w)" and ?fd = "c_fileno0 (w_chans w c)"
  define w1 where "w1 = snd (handling (andThen (sel_unregister ?fd ?w) (\<lambda>_ w. fire E th c ChannelUnregistered w))
                  (\<lambda>_ w. (Ret (), w)))"
  have u: "untouched c w ?w" "in_eventloop th ?w" "w_chans ?w = w_chans w"
    using assms(2) by (simp_all add: untouched_def new_future_def in_eventloop_def)
  have w1: "handling (andThen (sel_unregister ?fd ?w) (\<lambda>_ w. fire E th c ChannelUnregistered w))
                  (\<lambda>_ w. (Ret (), w)) = (Ret (), w1)" "untouched c ?w w1"
    using assms(1) by (auto simp: w1_def sel_unregister_def idle_fire untouched_def fired_def)
  let ?w2 = "w1\<lparr>w_channels := dict_pop ?fd (w_channels w1), w_due := dict_pop ?fd (w_due w1)\<rparr>"
  have "untouched c w ?w2" using untouched_trans[OF u(1) w1(2)] dict_pop_subset[of ?fd "w_channels w1"]
    by (auto simp: untouched_def)
  moreover have "unregister E th c None w = andThen (cf_set E (w_next_fid w) c th ?w2) (\<lambda>_ w'. (Ret (w_next_fid w), w'))"
    using u(2,3) w1(1) by (simp add: unregister_def new_future_def Let_def)
  moreover have "leaves c ?w2 (andThen (cf_set E (w_next_fid w) c th ?w2) (\<lambda>_ w'. (Ret (w_next_fid w), w')))"
    by (intro leaves_andThen leaves_futures(1)[OF assms(1)]) (simp add: leaves_Ret)
  ultimately show ?thesis using leaves_after by metis
qed

lemma leaves_close:
  assumes "idle E" "in_eventloop th w"
  shows "leaves c w (close_channel_internally E th c reason e w)"
proof -
  have close: "leaves c w (andThen (cf_set E (c_close_future (w_chans w c)) c th (sock_close c w)) k)"
    if "\<And>w'. untouched c w w' \<Longrightarrow> leaves c w' (k () w')" for k :: "unit \<Rightarrow> world \<Rightarrow> unit outcome \<times> world" and w
  proof -
    have "untouched c w (sock_close c w)" by (simp add: untouched_def sock_close_def)
    from leaves_after[OF this leaves_futures(1)[OF assms(1)]] have
      "leaves c w (cf_set E (c_close_future (w_chans w c)) c th (sock_close c w))" .
    with that show ?thesis by (intro leaves_andThen) auto
  qed
  have loop: "in_eventloop th w'" if "untouched c w w'" for w'
    using assms(2) that by (simp add: untouched_def in_eventloop_def)
  have work: "leaves c w (fail_channel_work E th c x w)" for x
    unfolding fail_channel_work_def Let_def
    by (intro leaves_andThen) (simp_all add: leaves_futures[OF assms(1)] leaves_fail_pendings[OF assms(1)] leaves_Ret untouched_def)
  have last: "leaves c w' (Ret (), w'\<lparr>w_channels := dict_pop k (w_channels w'), w_due := b\<rparr>)" for w' k b
    using dict_pop_subset by (simp add: leaves_Ret untouched_def)
  show ?thesis
    unfolding close_channel_internally_def Let_def using assms(2)
    by (auto intro!: leaves_andThen work close leaves_set_active[OF assms(1)] leaves_unregister[OF assms(1)] last
        dest: untouched_trans intro: loop)
qed

lemma idle_closes: "idle E \<Longrightarrow> closes E"
  unfolding closes_def by (metis leaves_close leaves_def prod.collapse returns_def)

section \<open>Leaving a group\<close>

lemma stop_started:
  assumes "w_started w" "\<not> w_closed w" "\<not> w_stop_polling w"
  shows "stop E th w = (Ret (), w\<lparr>w_stop_polling := True, w_eventfd := snd (eventfd_unsafe_write (w_eventfd w))\<rparr>)"
  using assms by (simp add: stop_def interrupt_eq)

text \<open>\<open>__exit__\<close> of a group whose loops run: each of their threads then closes all it serves and ends.\<close>

definition serving :: "tid \<Rightarrow> world \<Rightarrow> bool" where
  "serving th w \<longleftrightarrow> in_eventloop th w \<and> w_started w \<and> \<not> w_stop_polling w \<and> \<not> w_closed w
     \<and> (\<forall>c \<in> snd ` set (w_channels w). known c w)"

text \<open>A loop whose thread was never started serves nothing.\<close>

definition unstarted :: "world \<Rightarrow> bool" where
  "unstarted w \<longleftrightarrow> \<not> w_started w \<and> \<not> w_stop_polling w \<and> \<not> w_closed w \<and> w_channels w = []"

text \<open>What \<open>stop\<close> makes of either: the first is asked, the second cleaned up at once.\<close>

definition told :: "world \<Rightarrow> world" where
  "told w =
     (if w_started w
      then w\<lparr>w_stop_polling := True, w_eventfd := snd (eventfd_unsafe_write (w_eventfd w))\<rparr>
      else let w = sel_close (w\<lparr>w_stop_polling := True, w_closed := True\<rparr>) in w\<lparr>w_eventfd := eventfd_close (w_eventfd w)\<rparr>)"

lemma told_started [simp]: "w_started (told w) = w_started w"
  by (simp add: told_def sel_close_def Let_def)

definition ends :: "env \<Rightarrow> tid \<Rightarrow> world \<Rightarrow> bool" where
  "ends E th w \<longleftrightarrow>
     (if w_started w then \<exists>w'. start_thread E th w = Some (Ret (), w') \<and> everything_shut w w'
      else everything_shut w w)"

lemma told_ends:
  assumes "application E" "passive_listeners E" "closes E" "serving th w \<or> unstarted w"
  shows "stop E t w = (Ret (), told w) \<and> ends E th (told w)"
  using assms(4)
proof
  assume "serving th w"
  note run = this[unfolded serving_def]
  have "stop E t w = (Ret (), told w)" using run stop_started by (simp add: told_def)
  moreover have "\<exists>w'. start_thread E th (told w) = Some (Ret (), w') \<and> everything_shut (told w) w'"
    using run by (intro stopped_thread_ends[OF assms(1-3)]) (simp_all add: told_def in_eventloop_def known_def)
  ultimately show ?thesis using run by (simp add: ends_def told_def)
next
  assume "unstarted w"
  then show ?thesis
    by (simp add: unstarted_def told_def ends_def stop_def cleanup_resources_def everything_shut_def sel_close_def
        eventfd_close_def eventfd_close_fds_def Let_def)
qed

lemma group_ends:
  assumes "application E" "passive_listeners E" "closes E" "list_all2 (\<lambda>th w. serving th w \<or> unstarted w) ths ws"
  shows "group_stop E t ws = (Ret (), map told ws) \<and> list_all2 (\<lambda>th w. ends E th (told w)) ths ws"
  using assms(4)
proof (induction ths ws rule: list_all2_induct)
  case (Cons th ths w ws)
  then show ?case using told_ends[OF assms(1-3) Cons.hyps(1), of t] by auto
qed simp

section \<open>The echo server of the benchmark\<close>

text \<open>\<open>_LocalEchoServer\<close>: its port is \<open>free\<close> (\<open>_choose_free_port\<close>) when none was asked for; the \<open>with\<close> block binds it
  on the loop of the parent group and keeps the channel.\<close>

definition local_port :: "int \<Rightarrow> int \<Rightarrow> int" where
  "local_port port free = (if port \<noteq> 0 then port else free)"

definition local_echo_enter :: "env \<Rightarrow> tid \<Rightarrow> int \<Rightarrow> exn + fd \<Rightarrow> world \<Rightarrow> cid outcome \<times> world" where
  "local_echo_enter E t port server_socket w =
     andThen (server_bind E t None None port server_socket w) (\<lambda>_ w'. (Ret (w_next_cid w), w'))"

text \<open>\<open>sync\<close> gives the result of the future, or raises its exception; a thread that waits for a future that nobody
  completes waits forever.\<close>

definition future_sync :: "fid \<Rightarrow> world \<Rightarrow> unit outcome \<times> world" where
  "future_sync f w =
     (case w_futs w f of
        FPending \<Rightarrow> (Diverge, w)
      | FCancelled \<Rightarrow> (Raise CancelledError, w)
      | FException e \<Rightarrow> (Raise e, w)
      | FResult _ \<Rightarrow> (Ret (), w))"

text \<open>While a thread waits for the close, the loop's thread \<open>tp\<close> works on its tasks; what they raise is not the
  waiting thread's.\<close>

definition sync_close :: "env \<Rightarrow> tid \<Rightarrow> cid \<Rightarrow> world \<Rightarrow> unit outcome \<times> world" where
  "sync_close E tp c w = future_sync (c_close_future (w_chans w c)) (snd (process_task_queue E tp w))"

definition local_echo_exit :: "env \<Rightarrow> tid \<Rightarrow> tid \<Rightarrow> cid option \<Rightarrow> world \<Rightarrow> world \<Rightarrow> unit outcome \<times> world \<times> world" where
  "local_echo_exit E t tp channel wp wc =
     (case (case channel of None \<Rightarrow> (Ret (), wp)
            | Some c \<Rightarrow> andThen (channel_close E t c True wp) (\<lambda>_ w. sync_close E tp c w)) of
        (Ret _, wp) \<Rightarrow>
          (case group_stop E t [wp] of
             (Ret _, wps) \<Rightarrow> (case group_stop E t [wc] of (r, wcs) \<Rightarrow> (r, hd wps, hd wcs))
           | (r, wps) \<Rightarrow> (r, hd wps, wc))
      | (r, wp) \<Rightarrow> (r, wp, wc))"

text \<open>A listening channel whose close future nobody has touched.\<close>

definition listening :: "cid \<Rightarrow> world \<Rightarrow> bool" where
  "listening c w \<longleftrightarrow> known c w \<and> c_server (w_chans w c) \<and> w_futs w (c_close_future (w_chans w c)) = FPending
     \<and> c_channel_future (w_chans w c) \<noteq> c_close_future (w_chans w c)"

lemma close_result:
  assumes "application E" "idle E" "listening c w" "close_channel_internally E th c reason e w = (Ret u, w')"
  shows "w_futs w' (c_close_future (w_chans w c)) = FResult (VChannel c)"
proof -
  let ?f = "c_close_future (w_chans w c)"
  have E: "passive_listeners E" using assms(2) by (simp add: idle_def)
  note l = assms(3)[unfolded listening_def known_def]
  from assms(4) have loop: "in_eventloop th w"
    by (auto simp: close_channel_internally_def split: if_splits)
  let ?x = "case e of Some e \<Rightarrow> e | None \<Rightarrow> channel_closed_exn reason"
  from assms(4) loop obtain w1 w2 w3 w4 u1 u2 u3 cf where
    1: "fail_channel_work E th c ?x w = (Ret u1, w1)" and
    2: "cf_set E (c_close_future (w_chans (sock_close c w1) c)) c th (sock_close c w1) = (Ret u2, w2)" and
    3: "set_active E th c False w2 = (Ret u3, w3)" and
    4: "unregister E th c None w3 = (Ret cf, w4)" and
    5: "w' = w4\<lparr>w_channels := dict_pop (c_fileno0 (w_chans w4 c)) (w_channels w4),
                  w_due := dict_pop (c_fileno0 (w_chans w4 c)) (w_due w4)\<rparr>"
    unfolding close_channel_internally_def Let_def by (auto elim!: andThen_RetE simp: sock_close_def)
  have "w_futs w1 ?f = FPending" "w_chans w1 = w_chans w" "w_next_fid w1 = w_next_fid w"
    using 1 l by (auto simp: fail_channel_work_def Let_def cf_set_exception_def fut_set_exception_def
        fut_complete_passive[OF E] split: if_splits)
  then have w2: "w_futs w2 ?f = FResult (VChannel c)" "w_next_fid w2 = w_next_fid w"
    using 2 by (auto simp: cf_set_def fut_set_result_def fut_complete_passive[OF E] sock_close_def fut_done_def)
  have "evolves w2 w4"
    using application.unregister_run[OF assms(1) application.set_active_run[OF assms(1) steps_refl]] 3 4
    by (metis snd_conv steps_evolves)
  then have "w_futs w2 ?f \<le> w_futs w4 ?f" using l w2(2) by (simp add: evolves_def)
  then show ?thesis using w2(1) by (simp add: 5 less_eq_fstate_def)
qed

text \<open>A forced close from another thread, and the wait for it.\<close>

lemma outside_close:
  assumes "application E" "idle E" "serving tp w" "\<not> in_eventloop t w" "w_taskq w = []" "listening c w"
  shows "\<exists>w1 w'. channel_close E t c True w = (Ret (), w1) \<and> sync_close E tp c w1 = (Ret (), w')
    \<and> shut c w w' \<and> evolves w w' \<and> untouched c w w'"
proof -
  have E: "passive_listeners E" using assms(2) by (simp add: idle_def)
  note run = assms(3)[unfolded serving_def]
  have k: "known c w" using assms(6) by (simp add: listening_def)
  define w0 where "w0 = w\<lparr>w_tasks_submitted := w_tasks_submitted w + 1, w_eventfd := snd (eventfd_unsafe_write (w_eventfd w))\<rparr>"
  define w1 where "w1 = w0\<lparr>w_taskq := [TCloseForcibly c]\<rparr>"
  have cl: "channel_close E t c True w = (Ret (), w1)"
    using run assms(4,5) by (simp add: channel_close_def close_forcibly_def submit_task_running w1_def w0_def)
  have w0: "in_eventloop tp w0" "w_taskq w0 = []" "listening c w0" "evolves w w0" "untouched c w w0" "known c w0"
    using run assms(5,6) k by (simp_all add: w0_def in_eventloop_def listening_def known_def evolves_def untouched_def)
  obtain w2 where w2: "close_channel_internally E tp c ''close channel forcibly'' None w0 = (Ret (), w2)" "untouched c w0 w2"
    using leaves_close[OF assms(2) w0(1), of c "''close channel forcibly''" None]
    by (cases "close_channel_internally E tp c ''close channel forcibly'' None w0") (auto simp: leaves_def)
  define w' where "w' = w2\<lparr>w_tasks_processed := w_tasks_processed w2 + 1\<rparr>"
  have ev: "evolves w0 w2"
    using application.close_channel_internally_run[OF assms(1) steps_refl] w2(1) by (metis snd_conv steps_evolves)
  have idle1: "w_taskq w1 = [TCloseForcibly c]" "w1\<lparr>w_taskq := []\<rparr> = w0" using w0(2) by (simp_all add: w1_def)
  have run1: "run_task_logged E tp (TCloseForcibly c) w0 = (Ret (), w2)"
    using w0(1) w2(1) by (simp add: run_task_logged_def run_task_def close_forcibly_def)
  have "w_taskq w' = []" using w2(2) w0(2) by (simp add: w'_def untouched_def)
  then have "process_task_queue_loop E tp w' = Some (Ret (), w')"
    by (subst process_task_queue_loop.simps) simp
  moreover have "process_task_queue_loop E tp w1 = process_task_queue_loop E tp w'"
    by (subst process_task_queue_loop.simps) (simp add: idle1 run1 w'_def)
  ultimately have tasks: "process_task_queue E tp w1 = (Ret (), w')" by (simp add: process_task_queue_def)
  have "shut c w0 w2" by (rule close_shuts[OF assms(1) E w2(1) w0(6)])
  then have "shut c w w'" by (simp add: shut_def w0_def w'_def fut_done_def)
  moreover have "evolves w w'" using evolves_trans[OF w0(4) ev] by (simp add: w'_def evolves_def)
  moreover have "untouched c w w'" using untouched_trans[OF w0(5) w2(2)] by (simp add: w'_def untouched_def)
  moreover have "sync_close E tp c w1 = (Ret (), w')"
  proof -
    have "w_futs w2 (c_close_future (w_chans w0 c)) = FResult (VChannel c)"
      by (rule close_result[OF assms(1,2) w0(3) w2(1)])
    moreover have "c_close_future (w_chans w1 c) = c_close_future (w_chans w0 c)" by (simp add: w1_def)
    ultimately show ?thesis by (simp add: sync_close_def future_sync_def tasks) (simp add: w'_def)
  qed
  ultimately show ?thesis using cl by blast
qed

lemma local_server_ends:
  assumes "application E" "idle E" "serving tp wp" "serving tc wc \<or> unstarted wc" "\<not> in_eventloop t wp"
    and "w_taskq wp = []" "listening c wp"
  shows "\<exists>wp1. local_echo_exit E t tp (Some c) wp wc = (Ret (), wp1, told wc) \<and> shut c wp wp1
    \<and> ends E tp wp1 \<and> ends E tc (told wc)"
proof -
  have E: "passive_listeners E" "closes E" using assms(2) idle_closes by (simp_all add: idle_def)
  obtain w0 w1 where c: "channel_close E t c True wp = (Ret (), w0)" "sync_close E tp c w0 = (Ret (), w1)"
    "shut c wp w1" "evolves wp w1" "untouched c wp w1"
    using outside_close[OF assms(1-3,5-7)] by blast
  have "known d w1" if "d \<in> snd ` set (w_channels w1)" for d
    using that assms(3) c(5) known_later(1)[OF c(4)] by (auto simp: serving_def untouched_def)
  then have "serving tp w1"
    using assms(3) c(5) by (auto simp: serving_def untouched_def in_eventloop_def)
  then have 2: "stop E t w1 = (Ret (), told w1)" "ends E tp (told w1)" "stop E t wc = (Ret (), told wc)" "ends E tc (told wc)"
    using told_ends[OF assms(1) E] assms(4) by blast+
  have "local_echo_exit E t tp (Some c) wp wc = (Ret (), told w1, told wc)"
    by (simp add: local_echo_exit_def c(1,2) 2(1,3))
  moreover have "shut c wp (told w1)"
    using c(3) by (simp add: told_def shut_def fut_done_def sel_close_def Let_def)
  ultimately show ?thesis using 2 by blast
qed

text \<open>Entering the block makes such a channel, on a loop whose thread it starts; the registration waits for it.\<close>

lemma enter_listens:
  assumes "\<And>k. k_pool (e_kernel E) k = PoolThread tp" "t \<noteq> tp" "0 < port" "0 < fileno"
  shows "\<exists>w'. local_echo_enter E t port (Inr fileno) (eventloop_init posix r wr) = (Ret 0, w')
    \<and> serving tp w' \<and> w_taskq w' = [TRegister 0 False] \<and> listening 0 w' \<and> c_sockfd (w_chans w' 0) = fileno
    \<and> w_selector w' = w_selector (eventloop_init posix r wr) \<and> w_selector_open w' \<and> w_thread w' = Some tp"
proof -
  have "\<exists>w1. new_server_channel fileno (eventloop_init posix r wr) = (Ret 0, w1)
    \<and> w1 = (eventloop_init posix r wr)\<lparr>w_next_cid := 1, w_next_fid := 2, w_futs := w_futs w1, w_listeners := w_listeners w1, w_chans := w_chans w1\<rparr>
    \<and> w_futs w1 0 = FPending \<and> w_chans w1 0 = (base_channel fileno 0 1)\<lparr>c_server := True\<rparr>"
    using assms(4)
    by (simp add: new_server_channel_def new_abstract_channel_def new_future_def eventloop_init_def Let_def upd_chan_def)
  then obtain w1 where w1: "new_server_channel fileno (eventloop_init posix r wr) = (Ret 0, w1)"
    "w1 = (eventloop_init posix r wr)\<lparr>w_next_cid := 1, w_next_fid := 2, w_futs := w_futs w1, w_listeners := w_listeners w1, w_chans := w_chans w1\<rparr>"
    "w_futs w1 0 = FPending" "w_chans w1 0 = (base_channel fileno 0 1)\<lparr>c_server := True\<rparr>" by blast
  have f: "\<not> w_stop_polling w1" "\<not> w_closed w1" "\<not> w_started w1" "w_taskq w1 = []" "w_channels w1 = []"
    "w_next_cid w1 = 1" "w_next_fid w1 = 2" "w_selector w1 = w_selector (eventloop_init posix r wr)" "w_selector_open w1"
    by (subst w1(2), simp add: eventloop_init_def)+
  define w2 where "w2 = (tick w1)\<lparr>w_thread := Some tp, w_started := True\<rparr>"
  have start: "start E w1 = (Ret (), w2)" using f assms(1) by (simp add: start_def w2_def)
  have g: "w_started w2" "\<not> w_stop_polling w2" "\<not> w_closed w2" "\<not> in_eventloop t w2" "w_chans w2 = w_chans w1" "w_taskq w2 = []"
    using f assms(2) by (simp_all add: w2_def in_eventloop_def)
  show ?thesis
    using assms(3) w1(1,3,4) f g
    by (simp add: local_echo_enter_def server_bind_def register_def start submit_task_running[OF g(1-3)] Let_def)
      (simp add: serving_def listening_def known_def in_eventloop_def w2_def base_channel_def eventloop_init_def)
qed

lemma dict_set_subset: "set (dict_set k v d) \<subseteq> insert (k, v) (set d)"
  by (induction d) (auto simp: dict_set_def)

text \<open>Then the loop registers it, and from then on waits for connections on its descriptor.\<close>

lemma register_listening:
  assumes "idle E" "accepting E" "serving tp w" "w_taskq w = [TRegister c False]" "listening c w"
    and "c_sockfd (w_chans w c) = fileno" "0 < fileno" "fileno \<notin> dict_keys (w_selector w)" "w_selector_open w"
  shows "\<exists>w'. process_task_queue E tp w = (Ret (), w') \<and> serving tp w' \<and> listening c w' \<and> w_taskq w' = []
    \<and> dict_get (w_selector w') fileno = Some (EVENT_READ OR EVENT_WRITE) \<and> dict_get (w_channels w') fileno = Some c"
proof -
  note run = assms(3)[unfolded serving_def]
  define w0 where "w0 = w\<lparr>w_taskq := []\<rparr>"
  define w1 where "w1 = fired c ChannelRegistered ((tick (upd_chan c (\<lambda>ch. ch\<lparr>c_flag := EVENT_READ OR EVENT_WRITE\<rparr>) w0))
    \<lparr>w_selector := dict_set fileno (EVENT_READ OR EVENT_WRITE) (w_selector w)\<rparr>)"
  define w2 where "w2 = w1\<lparr>w_registered := w_registered w1 + 1, w_channels := dict_set fileno c (w_channels w1)\<rparr>"
  have "sel_register E fileno (EVENT_READ OR EVENT_WRITE) (upd_chan c (\<lambda>ch. ch\<lparr>c_flag := EVENT_READ OR EVENT_WRITE\<rparr>) w0)
    = (Ret (), (tick (upd_chan c (\<lambda>ch. ch\<lparr>c_flag := EVENT_READ OR EVENT_WRITE\<rparr>) w0))
        \<lparr>w_selector := dict_set fileno (EVENT_READ OR EVENT_WRITE) (w_selector w)\<rparr>)"
    using assms(2,7-9) by (simp add: sel_register_def accepting_def w0_def)
  then have reg: "register E tp c False w0 = (Ret (c_channel_future (w_chans w c)), w2)"
    using run assms(5-7)
    by (simp add: register_def Let_def start_def idle_fire[OF assms(1)] w1_def[symmetric] w0_def in_eventloop_def)
      (simp add: w2_def w1_def w0_def fired_def listening_def)
  define w3 where "w3 = w2\<lparr>w_tasks_processed := w_tasks_processed w2 + 1\<rparr>"
  have run1: "run_task_logged E tp (TRegister c False) w0 = (Ret (), w2)"
    by (simp add: run_task_logged_def run_task_def reg)
  have "w_taskq w3 = []" by (simp add: w3_def w2_def w1_def w0_def fired_def)
  then have "process_task_queue_loop E tp w3 = Some (Ret (), w3)"
    by (subst process_task_queue_loop.simps) simp
  moreover have "process_task_queue_loop E tp w = process_task_queue_loop E tp w3"
    using assms(4) run1 by (subst process_task_queue_loop.simps) (simp add: w0_def w3_def)
  ultimately have "process_task_queue E tp w = (Ret (), w3)" by (simp add: process_task_queue_def)
  moreover have k: "known d w3 = known d w" for d
    by (simp add: known_def w3_def w2_def w1_def w0_def fired_def)
  moreover have "w_channels w3 = dict_set fileno c (w_channels w)" by (simp add: w3_def w2_def w1_def w0_def fired_def)
  moreover have "known c w" using assms(5) by (simp add: listening_def)
  moreover have "listening c w3"
    using assms(5) by (simp add: listening_def k) (simp add: w3_def w2_def w1_def w0_def fired_def)
  moreover have "serving tp w3"
    unfolding serving_def
  proof (intro conjI ballI)
    fix d assume "d \<in> snd ` set (w_channels w3)"
    then have "d = c \<or> d \<in> snd ` set (w_channels w)"
      using dict_set_subset[of fileno c "w_channels w"] calculation(3) by force
    then show "known d w3" using run k calculation(4) by auto
  qed (use run in \<open>simp_all add: w3_def w2_def w1_def w0_def fired_def in_eventloop_def\<close>)
  ultimately show ?thesis
    using \<open>w_taskq w3 = []\<close>
    by (intro exI[of _ w3]) (simp add: w3_def w2_def w1_def w0_def fired_def)
qed

text \<open>The life of the server: entered from a new group, registered by its loop, and left in whatever state its
  loops are then.\<close>

lemma local_server_life:
  assumes "application E" "idle E" "accepting E" "\<And>k. k_pool (e_kernel E) k = PoolThread tp" "t \<noteq> tp"
    and "0 < port" "0 < fileno" "fileno \<notin> dict_keys (w_selector (eventloop_init posix r wr))"
  shows "\<exists>w1 w2. local_echo_enter E t port (Inr fileno) (eventloop_init posix r wr) = (Ret 0, w1)
    \<and> process_task_queue E tp w1 = (Ret (), w2) \<and> serving tp w2 \<and> listening 0 w2 \<and> w_taskq w2 = []
    \<and> \<not> in_eventloop t w2 \<and> dict_get (w_selector w2) fileno = Some (EVENT_READ OR EVENT_WRITE)
    \<and> dict_get (w_channels w2) fileno = Some 0"
proof -
  obtain w1 where w1: "local_echo_enter E t port (Inr fileno) (eventloop_init posix r wr) = (Ret 0, w1)"
    "serving tp w1" "w_taskq w1 = [TRegister 0 False]" "listening 0 w1" "c_sockfd (w_chans w1 0) = fileno"
    "w_selector w1 = w_selector (eventloop_init posix r wr)" "w_selector_open w1"
    using enter_listens[OF assms(4-7)] by blast
  from register_listening[OF assms(2,3) w1(2-5) assms(7) _ w1(7)] obtain w2 where
    w2: "process_task_queue E tp w1 = (Ret (), w2)" "serving tp w2" "listening 0 w2" "w_taskq w2 = []"
    "dict_get (w_selector w2) fileno = Some (EVENT_READ OR EVENT_WRITE)" "dict_get (w_channels w2) fileno = Some 0"
    using assms(8) w1(6) by auto
  moreover have "\<not> in_eventloop t w2" using w2(2) assms(5) by (simp add: serving_def in_eventloop_def)
  ultimately show ?thesis using w1(1) by blast
qed

end
