(* ===== verification/Delivery.thy ===== *)
theory Delivery
  imports Conversation Verdicts Demo Shutdown
begin

text \<open>
  The burst client of \<^verbatim>\<open>perf_echo.py\<close> over a conversation: what it writes goes through the channels of two
  loops and the echo handler, and what its handler is given completes its run.  At the end, concrete
  conversations, and loops to be stopped.
\<close>

text \<open>What a conversation starts from.\<close>

definition conv_start :: "endpoint \<Rightarrow> endpoint \<Rightarrow> conversation \<Rightarrow> bool" where
  "conv_start a b s \<longleftrightarrow> live (ep_thread a) (ep_fd a) (ep_chan a) (cv_client s)
     \<and> open_loop (cv_client s) \<and> w_taskq (cv_client s) = [] \<and> got (ep_chan a) (cv_client s) = []
     \<and> c_pendings (w_chans (cv_client s) (ep_chan a)) = []
     \<and> live (ep_thread b) (ep_fd b) (ep_chan b) (cv_server s)
     \<and> c_pendings (w_chans (cv_server s) (ep_chan b)) = []
     \<and> cv_up s = [] \<and> cv_down s = [] \<and> cv_written s = []"

lemma conv_start_ok: "conv_start a b s \<Longrightarrow> conv_ok a b s"
  unfolding conv_ok_iff by (intro exI[of _ "[]"]) (simp add: conv_start_def conv_with_def write_tasks_def)

lemma conv_reach_ok: "conv_start a b s0 \<Longrightarrow> (conv_step a b)\<^sup>*\<^sup>* s0 s \<Longrightarrow> conv_ok a b s"
  using conv_steps_ok conv_start_ok by blast

text \<open>The calls of \<open>channel_read\<close> that a channel's handler saw.\<close>

definition pieces :: "cid \<Rightarrow> world \<Rightarrow> bytes list" where
  "pieces c w = List.map_filter (\<lambda>(c', cb). case cb of ChannelReadBytes b \<Rightarrow> if c' = c then Some b else None | _ \<Rightarrow> None)
     (w_events w)"

lemma pieces_got: "concat (pieces c w) = got c w"
proof -
  have "concat (List.map_filter (\<lambda>(c', cb). case cb of ChannelReadBytes b \<Rightarrow> if c' = c then Some b else None | _ \<Rightarrow> None) evs)
    = concat (map (\<lambda>(c', cb). case cb of ChannelReadBytes b \<Rightarrow> if c' = c then b else [] | _ \<Rightarrow> []) evs)" for evs
    by (induction evs) (auto simp: List.map_filter_simps split: callback.split)
  then show ?thesis by (simp add: pieces_def got_def)
qed

lemma burst_completes:
  fixes B :: env
  assumes "conv_start a b s0" "(conv_step a b)\<^sup>*\<^sup>* s0 s" "config_ok (e_cfg B)"
    and "8 \<le> n" "i < 2 ^ 32" "0 < m" "m \<le> 2 ^ 32"
    and "cv_written s = concat (map (frame_of (connected_client k i m n False)) [0..<m])"
  shows "\<exists>s' c1 c2. (conv_step a b)\<^sup>*\<^sup>* s s' \<and> cv_written s' = cv_written s
    \<and> start_client clock (connected_client k i m n False) = Some (Ret (), c1)
    \<and> concat (cl_written c1) = cv_written s
    \<and> feed_all clock (pieces (ep_chan a) (cv_client s')) c1 = (Ret (), c2)
    \<and> cl_completed c2 \<and> rs_errors (cl_run c2) = [] \<and> rs_received_messages (cl_run c2) = m
    \<and> rs_received_bytes (cl_run c2) = m * n"
proof -
  let ?c = "connected_client k i m n False"
  obtain s' where s': "(conv_step a b)\<^sup>*\<^sup>* s s'" "cv_written s' = cv_written s" "got (ep_chan a) (cv_client s') = cv_written s"
    using conversation_completes[OF conv_reach_ok[OF assms(1,2)] assms(3)] by blast
  obtain c1 c2 where c: "start_client clock ?c = Some (Ret (), c1)"
    "feed_all clock (pieces (ep_chan a) (cv_client s')) c1 = (Ret (), c2)" "progress ?c m m c2" "cl_buffer c2 = []"
    using echoed_client_completes[of ?c "pieces (ep_chan a) (cv_client s')" clock] assms(4-8) s'(3)
    by (auto simp: pieces_got)
  have "concat (cl_written c1) = cv_written s"
    using start_client_progress[of ?c clock] assms(4-8) c(1)
    by (auto simp: progress_def) (simp add: connected_client_def new_client_def)
  with s' c show ?thesis
    by (intro exI[of _ s'] exI[of _ c1] exI[of _ c2])
      (simp add: progress_def, simp add: connected_client_def new_client_def new_run_def)
qed

section \<open>A conversation\<close>

text \<open>Both ends are the connection of \<open>Demo\<close>; the client's writes come from thread 9.\<close>

definition demo_end :: endpoint where
  "demo_end = \<lparr>ep_thread = 1, ep_fd = 5, ep_chan = 0\<rparr>"

definition demo_talk :: conversation where
  "demo_talk = \<lparr>cv_client = demo_world, cv_up = [], cv_server = demo_world, cv_down = [], cv_written = []\<rparr>"

lemma demo_live: "live 1 5 0 demo_world"
  using demo_io_ok by (simp add: live_def dict_get_def eventfd_fileno_def) (simp add: eventfd_new_def pipe_eventfd_def base_eventfd_def)

lemma demo_talk_start: "conv_start demo_end demo_end demo_talk"
  by (simp add: conv_start_def demo_end_def demo_talk_def demo_live[simplified] got_def open_loop_def)

lemma demo_talk_writes:
  "\<exists>w. conv_step demo_end demo_end demo_talk (demo_talk\<lparr>cv_client := w, cv_written := buf\<rparr>)"
proof -
  have "\<not> in_eventloop 9 (cv_client demo_talk)" by (simp add: demo_talk_def)
  from conv_step.client_writes[OF this, of demo_base demo_end buf _ _ demo_end] show ?thesis
    by (metis append_Nil conversation.select_convs(5) demo_talk_def surj_pair)
qed

lemma demo_burst_written:
  "\<exists>s. (conv_step demo_end demo_end)\<^sup>*\<^sup>* demo_talk s \<and> cv_written s = buf"
proof -
  obtain w where "conv_step demo_end demo_end demo_talk (demo_talk\<lparr>cv_client := w, cv_written := buf\<rparr>)"
    using demo_talk_writes by blast
  then show ?thesis by (intro exI[of _ "demo_talk\<lparr>cv_client := w, cv_written := buf\<rparr>"]) (auto simp: demo_talk_def)
qed

lemma demo_config_ok: "config_ok (e_cfg demo_base)"
  by (simp add: demo_base_def config_ok_def config_of_env_def getenv_def Let_def push_bit_eq_mult)

section \<open>Loops to be stopped\<close>

text \<open>The connection as a listening socket, and a loop that was never started.\<close>

definition demo_listening :: world where
  "demo_listening = upd_chan 0 (\<lambda>ch. ch\<lparr>c_server := True\<rparr>) demo_world"

lemma demo_serving: "serving 1 demo_world" "serving 1 demo_listening" "unstarted (eventloop_init True 6 7)"
  by (simp_all add: serving_def known_def demo_listening_def in_eventloop_def) (simp_all add: unstarted_def eventloop_init_def)

lemma demo_listening_hyps:
  "listening 0 demo_listening" "w_taskq demo_listening = []" "w_channels demo_listening = [(5, 0)]"
  "in_eventloop t demo_listening \<longleftrightarrow> t = 1"
  by (auto simp: listening_def known_def demo_listening_def in_eventloop_def)

lemma demo_idle: "idle demo_env"
  unfolding demo_env_def by (rule idle_envs)

end
