(* ===== verification/Example.thy ===== *)
theory Example
  imports Outside Bootstrap
begin

text \<open>
  \<^verbatim>\<open>example.py\<close>: an HTTP client that sends one request and prints what comes back, and an echo server.
  \<open>str.encode\<close> and \<open>bytes.decode\<close> are those of UTF-8.
\<close>

section \<open>UTF-8\<close>

text \<open>Text as a list of code points; a surrogate has no encoding.\<close>

definition cont :: "nat \<Rightarrow> nat" where "cont n = 128 + n mod 64"

definition scalar :: "nat \<Rightarrow> bool" where
  "scalar n \<longleftrightarrow> n < 0xD800 \<or> 0xE000 \<le> n \<and> n < 0x110000"

definition encode_char :: "nat \<Rightarrow> nat list" where
  "encode_char n =
     (if n < 0x80 then [n]
      else if n < 0x800 then [0xC0 + n div 64, cont n]
      else if n < 0x10000 then [0xE0 + n div 4096, cont (n div 64), cont n]
      else [0xF0 + n div 262144, cont (n div 4096), cont (n div 64), cont n])"

definition byte :: "nat \<Rightarrow> 8 word" where "byte n = word_of_nat n"

definition encode_utf8 :: "nat list \<Rightarrow> exn + bytes" where
  "encode_utf8 s = (if \<forall>n \<in> set s. scalar n then Inr (map byte (concat (map encode_char s))) else Inl ValueError)"

text \<open>The first character of a byte string and the number of its bytes: a decoder accepts the shortest form
  only, and no surrogates.\<close>

definition is_cont :: "nat \<Rightarrow> bool" where "is_cont n \<longleftrightarrow> 128 \<le> n \<and> n < 192"

fun decode_char :: "nat list \<Rightarrow> (nat \<times> nat list) option" where
  "decode_char [] = None"
| "decode_char (a # r) =
     (if a < 0x80 then Some (a, r)
      else if 0xC2 \<le> a \<and> a < 0xE0 then
        (case r of b # r \<Rightarrow> if is_cont b then Some ((a - 0xC0) * 64 + b mod 64, r) else None | _ \<Rightarrow> None)
      else if 0xE0 \<le> a \<and> a < 0xF0 then
        (case r of b # c # r \<Rightarrow>
           let n = (a - 0xE0) * 4096 + b mod 64 * 64 + c mod 64 in
           if is_cont b \<and> is_cont c \<and> 0x800 \<le> n \<and> scalar n then Some (n, r) else None
         | _ \<Rightarrow> None)
      else if 0xF0 \<le> a \<and> a < 0xF5 then
        (case r of b # c # d # r \<Rightarrow>
           let n = (a - 0xF0) * 262144 + b mod 64 * 4096 + c mod 64 * 64 + d mod 64 in
           if is_cont b \<and> is_cont c \<and> is_cont d \<and> 0x10000 \<le> n \<and> scalar n then Some (n, r) else None
         | _ \<Rightarrow> None)
      else None)"

lemma decode_char_shorter: "decode_char xs = Some (n, r) \<Longrightarrow> length r < length xs"
  by (cases xs) (auto simp: Let_def split: if_splits list.splits)

function decode_nats :: "nat list \<Rightarrow> exn + nat list" where
  "decode_nats xs =
     (if xs = [] then Inr []
      else case decode_char xs of
          None \<Rightarrow> Inl ValueError
        | Some (n, r) \<Rightarrow> map_sum id ((#) n) (decode_nats r))"
  by pat_completeness auto
termination
  by (relation "measure length") (auto dest: decode_char_shorter)

declare decode_nats.simps [simp del]

definition decode_utf8 :: "bytes \<Rightarrow> exn + nat list" where
  "decode_utf8 bs = decode_nats (map unat bs)"

lemma decode_nats_Nil [simp]: "decode_nats [] = Inr []"
  by (simp add: decode_nats.simps)

lemma decode_char_more: "decode_char xs = Some (n, r) \<Longrightarrow> decode_char (xs @ ys) = Some (n, r @ ys)"
  by (cases xs) (auto simp: Let_def split: if_splits list.splits)

lemma decode_nats_append:
  "decode_nats xs = Inr s \<Longrightarrow> decode_nats (xs @ ys) = map_sum id ((@) s) (decode_nats ys)"
proof (induction xs arbitrary: s rule: decode_nats.induct)
  case (1 xs)
  show ?case
  proof (cases "xs = []")
    case True
    with 1 show ?thesis by (cases "decode_nats ys") auto
  next
    case False
    with 1(2) obtain n r s' where d: "decode_char xs = Some (n, r)" "decode_nats r = Inr s'" "s = n # s'"
      by (subst (asm) decode_nats.simps) (auto split: option.splits prod.splits sum.splits simp: map_sum_def)
    have "decode_nats (r @ ys) = map_sum id ((@) s') (decode_nats ys)"
      using 1(1)[OF False d(1) refl d(2)] .
    with False decode_char_more[OF d(1), of ys] d(3) show ?thesis
      by (subst decode_nats.simps) (cases "decode_nats ys"; simp)
  qed
qed

lemma cont_facts [simp]: "cont n mod 64 = n mod 64" "is_cont (cont n)"
  by (simp_all add: cont_def is_cont_def mod_add_left_eq[symmetric])

lemma char_parts:
  "(n :: nat) div 64 * 64 + n mod 64 = n"
  "(n :: nat) div 4096 * 4096 + n div 64 mod 64 * 64 + n mod 64 = n"
  "(n :: nat) div 262144 * 262144 + n div 4096 mod 64 * 4096 + n div 64 mod 64 * 64 + n mod 64 = n"
proof -
  have q: "m div 64 * 64 + m mod 64 = m" for m :: nat by simp
  have d: "n div 4096 = n div 64 div 64" "n div 262144 = n div 64 div 64 div 64" by (simp_all flip: div_mult2_eq)
  show "n div 64 * 64 + n mod 64 = n" by (rule q)
  show "n div 4096 * 4096 + n div 64 mod 64 * 64 + n mod 64 = n"
    using q[of n] q[of "n div 64"] unfolding d by linarith
  show "n div 262144 * 262144 + n div 4096 mod 64 * 4096 + n div 64 mod 64 * 64 + n mod 64 = n"
    using q[of n] q[of "n div 64"] q[of "n div 64 div 64"] unfolding d by linarith
qed

lemma decode_encode_char:
  assumes "scalar n"
  shows "decode_char (encode_char n @ r) = Some (n, r)"
proof -
  consider "n < 0x80" | "0x80 \<le> n" "n < 0x800" | "0x800 \<le> n" "n < 0x10000" | "0x10000 \<le> n" "n < 0x110000"
    using assms by (fastforce simp: scalar_def)
  then show ?thesis
  proof cases
    case 1
    then show ?thesis by (simp add: encode_char_def)
  next
    case 2
    then have "2 \<le> n div 64" "n div 64 < 32" by linarith+
    with 2 char_parts(1)[of n] show ?thesis by (simp add: encode_char_def)
  next
    case 3
    then have "n div 4096 < 16" by linarith
    with 3 char_parts(2)[of n] assms show ?thesis by (simp add: encode_char_def Let_def)
  next
    case 4
    then have "n div 262144 < 5" by linarith
    with 4 char_parts(3)[of n] assms show ?thesis by (simp add: encode_char_def Let_def)
  qed
qed

lemma encode_char_bytes: "scalar n \<Longrightarrow> b \<in> set (encode_char n) \<Longrightarrow> b < 256"
  by (auto simp: encode_char_def cont_def scalar_def split: if_splits)

lemma decode_encoded: "\<forall>n \<in> set s. scalar n \<Longrightarrow> decode_nats (concat (map encode_char s)) = Inr s"
proof (induction s)
  case (Cons n s)
  then have "decode_nats (encode_char n @ concat (map encode_char s)) = Inr (n # s)"
    by (subst decode_nats.simps) (auto simp: decode_encode_char, simp add: encode_char_def split: if_splits)
  then show ?case by simp
qed simp

text \<open>Text comes back from its bytes.\<close>

lemma utf8_roundtrip:
  assumes "encode_utf8 s = Inr bs"
  shows "decode_utf8 bs = Inr s"
proof -
  have s: "\<forall>n \<in> set s. scalar n" and bs: "bs = map byte (concat (map encode_char s))"
    using assms by (auto simp: encode_utf8_def split: if_splits)
  have "map unat bs = concat (map encode_char s)"
    unfolding bs using s encode_char_bytes by (fastforce simp: byte_def unat_of_nat intro!: map_idI mod_less)
  then show ?thesis by (simp add: decode_utf8_def decode_encoded[OF s])
qed

section \<open>What the client prints\<close>

text \<open>\<open>HttpHandler.channel_read\<close>: \<open>print\<close> ends the line.  An exception of the handler goes to
  \<open>exception_caught\<close>, which is \<open>pass\<close> here.\<close>

definition print_text :: "nat list \<Rightarrow> nat list list \<Rightarrow> nat list list" where
  "print_text t out = out @ [t @ [10]]"

definition http_channel_read :: "bytes \<Rightarrow> nat list list \<Rightarrow> unit outcome \<times> nat list list" where
  "http_channel_read buffer out =
     (case decode_utf8 buffer of
        Inl e \<Rightarrow> (Raise e, out)
      | Inr t \<Rightarrow> (Ret (), print_text t out))"

fun http_reads :: "bytes list \<Rightarrow> nat list list \<Rightarrow> nat list list" where
  "http_reads [] out = out"
| "http_reads (b # bs) out = http_reads bs (snd (handling (http_channel_read b out) (\<lambda>_ out. (Ret (), out))))"

text \<open>Pieces that are cut between characters are printed in order, one line each.\<close>

lemma http_reads_whole:
  "list_all2 (\<lambda>b t. decode_utf8 b = Inr t) bs ts \<Longrightarrow> http_reads bs out = out @ map (\<lambda>t. t @ [10]) ts"
  by (induction bs ts arbitrary: out rule: list_all2_induct) (simp_all add: http_channel_read_def print_text_def)

lemma pieces_decode:
  "list_all2 (\<lambda>b t. decode_utf8 b = Inr t) bs ts \<Longrightarrow> decode_utf8 (concat bs) = Inr (concat ts)"
proof (induction bs ts rule: list_all2_induct)
  case (Cons b bs t ts)
  then have "decode_nats (map unat b @ map unat (concat bs)) = map_sum id ((@) t) (Inr (concat ts))"
    by (subst decode_nats_append) (simp_all add: decode_utf8_def)
  then show ?case by (simp add: decode_utf8_def)
qed (simp add: decode_utf8_def)

text \<open>A character cut in two is lost, both its halves.\<close>

lemma cut_character_is_lost:
  "encode_utf8 [233] = Inr [0xC3, 0xA9]" "http_reads [[0xC3, 0xA9]] [] = [[233, 10]]"
  "http_reads [[0xC3], [0xA9]] [] = []"
  by (simp_all add: encode_utf8_def scalar_def encode_char_def cont_def byte_def http_channel_read_def decode_utf8_def
      decode_nats.simps is_cont_def print_text_def)

section \<open>The two programs\<close>

definition codes :: "string \<Rightarrow> nat list" where
  "codes s = map of_char s"

definition crlf :: string where "crlf = [char_of (13 :: nat), char_of (10 :: nat)]"

definition http_request :: "string \<Rightarrow> string" where
  "http_request remote_address = ''GET / HTTP/1.1'' @ crlf @ ''Host: '' @ remote_address @ crlf @ crlf"

text \<open>\<open>http_client\<close> in the main thread \<open>t\<close>: the channel of the future that \<open>connect\<close> returns is written to at once,
  connected or not.\<close>

definition http_client :: "env \<Rightarrow> tid \<Rightarrow> 'a net \<Rightarrow> 'a list \<Rightarrow> string \<Rightarrow> world \<Rightarrow> unit outcome \<times> world" where
  "http_client E t N resolved remote_address w =
     (let c = w_next_cid w in
      andThen (bootstrap_connect E t N False False resolved w) (\<lambda>_ w.
      case encode_utf8 (codes (http_request remote_address)) of
        Inl e \<Rightarrow> (Raise e, w)
      | Inr request \<Rightarrow> andThen (channel_write E t c request None w) (\<lambda>_ w. (Ret (), w))))"

definition run_example_server :: "env \<Rightarrow> tid \<Rightarrow> int \<Rightarrow> exn + fd \<Rightarrow> world \<Rightarrow> unit outcome \<times> world" where
  "run_example_server E t local_port server_socket w =
     andThen (server_bind E t None None local_port server_socket w) (\<lambda>_ w. (Ret (), w))"

record example_args =
  ea_as_server :: bool
  ea_local_port :: int
  ea_local_address :: string
  ea_as_client :: bool
  ea_remote_port :: int
  ea_remote_address :: string
  ea_verbose :: bool

definition default_example_args :: example_args where
  "default_example_args = \<lparr>ea_as_server = False, ea_local_port = 8080, ea_local_address = ''localhost'',
     ea_as_client = False, ea_remote_port = 80, ea_remote_address = ''www.google.com'', ea_verbose = False\<rparr>"

text \<open>\<open>main\<close>: a server wins over a client; \<open>bound\<close> and \<open>resolved\<close> are what the system answers for an address and
  a port.\<close>

definition example_main ::
    "env \<Rightarrow> tid \<Rightarrow> 'a net \<Rightarrow> (string \<Rightarrow> int \<Rightarrow> exn + fd) \<Rightarrow> (string \<Rightarrow> int \<Rightarrow> 'a list) \<Rightarrow> example_args \<Rightarrow> world
      \<Rightarrow> unit outcome \<times> world" where
  "example_main E t N bound resolved a w =
     (if ea_as_server a
      then run_example_server E t (ea_local_port a) (bound (ea_local_address a) (ea_local_port a)) w
      else if ea_as_client a
      then http_client E t N (resolved (ea_remote_address a) (ea_remote_port a)) (ea_remote_address a) w
      else (Ret (), w))"

lemma codes_scalar: "\<forall>n \<in> set (codes s). scalar n"
proof -
  have "of_char c < (256 :: nat)" for c :: char using of_char_mod_256[of c] by (metis mod_less_divisor zero_less_numeral)
  from less_trans[OF this, of "0xD800"] show ?thesis by (auto simp: codes_def scalar_def)
qed

text \<open>The client leaves two tasks for the loop, in this order: the registration of the new channel and the
  write of the request; the request is the text, encoded.\<close>

lemma http_client_submits:
  assumes "open_loop w" "\<not> in_eventloop t w" "0 < sock"
    and "fst (connect_loop N False False resolved None) = Inr sock"
  shows "\<exists>request w'. http_client E t N resolved addr w = (Ret (), w') \<and> decode_utf8 request = Inr (codes (http_request addr))
    \<and> w_taskq w' = w_taskq w @ [TRegister (w_next_cid w) False, TWrite (w_next_cid w) request (Suc (Suc (w_next_fid w)))]
    \<and> c_sockfd (w_chans w' (w_next_cid w)) = sock \<and> c_pendings (w_chans w' (w_next_cid w)) = []"
proof -
  obtain request where r: "encode_utf8 (codes (http_request addr)) = Inr request"
    using codes_scalar by (simp add: encode_utf8_def)
  define w1 where "w1 = snd (new_socket_channel sock False 3000 False w)"
  have w1: "new_socket_channel sock False 3000 False w = (Ret (w_next_cid w), w1)"
    using assms(3) by (simp add: w1_def new_socket_channel_eq Let_def)
  have f1: "w_started w1" "\<not> w_stop_polling w1" "\<not> w_closed w1" "\<not> in_eventloop t w1" "w_taskq w1 = w_taskq w"
    "w_next_fid w1 = Suc (Suc (w_next_fid w))" "c_sockfd (w_chans w1 (w_next_cid w)) = sock"
    "c_pendings (w_chans w1 (w_next_cid w)) = []"
    using assms(1-3)
    by (simp_all add: w1_def new_socket_channel_eq Let_def new_future_def open_loop_def in_eventloop_def base_channel_def)
  define w2 where "w2 = w1\<lparr>w_taskq := w_taskq w1 @ [TRegister (w_next_cid w) False],
     w_tasks_submitted := w_tasks_submitted w1 + 1, w_eventfd := snd (eventfd_unsafe_write (w_eventfd w1))\<rparr>"
  have reg: "bootstrap_connect E t N False False resolved w = (Ret (c_channel_future (w_chans w1 (w_next_cid w))), w2)"
    using f1(1-4) assms(4) by (simp add: bootstrap_connect_def w1 register_def submit_task_running w2_def Let_def)
  have f2: "open_loop w2" "\<not> in_eventloop t w2"
    using f1 by (simp_all add: w2_def open_loop_def in_eventloop_def)
  show ?thesis
    using f1(5-8)
    by (intro exI[of _ request] exI[of _ "snd (channel_write E t (w_next_cid w) request None w2)"])
      (simp add: http_client_def reg r utf8_roundtrip[OF r] outside_write[OF f2], simp add: w2_def new_future_def)
qed

end
