(* ===== verification/Describe.thy ===== *)
theory Describe
  imports Utils
begin

text \<open>
  How channels and the loop describe themselves in the log: \<open>ChannelInfo\<close> and \<open>__str__\<close> of
  \<^verbatim>\<open>py_netty/channel.py\<close> with the two caches they keep, \<open>LoggingChannelHandler\<close> of
  \<^verbatim>\<open>py_netty/handler.py\<close>, \<open>_events_to_str\<close> and \<open>_show_debug_info\<close> of \<^verbatim>\<open>py_netty/eventloop.py\<close>.
\<close>

section \<open>The description of a channel\<close>

text \<open>What a socket object answers: its identity, its descriptor, \<open>getsockname\<close> and \<open>getpeername\<close> (\<open>None\<close> when
  they raise, as on a closed or an unconnected socket), and \<open>str(sock)\<close>.\<close>

record sock_view =
  sv_id :: string
  sv_fileno :: nat
  sv_sockname :: "(string \<times> nat) option"
  sv_peername :: "(string \<times> nat) option"
  sv_str :: string

record channel_info =
  ci_id :: string
  ci_sockname :: "string \<times> nat"
  ci_peername :: "string \<times> nat"
  ci_fileno :: nat

definition channel_info_of :: "sock_view \<Rightarrow> channel_info option" where
  "channel_info_of s =
     (case (sv_sockname s, sv_peername s) of
        (Some sockname, Some peername) \<Rightarrow>
          Some \<lparr>ci_id = sv_id s, ci_sockname = sockname, ci_peername = peername, ci_fileno = sv_fileno s\<rparr>
      | _ \<Rightarrow> None)"

text \<open>The part of a channel that its description depends on; \<open>dc_active\<close> is \<open>is_active()\<close>.\<close>

record described =
  dc_sockinfo :: "string option"
  dc_channelinfo :: "channel_info option"
  dc_ever_active :: bool
  dc_active :: bool

definition replace_dash :: "char \<Rightarrow> string \<Rightarrow> string" where
  "replace_dash c s = map (\<lambda>x. if x = CHR ''-'' then c else x) s"

definition join_colon :: "string \<times> nat \<Rightarrow> string" where
  "join_colon a = fst a @ '':'' @ nat_str (snd a)"

definition render_info :: "channel_info \<Rightarrow> char \<Rightarrow> string" where
  "render_info ci sign =
     ''[id:'' @ ci_id ci @ '', fd:'' @ nat_str (ci_fileno ci) @ '', L:/'' @ join_colon (ci_sockname ci)
       @ '' '' @ [sign] @ '' R:/'' @ join_colon (ci_peername ci) @ '']''"

definition sign_of :: "described \<Rightarrow> char" where
  "sign_of d = (if \<not> dc_ever_active d then CHR ''?'' else if \<not> dc_active d then CHR ''!'' else CHR ''-'')"

text \<open>\<open>__str__\<close>, with the caches it fills; an empty string or \<open>None\<close> is not cached.\<close>

definition describe :: "sock_view \<Rightarrow> described \<Rightarrow> string \<times> described" where
  "describe s d =
     (let info = (case dc_sockinfo d of
            Some t \<Rightarrow> (if t \<noteq> [] then t else sockinfo (sv_id s) (sv_fileno s) (sv_sockname s) (sv_peername s) (sv_str s))
          | None \<Rightarrow> sockinfo (sv_id s) (sv_fileno s) (sv_sockname s) (sv_peername s) (sv_str s));
          d = d\<lparr>dc_sockinfo := Some info\<rparr>;
          d = (case dc_channelinfo d of Some ci \<Rightarrow> d | None \<Rightarrow> d\<lparr>dc_channelinfo := channel_info_of s\<rparr>) in
      case dc_channelinfo d of
        Some ci \<Rightarrow> (render_info ci (sign_of d), d)
      | None \<Rightarrow>
          (if \<not> dc_ever_active d then replace_dash (CHR ''?'') info
           else if \<not> dc_active d then replace_dash (CHR ''!'') info
           else info, d))"

definition refresh_sock_info :: "sock_view \<Rightarrow> described \<Rightarrow> string \<times> described" where
  "refresh_sock_info s d = describe s (d\<lparr>dc_sockinfo := None, dc_channelinfo := None\<rparr>)"

definition channelinfo :: "sock_view \<Rightarrow> described \<Rightarrow> channel_info option \<times> described" where
  "channelinfo s d =
     (let d = (if dc_channelinfo d = None then snd (describe s d) else d) in (dc_channelinfo d, d))"

text \<open>The moments at which a channel's description can change: its state changes, somebody describes it
  or asks for its \<open>channelinfo\<close>, each with the socket as it is then.\<close>

datatype describe_op = Describe sock_view | GetInfo sock_view | SetState bool bool

fun describe_step :: "describe_op \<Rightarrow> described \<Rightarrow> described" where
  "describe_step (Describe s) d = snd (describe s d)"
| "describe_step (GetInfo s) d = snd (channelinfo s d)"
| "describe_step (SetState ever active) d = d\<lparr>dc_ever_active := ever, dc_active := active\<rparr>"

lemma describe_keeps: "dc_channelinfo d = Some ci \<Longrightarrow> dc_channelinfo (snd (describe s d)) = Some ci"
  by (simp add: describe_def Let_def)

lemma describe_state: "dc_ever_active (snd (describe s d)) = dc_ever_active d \<and> dc_active (snd (describe s d)) = dc_active d"
  by (simp add: describe_def Let_def split: option.split)

lemma describe_known: "dc_channelinfo d = Some ci \<Longrightarrow> fst (describe s d) = render_info ci (sign_of d)"
  by (simp add: describe_def Let_def sign_of_def)

lemma describe_fresh:
  "dc_channelinfo d = None \<Longrightarrow> dc_channelinfo (snd (describe s d)) = channel_info_of s"
  by (simp add: describe_def Let_def split: option.split)

text \<open>Once a connected channel has been described, it keeps the addresses, identity and descriptor of that
  moment whatever becomes of the socket; only the sign changes with its state.\<close>

lemma description_remembers:
  assumes "channel_info_of s = Some ci"
    and "d' = fold describe_step ops (snd (refresh_sock_info s d))"
  shows "fst (describe s' d') = render_info ci (sign_of d') \<and> fst (channelinfo s' d') = Some ci"
proof -
  have "dc_channelinfo (fold describe_step ops e) = Some ci" if "dc_channelinfo e = Some ci" for e
    using that
  proof (induction ops arbitrary: e)
    case (Cons p ops)
    then have "dc_channelinfo (describe_step p e) = Some ci"
      by (cases p) (simp_all add: describe_keeps channelinfo_def)
    with Cons.IH show ?case by simp
  qed simp
  moreover have "dc_channelinfo (snd (refresh_sock_info s d)) = Some ci"
    using assms(1) by (simp add: refresh_sock_info_def describe_fresh)
  ultimately have "dc_channelinfo d' = Some ci" using assms(2) by simp
  then show ?thesis by (simp add: describe_known channelinfo_def)
qed

text \<open>Without addresses the sign replaces every dash, the one of the descriptor -1 of a closed socket too.\<close>

lemma closed_description:
  "fst (describe \<lparr>sv_id = ''0x1'', sv_fileno = 0, sv_sockname = None, sv_peername = None,
       sv_str = ''<socket.socket [closed] fd=-1>''\<rparr>
     \<lparr>dc_sockinfo = None, dc_channelinfo = None, dc_ever_active = False, dc_active = False\<rparr>)
   = ''<socket.socket [closed] fd=?1>''"
  by (simp add: describe_def Let_def channel_info_of_def sockinfo_def replace_dash_def)

section \<open>The logging handler\<close>

text \<open>\<open>LoggingChannelHandler\<close>, the handler of a channel made without one.  \<open>logging\<close> formats a record only when
  the logger takes its level, so the channel is described then and only then; \<open>level\<close> is the logger's, \<open>str_of\<close>
  the text of an exception.  A record is its level and its text, without the traceback of \<open>exc_info\<close>.\<close>

definition DEBUG :: int where "DEBUG = 10"
definition ERROR :: int where "ERROR = 40"

fun log_record :: "callback \<Rightarrow> int \<times> string" where
  "log_record ChannelActive = (DEBUG, ''[Channel Active] '')"
| "log_record (ChannelReadBytes _) = (DEBUG, ''[Channel Read] '')"
| "log_record (ChannelReadSocket _) = (DEBUG, ''[Channel Read] '')"
| "log_record ChannelInactive = (DEBUG, ''[Channel Inactive] '')"
| "log_record ChannelRegistered = (DEBUG, ''[Channel Registered] '')"
| "log_record ChannelUnregistered = (DEBUG, ''[Channel Unregistered] '')"
| "log_record ChannelHandshakeComplete = (DEBUG, ''[Channel Handshake Complete] '')"
| "log_record ChannelWritabilityChanged = (DEBUG, ''[Channel Writability Changed] '')"
| "log_record (ExceptionCaught _) = (ERROR, ''[Exception Caught] '')"

definition logging_handler ::
    "int \<Rightarrow> (exn \<Rightarrow> string) \<Rightarrow> sock_view \<Rightarrow> callback \<Rightarrow> described \<Rightarrow> (int \<times> string) list \<times> described" where
  "logging_handler level str_of s cb d =
     (let (lvl, tag) = log_record cb in
      if level \<le> lvl
      then let (text, d') = describe s d in
        ([(lvl, log_process ''py-netty'' (tag @ text @ (case cb of ExceptionCaught e \<Rightarrow> '' : '' @ str_of e | _ \<Rightarrow> [])))], d')
      else ([], d))"

text \<open>All it changes of a channel are the caches of its description, as any description does.\<close>

lemma logging_handler_describes:
  "snd (logging_handler level str_of s cb d) =
     (if level \<le> fst (log_record cb) then describe_step (Describe s) d else d)"
  by (simp add: logging_handler_def split: prod.split)

section \<open>The loop\<close>

text \<open>Events named for the log.  \<open>oid\<close> is \<open>hex(id(...))\<close> of the descriptor object and of a channel's socket.\<close>

definition int_text :: "int \<Rightarrow> string" where
  "int_text i = (if i < 0 then ''-'' else []) @ nat_str (nat \<bar>i\<bar>)"

definition event_name :: "string \<Rightarrow> (cid \<Rightarrow> string) \<Rightarrow> world \<Rightarrow> fd \<Rightarrow> string" where
  "event_name eventfd_id oid w fileno =
     (if fileno = eventfd_fileno (w_eventfd w) then ''EventFD('' @ eventfd_id @ '')''
      else case dict_get (w_channels w) fileno of
          None \<Rightarrow> ''unknown('' @ int_text fileno @ '')''
        | Some c \<Rightarrow> (if c_server (w_chans w c) then ''server'' else ''client'')
            @ ''('' @ int_text fileno @ ''/'' @ oid c @ '')'')"

fun join_comma_space :: "string list \<Rightarrow> string" where
  "join_comma_space [] = []"
| "join_comma_space [s] = s"
| "join_comma_space (s # ss) = s @ '', '' @ join_comma_space ss"

definition events_to_str :: "string \<Rightarrow> (cid \<Rightarrow> string) \<Rightarrow> world \<Rightarrow> (fd \<times> int) list \<Rightarrow> string" where
  "events_to_str eventfd_id oid w events =
     join_comma_space (map (\<lambda>(fileno, flag). event_name eventfd_id oid w fileno @ '':'' @ flag_to_str flag) events)"

text \<open>The pending data of the channels, as \<open>_show_debug_info\<close> counts it.\<close>

definition pending_counts :: "world \<Rightarrow> (cid \<times> nat \<times> nat) list" where
  "pending_counts w =
     map (\<lambda>c. (c, length (c_pendings (w_chans w c)), sum_list (map (\<lambda>k. length (ck_buffer k)) (c_pendings (w_chans w c)))))
       (filter (\<lambda>c. \<not> c_server (w_chans w c) \<and> c_pendings (w_chans w c) \<noteq> []) (map snd (w_channels w)))"

text \<open>\<open>str.center\<close>: the odd fill character goes to the left when the width is odd, to the right otherwise.\<close>

definition center :: "nat \<Rightarrow> char \<Rightarrow> string \<Rightarrow> string" where
  "center n c s =
     (let pad = n - length s; left = pad div 2 + (if odd pad \<and> odd n then 1 else 0) in
      replicate left c @ s @ replicate (pad - left) c)"

text \<open>The lines of \<open>_show_debug_info\<close>.  \<open>writes\<close> is \<open>_eventfd_write_count\<close>, \<open>hooks\<close> the text of the selector's
  table, \<open>text c\<close> that of a channel.\<close>

definition show_debug_info :: "int \<Rightarrow> string \<Rightarrow> (cid \<Rightarrow> string) \<Rightarrow> (cid \<Rightarrow> string) \<Rightarrow> nat \<Rightarrow> world \<Rightarrow> string list" where
  "show_debug_info writes hooks oid text n w =
     [center n CHR ''='' '' counters '',
      ''eventfd writes:        '' @ int_text writes,
      ''eventfd reads:         '' @ int_text (w_eventfd_reads w),
      ''pending tasks:         '' @ nat_str (length (w_taskq w)),
      ''total sent bytes:      '' @ int_text (w_sent w),
      ''total received:        '' @ int_text (w_received w),
      ''total registered:      '' @ int_text (w_registered w),
      ''total accepted:        '' @ int_text (w_accepted w),
      ''total tasks submitted: '' @ int_text (w_tasks_submitted w),
      ''total tasks processed: '' @ int_text (w_tasks_processed w),
      ''pending connections:   '' @ nat_str (length (w_due w)),
      ''active connections:    '' @ nat_str (length (w_channels w) - length (w_due w)),
      ''current hooked:        '' @ nat_str (length (w_selector w)),
      ''hooks:                 '' @ hooks,
      center n CHR ''='' '' channels '']
     @ map (\<lambda>(fileno, c). text c) (w_channels w)
     @ [center n CHR ''='' '' pendings '']
     @ map (\<lambda>(c, chunk_count, bytes_count). oid c @ '': '' @ nat_str chunk_count @ '' chunks, ''
         @ nat_str bytes_count @ '' bytes in total'') (pending_counts w)"

lemma center_length: "length (center n c s) = max n (length s)"
proof -
  have "m div 2 + (if odd m \<and> odd n then 1 else 0) \<le> m" for m :: nat by presburger
  from this[of "n - length s"] show ?thesis by (simp add: center_def Let_def)
qed

lemma pending_counts_positive:
  "(c, k, b) \<in> set (pending_counts w) \<Longrightarrow> 0 < k \<and> k = length (c_pendings (w_chans w c))"
  by (auto simp: pending_counts_def)

end
