(* ===== verification/Command.thy ===== *)
theory Command
  imports EchoServers Shutdown Cases Describe
begin

text \<open>
  The commands around the echo servers: \<open>run_echo_server\<close> of \<^verbatim>\<open>bm_echo_server.py\<close>, whose handlers share the
  dictionary of clients with the thread that prints it, and from \<^verbatim>\<open>perf_echo.py\<close> what the command line gives
  away before it is parsed, the choice of a server, and the life of the threaded one.
\<close>

section \<open>Many connections, one dictionary\<close>

text \<open>What the handlers of the connections and the printing thread do to the dictionary, one operation each; the
  exception of a removal that finds nothing ends its own thread only.\<close>

datatype 'a client_op =
    Opened int 'a
  | Read int 'a nat
  | Closed 'a
  | Checked int

fun run_client_op :: "'a client_op \<Rightarrow> ('a, client) dict \<Rightarrow> ('a, client) dict" where
  "run_client_op (Opened now a) d = monitor_active now a d"
| "run_client_op (Read now a n) d = monitor_read now a n d"
| "run_client_op (Closed a) d = (case monitor_inactive a d of Inl e \<Rightarrow> d | Inr d' \<Rightarrow> d')"
| "run_client_op (Checked now) d = map (\<lambda>(a, c). (a, client_check now c)) d"

fun concerns :: "'a \<Rightarrow> 'a client_op \<Rightarrow> bool" where
  "concerns a (Opened now b) \<longleftrightarrow> b = a"
| "concerns a (Read now b n) \<longleftrightarrow> b = a"
| "concerns a (Closed b) \<longleftrightarrow> b = a"
| "concerns a (Checked now) \<longleftrightarrow> True"

text \<open>The same for one client alone.\<close>

fun own_op :: "'a client_op \<Rightarrow> client option \<Rightarrow> client option" where
  "own_op (Opened now a) c = Some (case c of Some x \<Rightarrow> x | None \<Rightarrow> new_monitored now)"
| "own_op (Read now a n) c = Some (client_read now n (case c of Some x \<Rightarrow> x | None \<Rightarrow> new_monitored now))"
| "own_op (Closed a) c = None"
| "own_op (Checked now) c = map_option (client_check now) c"

lemma dict_get_map: "dict_get (map (\<lambda>(a, c). (a, f c)) d) a = map_option f (dict_get d a)"
  by (induction d) (auto simp: dict_get_def)

lemma client_op_get:
  "dict_get (run_client_op x d) a = (if concerns a x then own_op x (dict_get d a) else dict_get d a)"
proof (cases x)
  case (Opened now b)
  then show ?thesis by (simp add: monitor_active_def clients_get_def split: option.split)
next
  case (Read now b n)
  then show ?thesis by (auto simp: monitor_read_def clients_get_def split: option.split)
next
  case (Closed b)
  then show ?thesis by (auto simp: monitor_inactive_def dict.keys_get)
qed (simp add: dict_get_map)

lemma client_ops_get:
  "dict_get (fold run_client_op xs d) a = fold own_op (filter (concerns a) xs) (dict_get d a)"
  by (induction xs arbitrary: d) (simp_all add: client_op_get)

text \<open>The sum of what a connection read.\<close>

fun bytes_read :: "'a client_op list \<Rightarrow> nat" where
  "bytes_read [] = 0"
| "bytes_read (Read now a n # xs) = n + bytes_read xs"
| "bytes_read (_ # xs) = bytes_read xs"

lemma own_total:
  assumes "\<forall>x \<in> set xs. \<forall>b. x \<noteq> Closed b"
  shows "\<exists>c'. fold own_op xs (Some c) = Some c' \<and> m_total_read_bytes c' = m_total_read_bytes c + bytes_read xs"
  using assms
proof (induction xs arbitrary: c)
  case (Cons x xs)
  obtain c1 where c1: "own_op x (Some c) = Some c1" "m_total_read_bytes c1 + bytes_read xs = m_total_read_bytes c + bytes_read (x # xs)"
    using Cons.prems by (cases x) (auto simp: client_read_def client_check_def Let_def)
  then show ?case using Cons.IH[of c1] Cons.prems by auto
qed simp

lemma opened_total:
  assumes "dict_get d a = None" "Closed a \<notin> set xs"
  shows "\<exists>c. dict_get (fold run_client_op (Opened now a # xs) d) a = Some c
    \<and> m_total_read_bytes c = bytes_read (filter (concerns a) xs)"
proof -
  have "\<forall>x \<in> set (filter (concerns a) xs). \<forall>b. x \<noteq> Closed b" using assms(2) by auto
  from own_total[OF this, of "new_monitored now"] obtain c where
    "fold own_op (filter (concerns a) xs) (Some (new_monitored now)) = Some c"
    "m_total_read_bytes c = m_total_read_bytes (new_monitored now) + bytes_read (filter (concerns a) xs)" by blast
  then show ?thesis using assms(1) by (subst client_ops_get) (simp add: new_monitored_def)
qed

section \<open>The echo server command\<close>

datatype served = AsyncioServer int | NioServer int | ThreadedServer int
datatype 'a daemon = ClientsCheck | Handle 'a

definition submit_daemon_thread :: "'a daemon \<Rightarrow> 'a daemon list \<Rightarrow> 'a daemon list" where
  "submit_daemon_thread t threads = threads @ [t]"

text \<open>What is printed, the daemon threads started, and the server that runs from then on, if any.\<close>

definition run_echo_server :: "int \<Rightarrow> bool \<Rightarrow> bool \<Rightarrow> string list \<times> 'a daemon list \<times> served option" where
  "run_echo_server port nio using_asyncio =
     (if nio \<and> using_asyncio then ([''--nio and --asyncio cannot be used together''], [], None)
      else
        let threads = submit_daemon_thread ClientsCheck [];
            banner = '' server started listening: (0.0.0.0:'' @ int_text port @ '') ...'' in
        if using_asyncio then ([''Async proxy'' @ banner], threads, Some (AsyncioServer port))
        else if nio then ([''NIO proxy'' @ banner], threads, Some (NioServer port))
        else ([''Proxy'' @ banner], threads, Some (ThreadedServer port)))"

text \<open>The server on this library binds in the main thread \<open>t\<close>, which then waits for its channel to close; \<open>serve\<close>
  is what the loop's thread makes of the world meanwhile.\<close>

definition nio_server :: "env \<Rightarrow> tid \<Rightarrow> (world \<Rightarrow> world) \<Rightarrow> int \<Rightarrow> exn + fd \<Rightarrow> world \<Rightarrow> unit outcome \<times> world" where
  "nio_server E t serve port server_socket w =
     andThen (server_bind E t None None port server_socket w) (\<lambda>_ w'.
       future_sync (c_close_future (w_chans w' (w_next_cid w))) (serve w'))"

text \<open>The accepting loop of the server on blocking sockets: \<open>None\<close> while it waits; an error of \<open>accept\<close> ends the
  command.\<close>

fun accept_clients :: "(exn + 'a) list \<Rightarrow> 'a daemon list \<Rightarrow> unit outcome option \<times> 'a daemon list" where
  "accept_clients [] threads = (None, threads)"
| "accept_clients (Inl e # accepts) threads = (Some (Raise e), threads)"
| "accept_clients (Inr address # accepts) threads =
     accept_clients accepts (submit_daemon_thread (Handle address) threads)"

text \<open>\<open>_handle_client\<close> of the asyncio server: the same statements with \<open>read\<close>, and \<open>write\<close> and \<open>drain\<close>.\<close>

definition asyncio_handle_client ::
    "(nat \<Rightarrow> int) \<Rightarrow> int \<Rightarrow> 'a \<Rightarrow> (nat \<Rightarrow> (nat \<times> exn) option) \<Rightarrow> (exn + bytes) list \<Rightarrow> ('a, client) dict
      \<Rightarrow> unit outcome option \<times> bytes \<times> ('a, client) dict" where
  "asyncio_handle_client clock now address drains reads d = handle_connection clock now address drains reads d"

definition my_exception_caught :: "string \<Rightarrow> string \<Rightarrow> string" where
  "my_exception_caught channel_text exception_text =
     ''[Exception Caught] '' @ channel_text @ '' : '' @ exception_text"

lemma accept_clients_all:
  "snd (accept_clients (map Inr addrs) threads) = threads @ map Handle addrs"
  by (induction addrs arbitrary: threads) (simp_all add: submit_daemon_thread_def)

lemma run_echo_server_cases:
  "(snd (snd (run_echo_server port nio aio)) = None \<longleftrightarrow> nio \<and> aio)
    \<and> (fst (snd (run_echo_server port nio aio)) = [ClientsCheck] \<longleftrightarrow> \<not> (nio \<and> aio))"
  by (simp add: run_echo_server_def submit_daemon_thread_def Let_def)

section \<open>The benchmark's servers\<close>

definition LOCAL_ECHO_HOST :: string where "LOCAL_ECHO_HOST = ''127.0.0.1''"

record echo_target =
  et_host :: string
  et_port :: int

text \<open>\<open>_choose_free_port\<close>: the port of the name of a socket bound to port 0, or what binding it raised.\<close>

definition choose_free_port :: "exn + string \<times> int \<Rightarrow> exn + int" where
  "choose_free_port sockname = map_sum id snd sockname"

text \<open>Who echoes for a case: the server that was named, or one of its own on a free port.\<close>

definition case_server :: "string option \<Rightarrow> int option \<Rightarrow> echo_target + string \<times> int" where
  "case_server host port =
     (case (host, port) of
        (Some h, Some p) \<Rightarrow> Inl \<lparr>et_host = h, et_port = p\<rparr>
      | _ \<Rightarrow> Inr (LOCAL_ECHO_HOST, 0))"

text \<open>\<open>_ThreadedEchoServer\<close>: the threads are named by their clients.\<close>

record 'c threaded_server =
  ts_host :: string
  ts_port :: int
  ts_stop_event :: bool
  ts_sock_open :: bool
  ts_threads :: "'c list"
  ts_accepting :: bool

definition threaded_server_init ::
    "string \<Rightarrow> int \<Rightarrow> exn + string \<times> int \<Rightarrow> (string \<Rightarrow> int \<Rightarrow> exn option) \<Rightarrow> exn + 'c threaded_server" where
  "threaded_server_init host port sockname bind =
     (case (if port \<noteq> 0 then Inr port else choose_free_port sockname) of
        Inl e \<Rightarrow> Inl e
      | Inr port \<Rightarrow>
          (case bind host port of
             Some e \<Rightarrow> Inl e
           | None \<Rightarrow> Inr \<lparr>ts_host = host, ts_port = port, ts_stop_event = False, ts_sock_open = True,
               ts_threads = [], ts_accepting = False\<rparr>))"

definition threaded_server_enter :: "'c threaded_server \<Rightarrow> 'c threaded_server" where
  "threaded_server_enter s = s\<lparr>ts_accepting := True\<rparr>"

text \<open>The seconds that \<open>__exit__\<close> waits at most are its second component.\<close>

definition threaded_server_exit :: "'c threaded_server \<Rightarrow> 'c threaded_server \<times> nat" where
  "threaded_server_exit s = (s\<lparr>ts_stop_event := True, ts_sock_open := False\<rparr>, 1 + length (ts_threads s))"

text \<open>After it the accepting loop takes nobody more.\<close>

lemma accepting_stops:
  "(\<And>j. k \<le> j \<Longrightarrow> stopped j) \<Longrightarrow> server_accept_loop stopped k accepts threads = threads"
  by (cases accepts) auto

lemma accepting_keeps:
  "\<exists>more. server_accept_loop stopped k accepts threads = threads @ more
    \<and> set more \<subseteq> {c. Inr (Some c) \<in> set accepts}"
proof (induction stopped k accepts threads rule: server_accept_loop.induct)
  case (2 stopped k r accepts threads)
  show ?case
  proof (cases "stopped k \<or> (\<exists>e. r = Inl e)")
    case False
    then obtain o' where "r = Inr o'" "\<not> stopped k" by (cases r) auto
    with 2 show ?thesis by (cases o') (fastforce)+
  qed auto
qed simp

section \<open>The command line\<close>

text \<open>What \<open>_parse_args\<close> looks for before parsing: \<open>argv\<close> without the program's name.\<close>

definition host_provided :: "string list \<Rightarrow> bool" where
  "host_provided argv \<longleftrightarrow> (\<exists>arg \<in> set argv. arg = ''--host'' \<or> take 7 arg = ''--host='')"

text \<open>\<open>parsed\<close> is what \<open>argparse\<close> made of the arguments, or why it refused them.\<close>

definition parse_args :: "string list \<Rightarrow> string + args \<Rightarrow> string + args" where
  "parse_args argv parsed = (case parsed of Inl e \<Rightarrow> Inl e | Inr a \<Rightarrow> check_args (host_provided argv) a)"

text \<open>What \<open>argparse\<close> makes of an empty command line.\<close>

definition default_args :: args where
  "default_args = \<lparr>ar_case = ''all'', ar_engine = ''py-netty'', ar_host = LOCAL_ECHO_HOST, ar_port = None, ar_timeout = 15,
     ar_connections = None, ar_messages = None, ar_payload_size = None, ar_sequential = None,
     ar_client_eventloops = None, ar_json = False\<rparr>"

text \<open>With it every case runs on this library against a server of its own, and nothing of a case is overridden.\<close>

lemma default_args_run:
  "parse_args [] (Inr default_args) = Inr default_args" "selected_engines default_args = [''py-netty'']"
  "case_server (Some (ar_host default_args)) (ar_port default_args) = Inr (LOCAL_ECHO_HOST, 0)"
  by (simp_all add: parse_args_def host_provided_def check_args_def CASE_GROUPS_def ENGINES_def default_args_def
      selected_engines_def case_server_def)

lemma default_args_change_nothing: "apply_overrides spec default_args = spec"
  by (simp add: apply_overrides_def default_args_def int_or_def)

text \<open>\<open>argparse\<close> accepts \<open>--hos\<close> for \<open>--host\<close>; the test does not see it, and a server of its own is measured.\<close>

lemma abbreviated_host_is_missed:
  assumes "ar_case a = ''all''" "ar_engine a = ''all''" "ar_host a = ''example.org''" "ar_port a = None"
    "ar_client_eventloops a = None"
  shows "\<exists>e. parse_args [''--host=example.org''] (Inr a) = Inl e"
    and "parse_args [''--hos=example.org''] (Inr a) = Inr a"
    and "case_server (Some (ar_host a)) (ar_port a) = Inr (LOCAL_ECHO_HOST, 0)"
  using assms by (simp_all add: parse_args_def host_provided_def check_args_def CASE_GROUPS_def case_server_def)

end
