(* ===== verification/Spec2Isabelle.thy ===== *)
theory Spec2Isabelle
  imports Graceful Wakeup Findings Samples Delivery Example Command
begin

text \<open>
  A verification of py-netty, a network library in the style of Netty: an event loop per thread
  polls non-blocking sockets, calls the handlers of its channels, and runs the tasks that other
  threads submit.

  \<^bold>\<open>The program's parts.\<close>  A channel (\<^verbatim>\<open>channel.py\<close>) owns a socket, a queue of chunks not yet sent,
  interest flags and two futures (connected, closed).  An event loop (\<^verbatim>\<open>eventloop.py\<close>) owns a selector,
  the tables of channels and connect timeouts by descriptor, a task queue, and an event descriptor
  (\<^verbatim>\<open>eventfd.py\<close>) by which other threads wake it.  Every method that touches a channel runs in the loop's
  thread; from elsewhere it submits itself as a task.  The loop calls the channel, the channel its
  handler and the done-callbacks of futures, and these call the library back, to any depth.  The
  bootstraps (\<^verbatim>\<open>bootstrap.py\<close>) make the sockets and register the channels.

  \<^bold>\<open>Theories and code.\<close>
  \<^item> \<^verbatim>\<open>Prelude\<close>: Python values, outcomes (\<open>Ret\<close>, \<open>Raise\<close>, \<open>Diverge\<close>), sequencing and \<open>try\<close>, and
    dictionaries as a locale with its interpretation.
  \<^item> \<^verbatim>\<open>SocketIO\<close>: the loops of \<^verbatim>\<open>channel.py\<close> over system calls (\<open>try_send\<close>, \<open>recvall\<close>, \<open>acceptall\<close>,
    \<open>adaptive_bufsize\<close>) and its constants.  \<^verbatim>\<open>Eventfd\<close>: \<^verbatim>\<open>eventfd.py\<close>, with the contract of a wake-up
    descriptor as the locale \<open>wakeup\<close>.
  \<^item> \<^verbatim>\<open>World\<close>: the state (a loop, its channels, the futures), the environment, futures and the selector.
    \<^verbatim>\<open>LoopCore\<close>, \<^verbatim>\<open>Channel\<close>, \<^verbatim>\<open>EventLoop\<close>: the methods of the classes of those names, in the order of
    their calls, with the names of the source.  \<^verbatim>\<open>Handlers\<close>: \<^verbatim>\<open>handler.py\<close> and scripted applications.
    \<^verbatim>\<open>Bootstrap\<close>: \<^verbatim>\<open>bootstrap.py\<close> and \<open>EventLoopGroup\<close>.  \<^verbatim>\<open>Utils\<close>: \<^verbatim>\<open>utils.py\<close>.
  \<^item> \<^verbatim>\<open>Steps\<close>, \<^verbatim>\<open>Application\<close>: the primitive changes of the state as a step relation, and the locale
    \<open>application\<close> (whatever handlers, callbacks and tasks do, they do by such steps), inside which
    every operation is shown to be a sequence of steps.  \<^verbatim>\<open>Evolution\<close>: the invariants of steps.
  \<^item> \<^verbatim>\<open>Sending\<close>, \<^verbatim>\<open>Writing\<close>, \<^verbatim>\<open>Echo\<close>: a pass over the pending chunks against the abstract queue of bytes,
    writes, and the echo handler.  \<^verbatim>\<open>Closing\<close>, \<^verbatim>\<open>Graceful\<close>: closing a channel.  \<^verbatim>\<open>Timeouts\<close>,
    \<^verbatim>\<open>Interest\<close>, \<^verbatim>\<open>Backpressure\<close>, \<^verbatim>\<open>Activation\<close>, \<^verbatim>\<open>Tasks\<close>: connect timeouts, registration and interest
    flags, writability, connecting and TLS handshakes, the task queue.
  \<^item> \<^verbatim>\<open>Wakeup\<close>: submitting and stopping threads interleaved with the loop, one access to shared state
    per step.  \<^verbatim>\<open>Outside\<close>: the writes of other threads, from the queue to the channel.
  \<^item> \<^verbatim>\<open>Serving\<close>: a server whose child group has loops of its own.  \<^verbatim>\<open>Tls\<close>: the cached SSL contexts of the
    bootstraps.  \<^verbatim>\<open>Describe\<close>: how channels and loops describe themselves in the log.
  \<^item> \<^verbatim>\<open>Frames\<close>: the client of \<^verbatim>\<open>integration_tests/perf_echo.py\<close>.  \<^verbatim>\<open>Engines\<close>: its blocking and asyncio
    rivals.  \<^verbatim>\<open>Report\<close>: its statistics.  \<^verbatim>\<open>Cases\<close>: its cases, results and \<open>main\<close>.  \<^verbatim>\<open>Verdicts\<close>: what a
    result tells.  \<^verbatim>\<open>Monitor\<close>, \<^verbatim>\<open>EchoServers\<close>: \<^verbatim>\<open>bm_echo_server.py\<close>.  \<^verbatim>\<open>Command\<close>: its command, with the handlers'
    operations on the shared dictionary in any order, and the set-up of the benchmark's servers.
  \<^item> \<^verbatim>\<open>Conversation\<close>: a client's channel and an echo server's, each a world of its own, with the bytes under way
    between them; \<open>conv_step\<close> is one write, one run of the task queue or one event of either loop.
    \<^verbatim>\<open>Delivery\<close>: the benchmark's client over it.  \<^verbatim>\<open>Shutdown\<close>: loops that were asked to stop, and the
    benchmark's own server on the library.  \<^verbatim>\<open>Example\<close>: \<^verbatim>\<open>example.py\<close> and UTF-8.
  \<^item> \<^verbatim>\<open>Demo\<close>, \<^verbatim>\<open>Samples\<close>, \<^verbatim>\<open>Findings\<close>: concrete worlds; behaviour of the code that surprises, evaluated.

  \<^bold>\<open>The state.\<close>  \<open>world\<close> is one event loop with all channels and futures.  Channels, futures and
  done-callbacks are named by numbers, so that what the code compares by identity is compared by
  name.  \<open>c_wire\<close> records the bytes the kernel has taken and \<open>w_events\<close> the callbacks fired; the code
  has neither.  The list object in \<open>_pendings\<close> is shared with local variables: \<open>c_pgen\<close> names the
  object, \<open>c_frozen\<close> keeps the ones replaced, and \<open>chunks_var\<close> is a variable that holds the shared
  object or a slice of its own.  A chunk in \<open>_pendings\<close> is cut only at the end of a pass.

  \<^bold>\<open>The environment.\<close>  System calls and standard library are the record \<open>kernel\<close>, answering the
  call with a given number; sockets answer \<open>send\<close> with at least a byte and at most what they were
  given (\<open>send_ok\<close>), where a property needs it.  Handlers, done-callbacks and tasks are functions on
  the world that return, raise or diverge.  Properties hold for all of them
  (\<open>application\<close>), for callbacks that leave the library alone (\<open>passive_listeners\<close>), for
  handlers that do return (\<open>responsive\<close>), or for handlers that leave the library alone (\<open>quiet\<close>), as each
  says.  The locale is interpreted on the handlers of the library, on the server's initializer and on
  scripts of library calls nested to any fixed depth (\<open>scripted_env\<close>).

  \<^bold>\<open>Loops.\<close>  Loops that end for every environment are total functions, with a measure where the recursion
  is not structural (\<open>send_loop\<close>, \<open>feed_loop\<close>, \<open>recv_exact_loop\<close>, \<open>format_loop\<close>).  Loops that the environment can keep running
  (\<open>try_send_loop\<close>, \<open>recvall_loop\<close>, \<open>acceptall_loop\<close>, \<open>fail_loop\<close>, \<open>process_task_queue_loop\<close>, \<open>send_all\<close>,
  \<open>start_thread\<close>) are \<open>partial_function (option)\<close>; the properties about them prove that they
  return under the conditions they name.  There is no fuel but the nesting depth of scripts.

  \<^bold>\<open>What is shown.\<close>  No byte is lost, repeated or overtaken between a write and the socket, a pass
  refines the abstract queue, and a graceful close flushes it; the receive and accept loops return
  what is there, in order and bounded; a close always closes, never raises, and tells everyone who
  waits; every run of the loop only moves forward, keeps its tables well-formed and tells each
  handler of its channel's life in order; no wake-up is lost under any interleaving; tasks run once
  and in order; timeouts close exactly the connections that are due; interest flags and selector stay
  in step; writability is a hysteresis; the bootstraps take the first address that works; log
  strings, frames and durations can be read back; a server's connections are shared out to the loops of its
  child group and served there; the benchmark's three engines pass a case exactly when every message is
  echoed, however TCP cuts the streams and the clients' calls on the shared run interleave (\<open>merge_logs\<close>:
  a schedule picks the client that makes the next call).  Put together: between a client and an echo server of the
  library every byte is in exactly one place at every moment, and from every moment all of them can still
  come back; the benchmark's burst client then completes; a group that is left shuts all its loops, and
  the benchmark's server is left without waiting forever.

  \<^bold>\<open>Not modelled.\<close>  Log and debug output is modelled as functions that nothing calls (\<^verbatim>\<open>Describe\<close>), but for
  the poll timeout in debug mode; memory and threads beyond the interleavings of \<^verbatim>\<open>Wakeup\<close> and of the
  benchmark's calls on its run (the methods that any thread may call are atomic elsewhere); name
  resolution, the module \<open>ssl\<close> and socket options, which are parameters; the parsing and wording of argparse and
  click, JSON output and the packaging; the commented-out TLS receive.  In a conversation neither side
  closes, no event is an error, and \<open>conv_step\<close> takes a write as one step (\<^verbatim>\<open>Wakeup\<close> has the accesses inside one).  In the benchmark's cases,
  data reaches a client of this library only after the call that starts it has returned (the lemma
  \<open>early_echo_breaks_the_run\<close> of \<^verbatim>\<open>Verdicts\<close> shows what happens otherwise), and the peer of a blocking client
  answers at once, with socket buffers that hold what is under way.  Times are integers (milliseconds for the loop,
  nanoseconds for clocks) and floating-point results rationals.
\<close>

section \<open>Sending\<close>

text \<open>C1: Over any sequence of writes and flushes in the loop's thread, what the kernel has taken from
  the socket followed by what is queued is what was written, in order: no byte is lost, repeated or
  overtaken, the count of pending bytes stays exact, and the queue stays well-formed.\<close>

theorem stream_integrity:
  assumes "passive_listeners E" "send_ok (k_send (e_kernel E) c)" "io_ok th c w"
  shows "chan_bytes c (io_run E th c as w) = chan_bytes c w @ io_written as
    \<and> io_ok th c (io_run E th c as w)"
  using io_run_bytes[OF assms] by simp

theorem stream_integrity_witness:
  "chan_bytes 0 (io_run demo_env 1 0 [IoWrite [1, 2], IoFlush, IoWrite [3]] demo_world) = [1, 2, 3]"
  using stream_integrity[of demo_env 0 1 demo_world "[IoWrite [1, 2], IoFlush, IoWrite [3]]"]
  by (simp add: demo_passive demo_send_ok demo_io_ok[simplified] chan_bytes_def)

text \<open>C2: A pass of \<open>_send_pending_chunks\<close> refines the abstract queue: for some number
  \<open>n\<close> of bytes, up to all the data in front of the first close indicator and short of that
  only if the kernel refused some, the socket has taken the first \<open>n\<close> bytes, exactly the
  chunks that went out whole are completed, the chunk cut in the middle keeps its tail, and the channel
  is closed exactly when the pass reached the close indicator.\<close>

theorem send_pass_refines_advance:
  assumes "passive_listeners E" "send_ok (k_send (e_kernel E) c)"
    and "queue_ok (w_futs w) (c_pendings (w_chans w c))"
  shows "\<exists>n k. n \<le> length (stream (data_part (c_pendings (w_chans w c))))
    \<and> sent_result E th c (c_pendings (w_chans w c)) n k w (send_pending_chunks E th c w)
    \<and> (n < length (stream (data_part (c_pendings (w_chans w c)))) \<longrightarrow> refuses E c w)"
  by (rule send_pending_chunks_advance[OF assms])

theorem send_pass_refines_advance_witness:
  "\<exists>n k. n \<le> 2 \<and> sent_result demo_env 1 0 (c_pendings (w_chans demo_queued 0)) n k demo_queued
      (send_pending_chunks demo_env 1 0 demo_queued)"
  using send_pass_refines_advance[OF demo_passive demo_hyps(1,4), of 1] unfolding demo_hyps(7) by blast





text \<open>C5: \<open>try_send\<close> is the plain sequence of \<open>send\<close> calls cut off at the
  first one after which the buffer is out or the errors are more than the spin count: it leaves exactly
  what those calls did not take.\<close>

theorem try_send_meets_reference:
  assumes "buf \<noteq> []" "0 \<le> spin" "send_over send buf k spin m" "\<forall>j<m. \<not> send_over send buf k spin j"
  shows "try_send_bytes send buf spin k = Some (drop (fst (send_run send buf k m)) buf, k + m)"
  using try_send_loop_run[OF assms(3,4), of 0 0 0] assms(1,2) by (simp add: try_send_bytes_def)

theorem try_send_meets_reference_witness:
  "try_send_bytes (\<lambda>k d. if k = 0 then Sent 2 else SendError) [1, 2, 3] 1 0 = Some ([3], 3)"
  using try_send_meets_reference[of "[1, 2, 3]" 1 "\<lambda>k d. if k = 0 then Sent 2 else SendError" 0 3]
  by (simp add: send_over_def numeral_3_eq_3 less_Suc_eq)

text \<open>C6: \<open>try_send\<close> returns, to any kernel that takes at least a byte or reports an
  error, after at most one call per byte, per spin and one more; it never reports more bytes sent than
  there are.\<close>

theorem try_send_terminates:
  assumes "send_ok send" "0 \<le> spin"
  shows "\<exists>t k'. try_send_loop send buf k 0 spin = Some (t, k') \<and> t \<le> length buf
     \<and> k \<le> k' \<and> k' \<le> k + length buf + nat spin + 1"
  using try_send_loop_returns[OF assms, of 0 buf k] by auto

theorem try_send_terminates_witness:
  "\<exists>t k'. try_send_loop (\<lambda>k d. Sent 1) [1, 2, 3] 0 0 1 = Some (t, k') \<and> t \<le> 3 \<and> k' \<le> 5"
  using try_send_terminates[of "\<lambda>k d. Sent 1" 1 "[1, 2, 3]" 0] by (fastforce simp: send_ok_def Suc_le_eq)

section \<open>Receiving and accepting\<close>



text \<open>C8: When an error means that nothing is readable, \<open>recvall\<close> returns after at most
  the tuning limit of rounds, with at most that many maximal buffers of data: the memory one read event
  takes is bounded.\<close>

theorem recvall_bounded:
  assumes "\<And>j sz e. rk_recv K (Suc j) sz = RecvError e \<Longrightarrow> \<not> is_readable (rk_peek K (j + 2))"
    and "\<And>j sz d. rk_recv K j sz = Received d \<Longrightarrow> int (length d) \<le> sz" and "config_ok cfg"
  shows "\<exists>b eof k'. recvall cfg K k = Some (b, eof, k')
    \<and> int (length b) \<le> cfg_rounds cfg * cfg_max cfg \<and> int k' \<le> int k + 3 * cfg_rounds cfg"
  using recvall_loop_bounded[OF assms(1,2), where cfg = cfg and bufsize = "cfg_initial cfg"
      and rounds = 0 and k = k and buffers = "[]" and costs = 0] assms(3)
  by (simp add: recvall_def config_ok_def)

theorem recvall_bounded_witness:
  "\<exists>b eof k'. recvall (config_of_env (\<lambda>_. None)) (k_recv demo_kernel 0) 0 = Some (b, eof, k')
    \<and> int (length b) \<le> 262144 \<and> int k' \<le> 48"
  using recvall_bounded[of "k_recv demo_kernel 0" "config_of_env (\<lambda>_. None)" 0] default_config_ok
  by (simp add: demo_kernel_def is_readable_def config_of_env_def getenv_def Let_def)

section \<open>A conversation\<close>



text \<open>C10: At every moment of such a conversation the bytes written are, in this order: what the
  client's handler was given, what is on the way back, what the server still has to send, what is on the
  way to it, the client's pending chunks and the writes waiting in its task queue. So what has come back
  is the beginning of what was written, and the next write, task run or event of either loop raises
  nothing.\<close>

theorem every_byte_in_one_place:
  assumes "conv_start a b s0" "(conv_step a b)\<^sup>*\<^sup>* s0 s"
  shows "got (ep_chan a) (cv_client s) @ cv_down s @ stream (c_pendings (w_chans (cv_server s) (ep_chan b)))
      @ cv_up s @ stream (c_pendings (w_chans (cv_client s) (ep_chan a)))
      @ concat (map task_bytes (w_taskq (cv_client s))) = cv_written s
    \<and> (\<forall>E t buf. \<not> in_eventloop t (cv_client s) \<longrightarrow>
         returns (channel_write E t (ep_chan a) buf None (cv_client s)))
    \<and> (\<forall>B. send_ok (k_send (e_kernel B) (ep_chan a)) \<longrightarrow>
         returns (process_task_queue (plain_env B) (ep_thread a) (cv_client s)))
    \<and> (\<forall>B ev. send_ok (k_send (e_kernel B) (ep_chan a)) \<and> delivers B (ep_chan a) (\<lambda>d. prefix d (cv_down s)) \<longrightarrow>
         returns (process_event (plain_env B) (ep_thread a) (ep_fd a) ev (cv_client s)))
    \<and> (\<forall>B ev. send_ok (k_send (e_kernel B) (ep_chan b)) \<and> delivers B (ep_chan b) (\<lambda>d. prefix d (cv_up s)) \<longrightarrow>
         returns (process_event (echo_env B) (ep_thread b) (ep_fd b) ev (cv_server s)))"
  using conv_accounted[OF conv_reach_ok[OF assms], unfolded all_bytes_def] conv_returns[OF conv_reach_ok[OF assms]] by blast

theorem every_byte_in_one_place_witness:
  "\<exists>s. (conv_step demo_end demo_end)\<^sup>*\<^sup>* demo_talk s \<and> got 0 (cv_client s) @ cv_down s
      @ stream (c_pendings (w_chans (cv_server s) 0)) @ cv_up s @ stream (c_pendings (w_chans (cv_client s) 0))
      @ concat (map task_bytes (w_taskq (cv_client s))) = [1, 2, 3]"
proof -
  obtain s where s: "(conv_step demo_end demo_end)\<^sup>*\<^sup>* demo_talk s" "cv_written s = [1, 2, 3]"
    using demo_burst_written by blast
  from every_byte_in_one_place[OF demo_talk_start s(1)] s show ?thesis by (auto simp: demo_end_def)
qed



section \<open>Closing\<close>

text \<open>C12: Whatever the handlers and done-callbacks do, a close that returns leaves the socket closed,
  the close future completed, the channel not active, and its descriptor out of the loop's channel and
  timeout tables.\<close>

theorem closing_closes:
  assumes "application E" "close_channel_internally E th c reason e w = (Ret u, w')"
    and "c < w_next_cid w" "c_close_future (w_chans w c) < w_next_fid w"
  shows "closed_in c w w'"
  by (rule application.close_channel_internally_closes[OF assms])

theorem closing_closes_witness:
  "closed_in 0 demo_world (snd (close_channel_internally demo_env 1 0 ''bye'' None demo_world))"
  using closing_closes[of demo_env 1 0 "''bye''" None demo_world "()"] demo_application
    close_channel_internally_returns[OF demo_application demo_passive demo_responsive, of 1 demo_world 0 "''bye''" None]
  by (auto elim!: returnsE)

text \<open>C13: In the loop's thread a close never raises, whatever exceptions handlers and done-callbacks
  throw: no application code can break the loop out of a close.\<close>

theorem closing_never_raises:
  assumes "application E" "in_eventloop th w" "w_started w"
  shows "fst (close_channel_internally E th c reason e w) \<noteq> Raise x"
  using application.close_channel_internally_calm[OF assms, of c reason e] by (simp add: calm_def)

theorem closing_never_raises_witness:
  "fst (close_channel_internally
     (scripted_env demo_base \<lparr>s_handler = (\<lambda>c cb. [ARaise (UserError 1)]), s_listener = (\<lambda>l. []), s_task = (\<lambda>n. [])\<rparr> 1)
     1 0 ''bye'' None demo_world) \<noteq> Raise (UserError 1)"
  by (rule closing_never_raises[OF scripted_application]) simp_all

text \<open>C14: When handlers return and done-callbacks leave the library alone, a close in the loop's
  thread returns and nobody keeps waiting: the connect future, the close future and the future of every
  chunk still queued are completed.\<close>

theorem closing_tells_everyone:
  assumes "application E" "passive_listeners E" "responsive E" "in_eventloop th w" "w_started w"
    and "\<not> c_server (w_chans w c)" "c < w_next_cid w"
    and "\<forall>f \<in> chan_futures (w_chans w c). f < w_next_fid w"
  shows "\<exists>w'. close_channel_internally E th c reason e w = (Ret (), w') \<and> all_told c w w'"
  using close_channel_internally_returns[OF assms(1-5), of c reason e]
    close_channel_internally_tells[OF assms(1,2,6) _ assms(7,8)] by (auto elim!: returnsE)

theorem closing_tells_everyone_witness:
  "\<exists>w'. close_channel_internally demo_env 1 0 ''bye'' None demo_queued = (Ret (), w') \<and> fut_done w' 2"
  using closing_tells_everyone[of demo_env 1 demo_queued 0 "''bye''" None]
  by (auto simp: demo_application demo_passive demo_responsive chan_futures_def all_told_def)

section \<open>Every run of the loop\<close>

text \<open>C15: Whatever the application does through the library, a run of the loop's thread only moves
  forward: a completed future keeps its result, a closed socket stays closed and takes no more bytes,
  the identity of a channel never changes, the bytes taken and the callbacks fired are only added to,
  and the loop's thread, once set, is never replaced.\<close>

theorem loop_only_progresses:
  assumes "application E" "start_thread E th w = Some r"
  shows "evolves w (snd r)"
  by (rule steps_evolves[OF application.start_thread_run[OF assms steps_refl]])

theorem loop_only_progresses_witness:
  "evolves (demo_world\<lparr>w_stop_polling := True\<rparr>)
     (snd (the (start_thread demo_env 1 (demo_world\<lparr>w_stop_polling := True\<rparr>))))"
proof -
  obtain r where "start_thread demo_env 1 (demo_world\<lparr>w_stop_polling := True\<rparr>) = Some r"
    using demo_stop_returns by blast
  with loop_only_progresses[OF demo_application this] show ?thesis by simp
qed

text \<open>C16: A handler sees the life of its channel in order: in every iteration of the loop
  \<open>channel_active\<close> and \<open>channel_inactive\<close> of a channel strictly alternate,
  starting from its state before and ending in its state after.\<close>

theorem active_and_inactive_alternate:
  assumes "application E"
  shows "\<exists>evs. w_events (snd (loop_iteration E th w)) = w_events w @ evs
    \<and> (c < w_next_cid w \<longrightarrow> life c (c_active (w_chans w c)) evs
         = Some (c_active (w_chans (snd (loop_iteration E th w)) c)))"
  using steps_lives[OF application.loop_iteration_run[OF assms steps_refl]] by (simp add: lives_def)

theorem active_and_inactive_alternate_witness:
  "\<exists>evs. w_events (snd (loop_iteration (echo_env demo_base) 1 demo_world)) = evs
    \<and> life 0 True evs = Some (c_active (w_chans (snd (loop_iteration (echo_env demo_base) 1 demo_world)) 0))"
  using active_and_inactive_alternate[OF echo_application, of demo_base 1 demo_world 0] by auto

text \<open>C17: Every iteration of the loop keeps its tables well-formed: no descriptor has two entries
  among the channels, the timeouts or the selector, the event descriptor holds one byte exactly when a
  wake-up is pending, and tasks are queued only for a loop that has a thread.\<close>

theorem loop_keeps_tables_well_formed:
  assumes "application E" "world_ok w"
  shows "world_ok (snd (loop_iteration E th w))"
  by (rule steps_world_ok[OF application.loop_iteration_run[OF assms(1) steps_refl] assms(2)])

theorem loop_keeps_tables_well_formed_witness:
  "world_ok (snd (loop_iteration (echo_env demo_base) 1 demo_world))"
  by (rule loop_keeps_tables_well_formed[OF echo_application demo_world_ok])

section \<open>Waking the loop\<close>

text \<open>C18: No wake-up is lost: with any number of threads interleaved in \<open>submit_task\<close> and
  \<open>stop\<close>, whenever the loop sleeps in \<open>select\<close> with nothing readable and no
  thread is on its way to wake it, there is no task queued and no request to stop; and when the loop
  reads the event descriptor, a byte is there.\<close>

theorem asleep_means_idle:
  assumes "wake_reach s"
  shows "(asleep s \<and> \<not> notifying s \<longrightarrow> wk_tasks s = 0 \<and> \<not> wk_stop s)
    \<and> (wk_loop s = Reading \<longrightarrow> wk_pipe s > 0)"
  using asleep_nothing_to_do[OF assms] reach_wake_ok[OF assms] by (simp add: wake_ok_def counts_ok_def)

theorem asleep_means_idle_witness:
  "wk_tasks (wake_init\<lparr>wk_loop := Selecting\<rparr>) = 0"
proof -
  have "wake_reach (wake_init\<lparr>wk_loop := Selecting\<rparr>)"
    by (rule wake_reach.step[OF wake_reach.init loop_select]) (simp_all add: wake_init_def)
  from asleep_means_idle[OF this] show ?thesis by (simp add: asleep_def notifying_def wake_init_def)
qed



text \<open>C20: A running loop takes a task at the end of its queue and its event descriptor is readable
  afterwards; a stopping one refuses with an exception and nothing changes.\<close>

theorem submit_wakes_or_refuses:
  assumes "w_started w" "eventfd_live (w_eventfd w)"
  shows "if w_stop_polling w \<or> w_closed w
    then submit_task E t w = (Raise (RuntimeError ''event loop is stopping''), w)
    else \<exists>w'. submit_task E t w = (Ret (), w') \<and> w_taskq w' = w_taskq w @ [t]
           \<and> eventfd_readable (w_eventfd w') \<and> w_chans w' = w_chans w"
  using submit_task_running[OF assms(1), of E t] submit_task_stopping[of w E t] efd.readable_notify[OF assms(2)]
  by auto

theorem submit_wakes_or_refuses_witness:
  "\<exists>w'. submit_task demo_env (TUser 4) demo_world = (Ret (), w') \<and> w_taskq w' = [TUser 4]
     \<and> eventfd_readable (w_eventfd w')"
proof -
  have "eventfd_live (w_eventfd demo_world)"
    by (simp add: eventfd_live_def eventfd_ok_new) (simp add: eventfd_new_def pipe_eventfd_def base_eventfd_def)
  from submit_wakes_or_refuses[OF _ this, of demo_env "TUser 4"] show ?thesis by auto
qed

section \<open>The loop's work\<close>



text \<open>C22: The loop sleeps without limit exactly when no connection is being made (and debugging is
  off); otherwise for at least a second, and no longer than that past the next connect timeout.\<close>

theorem sleep_is_bounded:
  assumes "e_debug E \<longrightarrow> 0 \<le> e_debug_interval E"
  shows "(fst (poll_timeout E w) = None \<longleftrightarrow> w_due w = [] \<and> \<not> e_debug E)
    \<and> (\<forall>t fd due. fst (poll_timeout E w) = Some t \<and> (fd, due) \<in> set (w_due w) \<longrightarrow> 1 \<le> t
         \<and> k_now (e_kernel E) (w_kcalls w) + 1000 * t \<le> max (k_now (e_kernel E) (w_kcalls w) + 1000) due)"
  using poll_timeout_none[OF assms, of w] poll_timeout_some[of E w] by blast

theorem sleep_is_bounded_witness:
  "\<exists>t. fst (poll_timeout demo_env demo_connecting) = Some t \<and> 1 \<le> t \<and> 1000 + 1000 * t \<le> 2000"
proof -
  have "\<not> e_debug demo_env" "k_now (e_kernel demo_env) (w_kcalls demo_connecting) = 1000" by simp_all
  with sleep_is_bounded[of demo_env demo_connecting] demo_connecting_hyps(3,4)
  obtain t where t: "fst (poll_timeout demo_env demo_connecting) = Some t" by auto
  moreover have "(5, 500) \<in> set (w_due demo_connecting)" by (simp add: demo_connecting_hyps(4))
  ultimately show ?thesis using sleep_is_bounded[of demo_env demo_connecting] by fastforce
qed

text \<open>C23: With handlers that leave the library alone, \<open>_process_connection_timeout\<close>
  returns having dropped exactly the timeouts that are due: of the channels they belong to, those that
  never became active are closed and out of the loop's table; every other channel is untouched.\<close>

theorem timeouts_close_the_due:
  assumes "quiet E" "own_fds w" "in_eventloop th w" "w_due w \<noteq> []"
  shows "\<exists>w'. process_connection_timeout E th w = (Ret (), w')
    \<and> dropped (set (over (k_now (e_kernel E) (w_kcalls w)) (w_due w))) w w'
    \<and> (\<forall>fd. dict_get (w_due w') fd = (if fd \<in> set (over (k_now (e_kernel E) (w_kcalls w)) (w_due w)) then None
                                      else dict_get (w_due w) fd))"
  by (rule process_connection_timeout_quiet[OF assms])

theorem timeouts_close_the_due_witness:
  "\<exists>w'. process_connection_timeout demo_env 1 demo_connecting = (Ret (), w')
    \<and> dict_get (w_channels w') 5 = None \<and> dict_get (w_due w') 5 = None"
  using timeouts_close_the_due[OF demo_quiet demo_connecting_hyps(1-3)]
  by (auto simp: demo_connecting_hyps(4,15) over_def dropped_def)

section \<open>Connecting and registering\<close>

text \<open>C24: Registering an open channel in the loop's thread returns its connect future; the selector
  then has its descriptor for both events, the loop's table has the channel, its handler has heard of
  it, and, unless it is a server, the connect timeout runs.\<close>

theorem register_installs:
  assumes "quiet E" "accepting E" "in_eventloop th w" "w_started w" "\<not> w_stop_polling w" "\<not> w_closed w"
    and "c_sockfd (w_chans w c) \<ge> 0" "c_sockfd (w_chans w c) \<notin> dict_keys (w_selector w)" "w_selector_open w"
  shows "\<exists>w'. register E th c False w = (Ret (c_channel_future (w_chans w c)), w') \<and> registered E c w w'"
  by (rule register_in_loop[OF assms])

theorem register_installs_witness:
  "\<exists>w'. register demo_env 1 0 False demo_fresh = (Ret 1, w') \<and> registered demo_env 0 demo_fresh w'"
  using register_installs[OF demo_quiet demo_accepting(1) demo_fresh_hyps(1-4), of 0]
  by (simp add: demo_fresh_hyps)

text \<open>C25: A connect that the system reports complete, with no TLS handshake to do, makes the channel
  active: its connect future is completed with it, its handler hears \<open>channel_active\<close>, and
  its connect timeout is dropped.\<close>

theorem connect_succeeds:
  assumes "quiet E" "\<not> c_active (w_chans w c)" "\<not> c_ever_active (w_chans w c)"
    and "w_futs w (c_channel_future (w_chans w c)) = FPending"
    and "sock_so_error E c w = Inr 0" "\<not> needs_ssl_handshake c w"
  shows "\<exists>w'. check_channel_active E th c w = (Ret True, w') \<and> activated_in c w w'"
  by (rule check_active_success[OF assms])

theorem connect_succeeds_witness:
  "\<exists>w'. check_channel_active demo_env 1 0 demo_connecting = (Ret True, w') \<and> activated_in 0 demo_connecting w'"
  using connect_succeeds[OF demo_quiet demo_connecting_hyps(6,7)] by (simp add: demo_connecting_hyps)

text \<open>C26: A connect that failed, or whose state cannot be read, is reported on the connect future with
  the system's error, and the channel is closed.\<close>

theorem connect_failure_is_reported:
  assumes "application E" "passive_listeners E" "responsive E" "in_eventloop th w" "w_started w"
    and "c < w_next_cid w" "c_close_future (w_chans w c) < w_next_fid w"
    and "c_channel_future (w_chans w c) < w_next_fid w"
    and "w_futs w (c_channel_future (w_chans w c)) = FPending"
    and "\<not> c_ever_active (w_chans w c)" "connect_error (sock_so_error E c w) = Some err"
  shows "\<exists>w'. check_channel_active E th c w = (Ret False, w')
    \<and> w_futs w' (c_channel_future (w_chans w c)) = FException (OSError err) \<and> closed_in c w w'"
  by (rule check_active_failure[OF assms])

theorem connect_failure_is_reported_witness:
  "\<exists>w'. check_channel_active demo_failing_env 1 0 demo_connecting = (Ret False, w')
    \<and> w_futs w' 1 = FException (OSError 111) \<and> closed_in 0 demo_connecting w'"
  using connect_failure_is_reported[OF demo_failing_hyps(1-3) demo_connecting_hyps(2,5), of 0 111]
  by (simp add: demo_connecting_hyps demo_failing_hyps(4) connect_error_def)



text \<open>C28: Adding or removing an interest flag in the loop's thread keeps the selector's map and the
  channel's flags in step: a registered descriptor has exactly the flags of its channel, and one with no
  flag left is not registered.\<close>

theorem interest_in_step:
  assumes "accepting E" "in_eventloop th w" "synced c w" "fl \<in> {EVENT_READ, EVENT_WRITE}"
  shows "(\<exists>w'. add_flag E th c fl w = (Ret (), w') \<and> synced c w'
      \<and> c_flag (w_chans w' c) = c_flag (w_chans w c) OR fl)
    \<and> (\<exists>w'. remove_flag E th c fl w = (Ret (), w') \<and> synced c w'
      \<and> c_flag (w_chans w' c) = c_flag (w_chans w c) AND NOT fl)"
  using flags_synced[OF assms] by blast

theorem interest_in_step_witness:
  "\<exists>w'. remove_flag demo_env 1 0 EVENT_READ demo_world = (Ret (), w') \<and> synced 0 w' \<and> c_flag (w_chans w' 0) = 0"
  using interest_in_step[OF demo_accepting(1) _ demo_synced(3), of 1 EVENT_READ]
  by (simp add: EVENT_READ_def)



section \<open>Groups, addresses and the bootstraps\<close>

text \<open>C30: A server with a child group: each socket the accepting loop takes from the backlog goes to
  the loops of the group in turn, and when such a loop, running in its own thread, has processed its
  tasks, exactly its share is in its tables, each channel under its descriptor with reading and writing
  enabled, a connect timeout and \<open>channel_registered\<close> fired, next to what the loop served
  before.\<close>

theorem accepted_connections_are_served:
  assumes "quiet E" "accepting E" "0 < g_loops (sy_group S)"
    and "\<forall>l < g_loops (sy_group S). loop_running (t l) (sy_loops S l) \<and> t l \<noteq> th \<and> w_taskq (sy_loops S l) = []"
    and "\<forall>s \<in> set ss. wrapped wrap s = Inr (sock s) \<and> 0 < sock s" "distinct (map sock ss)"
    and "\<forall>s \<in> set ss. \<forall>l < g_loops (sy_group S). sock s \<notin> dict_keys (w_selector (sy_loops S l))"
  shows "\<exists>S'. accept_children E wrap th c ss S = (Ret (), S')
    \<and> w_accepted (sy_parent S') = w_accepted (sy_parent S) + int (length ss)
    \<and> (\<forall>l < g_loops (sy_group S). \<exists>w'. process_task_queue E (t l) (sy_loops S' l) = (Ret (), w')
         \<and> all_registered (w_next_cid (sy_loops S l))
             (map sock (share (g_loops (sy_group S)) (g_calls (sy_group S)) l ss)) (sy_loops S l) w')"
  using accepted_are_registered[OF assms] .

theorem accepted_connections_are_served_witness:
  "\<exists>S'. accept_children demo_env None 9 0 [7, 8, 11] demo_system = (Ret (), S')
    \<and> (\<exists>w'. process_task_queue demo_env 1 (sy_loops S' 0) = (Ret (), w')
         \<and> all_registered 0 [7, 11] (demo_child 1) w')"
proof -
  have "share 2 0 0 [7, 8, 11] = [7, 11 :: nat]" by simp
  moreover have "\<exists>S'. accept_children demo_env None 9 0 [7, 8, 11] demo_system = (Ret (), S')
    \<and> w_accepted (sy_parent S') = w_accepted (sy_parent demo_system) + int (length [7, 8, 11 :: nat])
    \<and> (\<forall>l < g_loops (sy_group demo_system). \<exists>w'. process_task_queue demo_env (Suc l) (sy_loops S' l) = (Ret (), w')
         \<and> all_registered (w_next_cid (sy_loops demo_system l))
             (map int (share (g_loops (sy_group demo_system)) (g_calls (sy_group demo_system)) l [7, 8, 11]))
             (sy_loops demo_system l) w')"
    by (rule accepted_connections_are_served) (auto simp: demo_quiet demo_accepting wrapped_def dict_keys_def)
  ultimately show ?thesis by (force simp del: accept_children.simps share.simps)
qed

text \<open>C31: Client TLS contexts are cached by \<open>verify\<close> alone: two bootstraps get the same
  context object exactly when their \<open>verify\<close> is the same, and then what the first's
  \<open>ssl_context_cb\<close> did to it is still there when the second's is applied; with different
  \<open>verify\<close> neither sees the other's changes.\<close>

theorem tls_contexts_shared:
  assumes "contexts_ok X" "create_ssl_context L v cb X = (Inr c, X1)" "create_ssl_context L v' cb' X1 = (Inr c', X2)"
  shows "(c' = c \<longleftrightarrow> v' = v) \<and> cx_store X2 c = (if v' = v then cb_effect cb' (cx_store X1 c) else cx_store X1 c)"
  by (rule client_contexts_shared[OF assms])

theorem tls_contexts_shared_witness:
  "cx_store (snd (create_ssl_context demo_ssl True None
     (snd (create_ssl_context demo_ssl True (Some (\<lambda>s. (None, s @ [''check_hostname=False'']))) no_contexts)))) 0
   = [''default'', ''check_hostname=False'']"
  using tls_contexts_shared[of no_contexts demo_ssl True "Some (\<lambda>s. (None, s @ [''check_hostname=False'']))" 0
      "snd (create_ssl_context demo_ssl True (Some (\<lambda>s. (None, s @ [''check_hostname=False'']))) no_contexts)" True None 0
      "snd (create_ssl_context demo_ssl True None (snd (create_ssl_context demo_ssl True
        (Some (\<lambda>s. (None, s @ [''check_hostname=False'']))) no_contexts)))"]
  by (simp add: contexts_ok_def no_contexts_def demo_ssl_def create_ssl_context_def client_ssl_context_def
      lru_call_def lru_miss_def lru_hit_def make_client_context_def apply_context_cb_def cb_effect_def)

text \<open>C32: Leaving a group raises nothing and tells each of its loops to stop. A loop that was never
  started is cleaned up at once; the thread of any other ends without an exception, and of every channel
  it served the socket is closed and the close and connect futures are done, its selector and event
  descriptor are closed. This holds for handlers that return, whatever they do, and for those that
  ignore the closing.\<close>

theorem leaving_a_group_shuts_everything:
  assumes "application E" "passive_listeners E" "responsive E \<or> idle E"
    and "list_all2 (\<lambda>th w. serving th w \<or> unstarted w) ths ws"
  shows "group_stop E t ws = (Ret (), map told ws)
    \<and> list_all2 (\<lambda>th w. if w_started w
         then \<exists>w'. start_thread E th (told w) = Some (Ret (), w') \<and> everything_shut (told w) w'
         else everything_shut (told w) (told w)) ths ws"
proof -
  have "closes E" using responsive_closes[OF assms(1,2)] idle_closes assms(3) by blast
  from group_ends[OF assms(1,2) this assms(4), of t] show ?thesis by (simp add: ends_def told_started)
qed

theorem leaving_a_group_shuts_everything_witness:
  "\<exists>w'. start_thread demo_env 1 (told demo_world) = Some (Ret (), w') \<and> shut 0 (told demo_world) w'"
  using leaving_a_group_shuts_everything[OF demo_application demo_passive _ , of "[1, 1]" "[demo_world, eventloop_init True 6 7]" 9]
    demo_responsive demo_serving
  by (auto simp: everything_shut_def told_def)

text \<open>C33: The benchmark's own echo server, entered from the main thread with a new group, starts the
  acceptor's thread, which registers the listening channel and then waits for connections. Left in any
  later state with no task waiting, the forced close is carried out by that thread, so the main thread
  does not wait forever; nothing is raised, the listening socket is closed, and both loops end with
  everything shut.\<close>

theorem benchmark_server_comes_and_goes:
  assumes "application E" "idle E" "accepting E" "\<And>k. k_pool (e_kernel E) k = PoolThread tp" "t \<noteq> tp"
    and "0 < port" "0 < fileno" "fileno \<notin> dict_keys (w_selector (eventloop_init posix r wr))"
  shows "(\<exists>w1 w2. local_echo_enter E t port (Inr fileno) (eventloop_init posix r wr) = (Ret 0, w1)
      \<and> process_task_queue E tp w1 = (Ret (), w2) \<and> serving tp w2 \<and> listening 0 w2 \<and> w_taskq w2 = []
      \<and> dict_get (w_selector w2) fileno = Some (EVENT_READ OR EVENT_WRITE) \<and> dict_get (w_channels w2) fileno = Some 0)
    \<and> (\<forall>w wc. serving tp w \<and> listening 0 w \<and> w_taskq w = [] \<and> (serving tc wc \<or> unstarted wc) \<longrightarrow>
      (\<exists>w'. local_echo_exit E t tp (Some 0) w wc = (Ret (), w', told wc) \<and> shut 0 w w'
         \<and> ends E tp w' \<and> ends E tc (told wc)))"
proof (intro conjI allI impI)
  fix w wc assume "serving tp w \<and> listening 0 w \<and> w_taskq w = [] \<and> (serving tc wc \<or> unstarted wc)"
  then show "\<exists>w'. local_echo_exit E t tp (Some 0) w wc = (Ret (), w', told wc) \<and> shut 0 w w' \<and> ends E tp w' \<and> ends E tc (told wc)"
    using assms(5) by (intro local_server_ends[OF assms(1,2)]) (auto simp: serving_def in_eventloop_def)
qed (use local_server_life[OF assms] in blast)

theorem benchmark_server_comes_and_goes_witness:
  "\<exists>w1 w2 w3. local_echo_enter demo_env 9 8080 (Inr 8) (eventloop_init True 3 4) = (Ret 0, w1)
    \<and> process_task_queue demo_env 1 w1 = (Ret (), w2)
    \<and> local_echo_exit demo_env 9 1 (Some 0) w2 (eventloop_init True 6 7) = (Ret (), w3, told (eventloop_init True 6 7))
    \<and> shut 0 w2 w3"
proof -
  have h: "k_pool (e_kernel demo_env) k = PoolThread 1" "8 \<notin> dict_keys (w_selector (eventloop_init True 3 4))" for k
    by (simp_all add: eventloop_init_def dict_keys_def)
  note life = benchmark_server_comes_and_goes[OF demo_application demo_idle demo_accepting(1) h(1) _ _ _ h(2),
      where t = 9 and port = 8080 and tc = 1]
  obtain w1 w2 where "local_echo_enter demo_env 9 8080 (Inr 8) (eventloop_init True 3 4) = (Ret 0, w1)"
    "process_task_queue demo_env 1 w1 = (Ret (), w2)" "serving 1 w2" "listening 0 w2" "w_taskq w2 = []"
    using life by auto
  with life demo_serving(3) show ?thesis by fastforce
qed



section \<open>The echo benchmark's client\<close>

text \<open>C35: The check of an echoed frame accepts exactly the frame that was made for that connection and
  sequence number, byte for byte.\<close>

theorem frame_check_is_exact:
  "validate_frame f connection_id sequence = Inr None
    \<longleftrightarrow> make_frame connection_id sequence (length f) = Inr f"
  by (rule validate_frame_ok)

text \<open>C36: However TCP cuts the echoed stream into pieces, the client does what it would do on the
  whole.\<close>

theorem segmentation_is_irrelevant:
  assumes "client_ok c" "length (cl_buffer c) < cl_payload_size c"
  shows "feed_all clock ds c = feed clock (concat ds) c"
  by (rule feed_all_concat[OF assms])

theorem segmentation_is_irrelevant_witness:
  "feed_all (\<lambda>_. 0) [[1, 2], [], [3]] (connected_client 1 0 2 8 False)
     = feed (\<lambda>_. 0) [1, 2, 3] (connected_client 1 0 2 8 False)"
proof -
  have "cl_payload_size (connected_client 1 0 2 8 False) = 8" by (simp add: connected_client_def new_client_def)
  with segmentation_is_irrelevant[of "connected_client 1 0 2 8 False" "\<lambda>_. 0" "[[1, 2], [], [3]]"]
  show ?thesis by (simp del: feed_all.simps)
qed

text \<open>C37: However the system cuts the stream into the results of \<open>recv\<close>,
  \<open>_recv_exact\<close> of the threaded client gives what \<open>readexactly\<close> gives the
  asyncio client: exactly the bytes asked for, the rest left for the next call, or
  \<open>EOFError\<close> with everything consumed when the stream ends before.\<close>

theorem recv_exact_is_readexactly:
  "fst (recv_exact give n s) = fst (readexactly n s)
    \<and> bs_in (snd (recv_exact give n s)) = bs_in (snd (readexactly n s))
    \<and> bs_out (snd (recv_exact give n s)) = bs_out (snd (readexactly n s))
    \<and> (if n \<le> length (bs_in s) then fst (readexactly n s) = Ret (take n (bs_in s)) \<and> bs_in (snd (readexactly n s)) = drop n (bs_in s)
       else fst (readexactly n s) = Raise EOFError \<and> bs_in (snd (readexactly n s)) = [])"
  using recv_exact_readexactly[of give n s] by (simp add: same_bytes_def readexactly_def)

text \<open>C38: Against servers that echo, and with nothing taking too long, the benchmark command returns
  0: for every command line it accepts whose overrides fit a frame, it runs every selected case with
  every selected engine, and in each result every message and byte sent by every connection has been
  counted, with no error, however the clients' threads or tasks interleave and TCP cuts the
  streams.\<close>

theorem command_passes_on_echo:
  assumes "check_args given a = Inr a'" "overrides_ok a'" "echoing N A T"
  shows "\<exists>rs. main_run mul N A T a' = Some (Inr (rs, 0)) \<and> rs \<noteq> []
    \<and> list_all2 (\<lambda>(s, e) r. all_echoed (apply_overrides s a') r \<and> \<not> failed r)
        (List.product (selected_cases a') (selected_engines a')) rs"
  by (rule command_passes[OF assms])

theorem command_passes_on_echo_witness:
  "\<exists>rs. main_run (*) echo_netty echo_env_of echo_env_of demo_args = Some (Inr (rs, 0)) \<and> length rs = 9"
proof -
  obtain rs where "main_run (*) echo_netty echo_env_of echo_env_of demo_args = Some (Inr (rs, 0))"
    "list_all2 (\<lambda>(s, e) r. all_echoed (apply_overrides s demo_args) r \<and> \<not> failed r)
        (List.product (selected_cases demo_args) (selected_engines demo_args)) rs"
    using command_passes_on_echo[of False demo_args demo_args echo_netty echo_env_of echo_env_of "(*)"]
    by (auto simp: demo_args_ok demo_echoing)
  moreover have "length (List.product (selected_cases demo_args) (selected_engines demo_args)) = 9"
    by (simp add: demo_args_selected)
  ultimately show ?thesis using list_all2_lengthD by fastforce
qed



text \<open>C40: The dictionary of clients shared by the handlers' threads and the printing thread: however
  their operations interleave, the entry of a client is what its own operations and the checks alone
  make it, so one that is connected has as its total the bytes its own handler read.\<close>

theorem clients_are_independent:
  "dict_get (fold run_client_op xs d) a = fold own_op (filter (concerns a) xs) (dict_get d a)
    \<and> (dict_get d a = None \<and> Closed a \<notin> set xs \<longrightarrow>
        (\<exists>c. dict_get (fold run_client_op (Opened now a # xs) d) a = Some c
           \<and> m_total_read_bytes c = bytes_read (filter (concerns a) xs)))"
  using client_ops_get[of xs d a] opened_total[of d a xs now] by blast

theorem clients_are_independent_witness:
  "\<exists>c. dict_get (fold run_client_op [Opened 0 (1 :: nat), Opened 1 2, Read 2 1 10, Read 3 2 99, Closed 2, Checked 4, Read 5 1 7] []) 1
      = Some c \<and> m_total_read_bytes c = 17"
  using clients_are_independent[of "[Opened 1 2, Read 2 1 10, Read 3 2 99, Closed 2, Checked 4, Read 5 (1 :: nat) 7]" "[]" 1 0]
  by (auto simp: dict_get_def simp del: run_client_op.simps)

section \<open>Further facts\<close>

text \<open>A write batch is a prefix of the chunks in front of the first close indicator, with its size in
  bytes; it stays within the high water mark unless it is a single chunk, and it is never empty when
  there is a chunk to send.\<close>

theorem write_batch_bounded:
  "(\<exists>k. pending_write_batch cfg q = (take k (data_part q), int (length (stream (take k (data_part q))))))
    \<and> (snd (pending_write_batch cfg q) \<le> cfg_high cfg \<or> length (fst (pending_write_batch cfg q)) \<le> 1)
    \<and> (fst (pending_write_batch cfg q) = [] \<longleftrightarrow> data_part q = [])"
  by (rule pending_write_batch_spec)

text \<open>The echo server's monitor: with a clock that does not go back, whatever reads and checks a client
  sees, its total is the number of bytes read, and the window of its speed never exceeds a
  second.\<close>

theorem monitor_totals_exact:
  assumes "counters_ok c" "sorted (m_last_read_time c # map at_time es)"
  shows "counters_ok (fold monitor_step es c)
    \<and> m_total_read_bytes (fold monitor_step es c) = m_total_read_bytes c + read_sizes es"
  by (rule monitor_counts[OF assms])

theorem monitor_totals_exact_witness:
  "m_total_read_bytes (fold monitor_step [MRead 5 10, MCheck 3000000000, MRead 3000000001 7] (new_monitored 5)) = 17"
  using monitor_totals_exact[of "new_monitored 5" "[MRead 5 10, MCheck 3000000000, MRead 3000000001 7]"]
  by (simp add: counters_ok_def new_monitored_def)

text \<open>The durations the monitor prints are exact: adding up the amounts of weeks, days, hours, minutes
  and seconds gives back the number of seconds.\<close>

theorem duration_roundtrip: "read_duration (pretty_duration n) = n"
  by (rule read_pretty_duration)

text \<open>\<open>acceptall\<close> returns every connection that is waiting, in the order of the backlog,
  and stops at the first refusal.\<close>

theorem acceptall_takes_all:
  assumes "\<forall>i<n. accept (k + i) = Accepted (s i)" "accept (k + n) = AcceptError"
  shows "acceptall accept k = Some (map s [0..<n], Suc (k + n))"
  using acceptall_loop_result[OF assms, of "[]"] by (simp add: acceptall_def)

theorem acceptall_takes_all_witness:
  "acceptall (\<lambda>k. if k < 2 then Accepted (k + 7) else AcceptError) 0 = Some ([7, 8], 3)"
  using acceptall_takes_all[of 2 "\<lambda>k. if k < 2 then Accepted (k + 7) else AcceptError" 0 "\<lambda>i. i + 7"]
  by (simp add: numeral_2_eq_2)

text \<open>A group hands out its loops in turn: as many calls in a row as it has loops serve each exactly
  once, whatever was called before.\<close>

theorem loops_are_chosen_evenly:
  assumes "g_loops g = n"
  shows "mset (fst (get_eventloops n g)) = mset [0..<n]"
  by (rule round_robin[OF assms])

theorem loops_are_chosen_evenly_witness:
  "mset (fst (get_eventloops 3 (snd (get_eventloop (new_group 3))))) = {#0, 1, 2#}"
proof -
  have "g_loops (snd (get_eventloop (new_group 3))) = 3" by (simp add: get_eventloop_def new_group_def)
  moreover have "[0..<3] = [0, 1, 2 :: nat]" by (simp add: upt_rec)
  ultimately show ?thesis using loops_are_chosen_evenly[of "snd (get_eventloop (new_group 3))" 3]
    by (simp only: mset.simps)
qed

text \<open>Any number of wake-ups between two reads of the event descriptor is one readable byte, and the
  one read the loop then makes returns at once and leaves the descriptor unreadable.\<close>

theorem wakeups_coalesce:
  assumes "eventfd_live ef"
  shows "((\<lambda>ef. snd (eventfd_unsafe_write ef)) ^^ Suc n) ef = snd (eventfd_unsafe_write ef)
    \<and> returns (eventfd_unsafe_read (snd (eventfd_unsafe_write ef)))
    \<and> \<not> eventfd_readable (snd (eventfd_unsafe_read (snd (eventfd_unsafe_write ef))))"
  using efd.notifies_coalesce[OF assms, of n] efd.one_drain_suffices[OF assms, of 0] by simp

theorem wakeups_coalesce_witness:
  "((\<lambda>ef. snd (eventfd_unsafe_write ef)) ^^ 3) (eventfd_new True 3 4) =
     snd (eventfd_unsafe_write (eventfd_new True 3 4))"
  using wakeups_coalesce[of "eventfd_new True 3 4" 2]
  by (simp add: eventfd_live_def eventfd_ok_new numeral_3_eq_3 numeral_2_eq_2)
    (simp add: eventfd_new_def pipe_eventfd_def base_eventfd_def)

text \<open>The description of a socket address in the log is unambiguous: address and port can be read back
  from it, for IPv4, IPv6 and host names.\<close>

theorem sockaddr_roundtrip:
  "parse_sockaddr (format_sockaddr (address, port)) = (address, port)"
  by (rule parse_format_sockaddr)

text \<open>A client whose frames all come back, in whatever pieces, has counted every message and byte,
  written each of its frames once and in order, reported no error, and marked its connection complete,
  whether it sends them all at first or one at a time.\<close>

theorem echoed_run_completes:
  assumes "8 \<le> n" "i < 2 ^ 32" "0 < m" "m \<le> 2 ^ 32"
    and "concat ds = concat (map (frame_of (connected_client k i m n q)) [0..<m])"
  shows "\<exists>c1 c2. start_client clock (connected_client k i m n q) = Some (Ret (), c1)
    \<and> feed_all clock ds c1 = (Ret (), c2) \<and> cl_completed c2 \<and> cl_buffer c2 = []
    \<and> cl_written c2 = map (frame_of (connected_client k i m n q)) [0..<m]
    \<and> rs_errors (cl_run c2) = [] \<and> rs_received_messages (cl_run c2) = m
    \<and> rs_received_bytes (cl_run c2) = m * n \<and> rs_completed (cl_run c2) = 1"
proof -
  let ?c = "connected_client k i m n q"
  obtain c1 c2 where "start_client clock ?c = Some (Ret (), c1)" "feed_all clock ds c1 = (Ret (), c2)"
      "progress ?c m m c2" "cl_buffer c2 = []"
    using echoed_client_completes[of ?c ds clock] assms by auto
  then show ?thesis
    by (intro exI[of _ c1] exI[of _ c2])
      (simp add: progress_def, simp add: connected_client_def new_client_def new_run_def)
qed

theorem echoed_run_completes_witness:
  "\<exists>c1 c2. start_client (\<lambda>_. 0) (connected_client 1 0 1 8 True) = Some (Ret (), c1)
    \<and> feed_all (\<lambda>_. 0) [[0, 0, 0], [0, 0, 0, 0, 0]] c1 = (Ret (), c2) \<and> cl_completed c2"
  using echoed_run_completes[of 8 0 1 "[[0, 0, 0], [0, 0, 0, 0, 0]]" 1 True "\<lambda>_. 0"]
  by (auto simp: frame_of_def make_frame_def header_pack_def be32_def header_size_def connected_client_def
      new_client_def)

text \<open>A write in the loop's thread: an active channel with nothing queued gives the kernel what it
  takes at once, any other queues all of it; the untaken rest is queued at the end with the write's
  future, which is completed at once exactly when nothing is left.\<close>

theorem write_in_loop:
  assumes "passive_listeners E" "send_ok (k_send (e_kernel E) c)" "in_eventloop th w"
    and "w_futs w cf = FPending"
  shows "\<exists>n x s k. n \<le> length buf
    \<and> (if is_active c w \<and> \<not> has_pendings c w then n < length buf \<longrightarrow> refuses E c w else n = 0)
    \<and> channel_write E th c buf (Some cf) w =
      (Ret cf, upd_chan c (\<lambda>ch. (written c n buf cf ch)\<lparr>c_flag := x\<rparr>)
       (w\<lparr>w_selector := s, w_kcalls := k,
          w_futs := if is_active c w \<and> \<not> has_pendings c w \<and> n = length buf
                    then (w_futs w)(cf := FResult VTrue) else w_futs w\<rparr>))"
  by (rule channel_write_in_loop[OF assms])

theorem write_in_loop_witness:
  "\<exists>n x s k. n \<le> length ([1, 2] :: bytes) \<and> channel_write demo_env 1 0 [1, 2] (Some 9) demo_world =
      (Ret 9, upd_chan 0 (\<lambda>ch. (written 0 n [1, 2] 9 ch)\<lparr>c_flag := x\<rparr>)
       (demo_world\<lparr>w_selector := s, w_kcalls := k,
          w_futs := if is_active 0 demo_world \<and> \<not> has_pendings 0 demo_world \<and> n = length ([1, 2] :: bytes)
                    then (w_futs demo_world)(9 := FResult VTrue) else w_futs demo_world\<rparr>))"
  using write_in_loop[OF demo_passive demo_hyps(1-3), where c = 0 and cf = 9 and buf = "[1, 2]"] by blast

text \<open>The echo handler in the loop: a read event of an active connection that brings data writes
  exactly that data back, after everything written before, whether the kernel takes it at once or
  not.\<close>

theorem echo_server_echoes:
  assumes "send_ok (k_send (e_kernel B) c)" "io_ok th c w" "is_active c w" "\<not> c_server (w_chans w c)"
    and "channel_recvall (echo_env B) c w = (Ret (buf, eof), w1)" "buf \<noteq> []"
  shows "\<exists>w'. read_event (echo_env B) th c w = (Ret (), w') \<and> io_ok th c w'
    \<and> chan_bytes c w' = chan_bytes c w @ buf \<and> w_received w' = w_received w + int (length buf)"
  by (rule read_event_echoes[OF assms])

theorem echo_server_echoes_witness:
  "\<exists>w'. read_event (echo_env demo_reading) 1 0 demo_world = (Ret (), w') \<and> chan_bytes 0 w' = [1, 2]"
proof -
  have "recvall (config_of_env (\<lambda>_. None)) demo_reader 0 = Some ([1, 2], False, 6)" by code_simp
  then have "channel_recvall (echo_env demo_reading) 0 demo_world = (Ret ([1, 2], False), demo_world\<lparr>w_kcalls := 6\<rparr>)"
    by (simp add: channel_recvall_def demo_reading_simps)
  moreover have "is_active 0 demo_world" by (simp add: is_active_def fut_done_def)
  ultimately show ?thesis
    using echo_server_echoes[of demo_reading 0 1 demo_world "[1, 2]" False] demo_io_ok demo_reading_simps(1)
    by (auto simp: chan_bytes_def)
qed

text \<open>Leaving a group never raises, and when it returns, every loop of the group is stopping and
  refuses tasks, from any thread.\<close>

theorem leaving_a_group_stops_it:
  assumes "application E"
  shows "fst (group_stop E th ws) \<noteq> Raise e \<and>
    (\<forall>u ws' w. group_stop E th ws = (Ret u, ws') \<and> w \<in> set ws' \<longrightarrow>
       submit_task E t w = (Raise (RuntimeError ''event loop is stopping''), w))"
  using group_stop_stops[OF assms] group_stop_calm[of E th ws] submit_task_stopping
  unfolding calm_def by blast

theorem leaving_a_group_stops_it_witness:
  "fst (group_stop demo_env 9 [demo_world, eventloop_init True 6 7]) \<noteq> Raise KeyError"
  using leaving_a_group_stops_it[OF demo_application] by blast

text \<open>The latencies of a result are latencies that occurred, in milliseconds, and in order: the median
  is at most the 95th percentile and that at most the 99th, for any multiplication that is monotone and
  exact at 0 and 1, as the rounded one of floating point is.\<close>

theorem latencies_are_ordered:
  assumes "product_ok mul" "rs_latencies run \<noteq> []"
  shows "\<exists>p50 p95 p99. cr_latency_p50_ms (build_result mul engine spec run sent bytes elapsed ramp_up timed_out timeout) = Some p50
    \<and> cr_latency_p95_ms (build_result mul engine spec run sent bytes elapsed ramp_up timed_out timeout) = Some p95
    \<and> cr_latency_p99_ms (build_result mul engine spec run sent bytes elapsed ramp_up timed_out timeout) = Some p99
    \<and> p50 \<le> p95 \<and> p95 \<le> p99 \<and> {p50, p95, p99} \<subseteq> (\<lambda>l. seconds l * 1000) ` set (rs_latencies run)"
  by (rule result_latencies_ordered[OF assms refl])

theorem latencies_are_ordered_witness:
  "\<exists>p50 p95. cr_latency_p50_ms (build_result (*) [] demo_spec ((new_run 1)\<lparr>rs_latencies := [7000, 5000]\<rparr>) 2 16 1 1 False 15) = Some p50
    \<and> cr_latency_p95_ms (build_result (*) [] demo_spec ((new_run 1)\<lparr>rs_latencies := [7000, 5000]\<rparr>) 2 16 1 1 False 15) = Some p95
    \<and> p50 \<le> p95"
  using latencies_are_ordered[OF product_ok_exact, of "(new_run 1)\<lparr>rs_latencies := [7000, 5000]\<rparr>" "[]" demo_spec 2 16 1 1 False 15]
  by auto

text \<open>Pausing and resuming reads in the loop's thread: after \<open>set_auto_read\<close> the loop
  waits for the socket to become readable exactly if the setting says so.\<close>

theorem auto_read_controls_reading:
  assumes "accepting E" "in_eventloop th w" "synced c w" "reading_as_set c w"
  shows "\<exists>w'. set_auto_read E th c b w = (Ret (), w') \<and> synced c w' \<and> reading_as_set c w'
    \<and> c_auto_read (w_chans w' c) = b"
  by (rule set_auto_read_synced[OF assms])

theorem auto_read_controls_reading_witness:
  "\<exists>w'. set_auto_read demo_env 1 0 False demo_world = (Ret (), w') \<and> c_flag (w_chans w' 0) AND EVENT_READ = 0"
  using auto_read_controls_reading[OF demo_accepting(1) _ demo_synced(3,4), of 1 False]
  by (auto simp: reading_as_set_def)

text \<open>A connection of the echo server's own blocking and asyncio handlers, whatever it receives and
  however it ends, is forgotten by the monitor and leaves the other clients alone; what it sent back is
  the beginning of what it received, and all of it when the handler ended without an exception.\<close>

theorem monitored_connection_life:
  assumes "handle_connection clock now address sends recvs d = (Some r, out, d')"
  shows "dict_get d' address = None \<and> (\<forall>a. a \<noteq> address \<longrightarrow> dict_get d' a = dict_get d a)
    \<and> prefix out (received recvs) \<and> (r = Ret () \<longrightarrow> out = received recvs)"
  by (rule handle_connection_life[OF assms])

theorem monitored_connection_life_witness:
  "dict_get (snd (snd (handle_connection (\<lambda>k. int k) 0 (5 :: nat) (\<lambda>k. None) [Inr [1, 2], Inr [3], Inr []] []))) 5 = None
    \<and> fst (snd (handle_connection (\<lambda>k. int k) 0 (5 :: nat) (\<lambda>k. None) [Inr [1, 2], Inr [3], Inr []] [])) = [1, 2, 3]"
proof -
  have "fst (handle_connection (\<lambda>k. int k) 0 (5 :: nat) (\<lambda>k. None) [Inr [1, 2], Inr [3], Inr []] []) = Some (Ret ())"
    by (simp add: handle_connection_def monitor_active_def monitor_inactive_def monitor_read_def clients_get_def Let_def
        dict_get_def dict_set_def dict_keys_def)
  then obtain out d' where h: "handle_connection (\<lambda>k. int k) 0 (5 :: nat) (\<lambda>k. None) [Inr [1, 2], Inr [3], Inr []] []
      = (Some (Ret ()), out, d')" by (metis prod.collapse)
  from monitored_connection_life[OF h] show ?thesis by (simp add: h)
qed

end
